(* ===== verification/Mb_Prelude.thy ===== *)
theory Mb_Prelude
  imports Main "HOL-Library.Word"
begin

text \<open>
  Shared vocabulary of the development: the outcome of a C function, accesses to C arrays with
  their bounds, byte and register words, and the lemmas about them that every component uses.

  A C function is a HOL function into \<open>outcome\<close>: \<open>Done x\<close> is a normal return, \<open>Fault\<close> is
  undefined behaviour (an access outside an array, an overflow of a signed operation whose operands
  the caller chooses, a failed assertion), and \<open>Pending\<close> is a call
  that has not returned because the scripted environment has nothing more to say (a blocked
  system call).
\<close>

unbundle bit_operations_syntax

type_synonym byte = "8 word"
type_synonym u16 = "16 word"
type_synonym u32 = "32 word"

named_theorems outcome_iff \<open>when a composed operation returns\<close>
named_theorems frame_simps \<open>contents of a buffer prefix after a write\<close>

section \<open>Outcomes\<close>

datatype 'a outcome = Done 'a | Pending | Fault

fun obind :: "'a outcome \<Rightarrow> ('a \<Rightarrow> 'b outcome) \<Rightarrow> 'b outcome" where
  "obind (Done x) f = f x"
| "obind Pending f = Pending"
| "obind Fault f = Fault"

lemma obind_Done_iff [outcome_iff]: "obind m f = Done y \<longleftrightarrow> (\<exists>x. m = Done x \<and> f x = Done y)"
  by (cases m) auto

lemma obind_Fault_iff [outcome_iff]: "obind m f = Fault \<longleftrightarrow> m = Fault \<or> (\<exists>x. m = Done x \<and> f x = Fault)"
  by (cases m) auto

lemma obind_Pending_iff [outcome_iff]: "obind m f = Pending \<longleftrightarrow> m = Pending \<or> (\<exists>x. m = Done x \<and> f x = Pending)"
  by (cases m) auto

lemma obind_DoneE:
  assumes "obind m f = Done y"
  obtains x where "m = Done x" and "f x = Done y"
  using assms by (cases m) auto

lemma obind_assoc: "obind (obind m f) g = obind m (\<lambda>x. obind (f x) g)"
  by (cases m) auto

lemma obind_cong [fundef_cong]:
  "m = m' \<Longrightarrow> (\<And>x. m' = Done x \<Longrightarrow> f x = f' x) \<Longrightarrow> obind m f = obind m' f'"
  by (cases m') auto

lemma obind_if: "obind (if b then m else m') f = (if b then obind m f else obind m' f)"
  by simp

lemma obind_neq_Fault:
  "m \<noteq> Fault \<Longrightarrow> (\<And>x. m = Done x \<Longrightarrow> f x \<noteq> Fault) \<Longrightarrow> obind m f \<noteq> Fault"
  by (cases m) auto

section \<open>Signed arithmetic\<close>

text \<open>
  The result of a signed operation of type \<open>int\<close>: undefined when it is not representable. The lemmas
  say of the operations whose operands are bytes, lengths and counts that they cannot overflow, and
  these are plain HOL integers; the ones that read a number of the caller go through \<open>c_int\<close>.
\<close>

definition c_int :: "int \<Rightarrow> int outcome" where
  "c_int i = (if - (2 ^ 31) \<le> i \<and> i < 2 ^ 31 then Done i else Fault)"

lemma c_int_Done_iff [outcome_iff]: "c_int i = Done j \<longleftrightarrow> - (2 ^ 31) \<le> i \<and> i < 2 ^ 31 \<and> j = i"
  by (auto simp: c_int_def)

lemma c_int_fits: "- (2 ^ 31) \<le> i \<Longrightarrow> i < 2 ^ 31 \<Longrightarrow> c_int i = Done i"
  by (simp add: c_int_def)

section \<open>Arrays\<close>

text \<open>\<open>a[i]\<close>, \<open>a[i] = x\<close> and \<open>memcpy(dst + d, src + s, n)\<close>, with the size of the array known.\<close>

definition rd :: "'a list \<Rightarrow> nat \<Rightarrow> 'a outcome" where
  "rd a i = (if i < length a then Done (a ! i) else Fault)"

definition wr :: "'a list \<Rightarrow> nat \<Rightarrow> 'a \<Rightarrow> 'a list outcome" where
  "wr a i x = (if i < length a then Done (a[i := x]) else Fault)"

definition memcpy :: "'a list \<Rightarrow> nat \<Rightarrow> 'a list \<Rightarrow> nat \<Rightarrow> nat \<Rightarrow> 'a list outcome" where
  "memcpy dst d src s n =
     (if d + n \<le> length dst \<and> s + n \<le> length src
      then Done (take d dst @ take n (drop s src) @ drop (d + n) dst) else Fault)"

text \<open>A signed index: a negative one is outside the array.\<close>

definition rdi :: "'a list \<Rightarrow> int \<Rightarrow> 'a outcome" where
  "rdi a i = (if 0 \<le> i then rd a (nat i) else Fault)"

definition wri :: "'a list \<Rightarrow> int \<Rightarrow> 'a \<Rightarrow> 'a list outcome" where
  "wri a i x = (if 0 \<le> i then wr a (nat i) x else Fault)"

lemma rd_Done [simp]: "i < length a \<Longrightarrow> rd a i = Done (a ! i)"
  by (simp add: rd_def)

lemma rd_Done_iff [outcome_iff]: "rd a i = Done x \<longleftrightarrow> i < length a \<and> x = a ! i"
  by (auto simp: rd_def)

lemma wr_Done [simp]: "i < length a \<Longrightarrow> wr a i x = Done (a[i := x])"
  by (simp add: wr_def)

lemma wr_Done_iff [outcome_iff]: "wr a i x = Done a' \<longleftrightarrow> i < length a \<and> a' = a[i := x]"
  by (auto simp: wr_def)

lemma memcpy_Done [simp]:
  "d + n \<le> length dst \<Longrightarrow> s + n \<le> length src \<Longrightarrow>
   memcpy dst d src s n = Done (take d dst @ take n (drop s src) @ drop (d + n) dst)"
  by (simp add: memcpy_def)

lemma memcpy_Done_iff [outcome_iff]:
  "memcpy dst d src s n = Done a \<longleftrightarrow>
     d + n \<le> length dst \<and> s + n \<le> length src \<and>
     a = take d dst @ take n (drop s src) @ drop (d + n) dst"
  by (auto simp: memcpy_def)

lemma rdi_Done [simp]: "0 \<le> i \<Longrightarrow> nat i < length a \<Longrightarrow> rdi a i = Done (a ! nat i)"
  by (simp add: rdi_def)

lemma rdi_Done_iff [outcome_iff]:
  "rdi a i = Done x \<longleftrightarrow> 0 \<le> i \<and> nat i < length a \<and> x = a ! nat i"
  by (auto simp: rdi_def rd_def)

lemma wri_Done [simp]: "0 \<le> i \<Longrightarrow> nat i < length a \<Longrightarrow> wri a i x = Done (a[nat i := x])"
  by (simp add: wri_def)

lemma wri_Done_iff [outcome_iff]:
  "wri a i x = Done a' \<longleftrightarrow> 0 \<le> i \<and> nat i < length a \<and> a' = a[nat i := x]"
  by (auto simp: wri_def wr_def)

lemma array_ops_not_Pending [simp]:
  "rd a i \<noteq> Pending" "wr a i x \<noteq> Pending" "memcpy d n a k m \<noteq> Pending"
  "rdi a j \<noteq> Pending" "wri a j x \<noteq> Pending"
  by (auto simp: rd_def wr_def memcpy_def rdi_def wri_def)

lemma length_memcpy: "memcpy dst d src s n = Done a \<Longrightarrow> length a = length dst"
  by (auto simp: memcpy_def split: if_splits)

text \<open>
  \<open>buf[pos++] = x\<close> for each \<open>x\<close> of a list: the shape of every loop that fills a message.
\<close>

fun push_all :: "'a list \<Rightarrow> nat \<Rightarrow> 'a list \<Rightarrow> (nat \<times> 'a list) outcome" where
  "push_all a pos [] = Done (pos, a)"
| "push_all a pos (x # xs) = obind (wr a pos x) (\<lambda>a. push_all a (Suc pos) xs)"

text \<open>\<open>for (i = m; i < n; i++) body\<close>: the body maps the loop's state, over the list of indices.\<close>

fun ofor :: "nat list \<Rightarrow> (nat \<Rightarrow> 'a \<Rightarrow> 'a outcome) \<Rightarrow> 'a \<Rightarrow> 'a outcome" where
  "ofor [] body a = Done a"
| "ofor (i # is) body a = obind (body i a) (ofor is body)"

lemma ofor_append: "ofor (is @ js) body a = obind (ofor is body a) (ofor js body)"
proof (induction "is" arbitrary: a)
  case Nil
  then show ?case by simp
next
  case (Cons i "is")
  then show ?case by (cases "body i a") simp_all
qed

lemma ofor_upt:
  assumes "P m a" and "m \<le> n"
    and step: "\<And>i a. m \<le> i \<Longrightarrow> i < n \<Longrightarrow> P i a \<Longrightarrow> \<exists>a'. body i a = Done a' \<and> P (Suc i) a'"
  shows "\<exists>a'. ofor [m..<n] body a = Done a' \<and> P n a'"
  using assms(2) step
proof (induction n rule: dec_induct)
  case base
  then show ?case using assms(1) by simp
next
  case (step k)
  have "\<exists>a'. ofor [m..<k] body a = Done a' \<and> P k a'"
    by (rule step.IH) (simp add: step.prems)
  then obtain a' where "ofor [m..<k] body a = Done a'" and "P k a'" by blast
  with step.prems [of k a'] step.hyps show ?case
    by (auto simp: ofor_append)
qed

text \<open>The same rule for a loop that never leaves the normal path, with the final state as a function.\<close>

lemma ofor_upt_state:
  assumes "m \<le> n" and "a = s m"
    and step: "\<And>i. m \<le> i \<Longrightarrow> i < n \<Longrightarrow> body i (s i) = Done (s (Suc i))"
  shows "ofor [m..<n] body a = Done (s n)"
proof -
  have "\<exists>a'. ofor [m..<n] body a = Done a' \<and> a' = s n"
    by (rule ofor_upt) (use assms in auto)
  then show ?thesis by simp
qed

lemma take_Suc_update [frame_simps]:
  "i < length a \<Longrightarrow> take (Suc i) (a[i := x]) = take i a @ [x]"
  by (simp add: take_Suc_conv_app_nth)

lemma push_all_fits:
  "pos + length xs \<le> length a \<Longrightarrow>
   push_all a pos xs = Done (pos + length xs, take pos a @ xs @ drop (pos + length xs) a)"
proof (induction xs arbitrary: a pos)
  case Nil
  then show ?case by simp
next
  case (Cons x xs)
  then have "pos < length a" by simp
  then have "take (Suc pos) (a[pos := x]) = take pos a @ [x]"
    by (rule take_Suc_update)
  with Cons show ?case by simp
qed

lemma push_all_append:
  "push_all a pos (xs @ ys) = obind (push_all a pos xs) (\<lambda>(pos, a). push_all a pos ys)"
proof (induction xs arbitrary: a pos)
  case Nil
  then show ?case by simp
next
  case (Cons x xs)
  then show ?case by (cases "wr a pos x") simp_all
qed

lemma take_memcpy [frame_simps]:
  "d + n \<le> length dst \<Longrightarrow> s + n \<le> length src \<Longrightarrow>
   take (d + n) (take d dst @ take n (drop s src) @ drop (d + n) dst) = take d dst @ take n (drop s src)"
  by simp

section \<open>Bytes, 16-bit values and C integers\<close>

text \<open>
  \<open>hi8\<close>, \<open>lo8\<close>: the two bytes of a \<open>uint16_t\<close> (\<open>v >> 8\<close> and \<open>v & 0xFF\<close> stored in a
  \<open>uint8_t\<close>); \<open>int_hi8\<close>, \<open>int_lo8\<close>: the same of an \<open>int\<close>; \<open>be16 h l\<close> is the \<open>int\<close>
  \<open>(h << 8) + l\<close>, which equals \<open>(h << 8) | l\<close>.
\<close>

definition hi8 :: "u16 \<Rightarrow> byte" where
  "hi8 r = ucast (drop_bit 8 r)"

definition lo8 :: "u16 \<Rightarrow> byte" where
  "lo8 r = ucast (r AND 0xFF)"

definition int_hi8 :: "int \<Rightarrow> byte" where
  "int_hi8 v = word_of_int (drop_bit 8 v)"

definition int_lo8 :: "int \<Rightarrow> byte" where
  "int_lo8 v = word_of_int (v AND 0xFF)"

definition be16 :: "byte \<Rightarrow> byte \<Rightarrow> int" where
  "be16 h l = push_bit 8 (uint h) + uint l"

lemma byte_bounds [simp]: "0 \<le> uint (b :: byte)" "uint (b :: byte) < 256" "uint (b :: byte) \<le> 255"
proof -
  show "uint b < 256" using uint_lt2p [of b] by simp
  then show "uint b \<le> 255" by simp
qed simp

lemma u16_bounds [simp]: "uint (r :: u16) < 65536" "uint (r :: u16) \<le> 65535"
proof -
  show "uint r < 65536" using uint_lt2p [of r] by simp
  then show "uint r \<le> 65535" by simp
qed

lemma be16_eq: "be16 h l = 256 * uint h + uint l"
  by (simp add: be16_def push_bit_eq_mult)

lemma be16_bounds [simp]: "0 \<le> be16 h l" "be16 h l < 65536" "be16 h l \<le> 65535"
proof -
  show "be16 h l < 65536" using byte_bounds(2) [of h] byte_bounds(2) [of l] unfolding be16_eq by linarith
  then show "be16 h l \<le> 65535" by simp
qed (simp add: be16_eq)

lemma u16_high_byte [simp]: "uint (r :: u16) div 256 mod 256 = uint r div 256"
proof (rule mod_pos_pos_trivial)
  show "0 \<le> uint r div 256" by (simp add: pos_imp_zdiv_nonneg_iff)
  show "uint r div 256 < 256" using u16_bounds(1) [of r] by linarith
qed

lemma uint_hi8: "uint (hi8 r) = uint r div 256"
  by (simp add: hi8_def unsigned_ucast_eq unsigned_drop_bit_eq take_bit_eq_mod drop_bit_eq_div uint_div)

lemma uint_lo8: "uint (lo8 r) = uint r mod 256"
proof -
  have "uint (r AND 0xFF) = uint r AND mask 8"
    by (simp add: unsigned_and_eq mask_eq_exp_minus_1)
  then have "uint (r AND 0xFF) = take_bit 8 (uint r)"
    by (simp only: take_bit_eq_mask)
  then show ?thesis
    by (simp add: lo8_def unsigned_ucast_eq take_bit_eq_mod)
qed

lemma uint_int_hi8: "uint (int_hi8 v) = (v div 256) mod 256"
  by (simp add: int_hi8_def uint_word_of_int drop_bit_eq_div take_bit_eq_mod)

lemma uint_int_lo8: "uint (int_lo8 v) = v mod 256"
proof -
  have "v AND 0xFF = take_bit 8 v"
    by (simp add: take_bit_eq_mask mask_eq_exp_minus_1)
  then show ?thesis
    by (simp add: int_lo8_def uint_word_of_int take_bit_eq_mod)
qed

lemma be16_hi8_lo8 [simp]: "be16 (hi8 r) (lo8 r) = uint r"
  by (simp add: be16_eq uint_hi8 uint_lo8)

lemma be16_int_bytes: "be16 (int_hi8 v) (int_lo8 v) = v mod 65536"
proof -
  have "v mod (256 * 256) = 256 * (v div 256 mod 256) + v mod 256"
    by (rule zmod_zmult2_eq) simp
  then show ?thesis by (simp add: be16_eq uint_int_hi8 uint_int_lo8)
qed

lemma be16_int_bytes_id [simp]:
  "0 \<le> v \<Longrightarrow> v < 65536 \<Longrightarrow> be16 (int_hi8 v) (int_lo8 v) = v"
  by (simp add: be16_int_bytes)

lemma word_of_be16 [simp]: "(word_of_int (be16 (hi8 r) (lo8 r)) :: u16) = r"
  by simp

lemma uint_word_of_be16 [simp]: "uint (word_of_int (be16 h l) :: u16) = be16 h l"
  by (simp add: uint_word_of_int)

lemma bytes_of_be16 [simp]:
  "hi8 (word_of_int (be16 h l)) = h" "lo8 (word_of_int (be16 h l)) = l"
  using byte_bounds [of l]
  by (simp_all add: word_uint_eq_iff [where 'a = 8] uint_hi8 uint_lo8 del: word_of_be16)
     (simp_all add: be16_eq)

lemma int_bytes_of_be16 [simp]: "int_hi8 (be16 h l) = h" "int_lo8 (be16 h l) = l"
  using byte_bounds [of l] byte_bounds [of h]
  by (simp_all add: word_uint_eq_iff uint_int_hi8 uint_int_lo8 be16_eq)

lemma int_bytes_of_u16 [simp]: "int_hi8 (uint r) = hi8 r" "int_lo8 (uint r) = lo8 r"
  by (simp_all add: word_uint_eq_iff uint_int_hi8 uint_int_lo8 uint_hi8 uint_lo8)

lemma be16_or: "push_bit 8 (uint h) OR uint l = be16 h l"
proof -
  have "push_bit 8 (uint h) AND uint l = 0"
  proof (rule bit_eqI)
    fix n
    show "bit (push_bit 8 (uint h) AND uint l) n \<longleftrightarrow> bit (0 :: int) n"
      using bit_imp_le_length [of l n] by (auto simp: bit_simps)
  qed
  then show ?thesis by (simp add: be16_def disjunctive_add_eq_or)
qed

lemma u16_mask_FF: "(0xFF :: u16) = mask 8"
  by (simp add: mask_eq_exp_minus_1)

lemma bit_lo8: "bit (lo8 r) n \<longleftrightarrow> n < 8 \<and> bit r n"
  by (auto simp: lo8_def u16_mask_FF bit_simps dest: bit_imp_le_length simp del: mask_numeral)

lemma bit_hi8: "bit (hi8 r) n \<longleftrightarrow> n < 8 \<and> bit r (n + 8)"
  by (auto simp: hi8_def bit_simps ac_simps dest: bit_imp_le_length)

lemma uint_ucast_byte: "uint (ucast (b :: byte) :: u16) = uint b"
proof -
  have "uint b < 65536" using byte_bounds(2) [of b] by linarith
  then show ?thesis by (simp add: unsigned_ucast_eq take_bit_eq_mod)
qed

text \<open>A list of registers as the bytes of a message, high byte first.\<close>

definition bytes_of_regs :: "u16 list \<Rightarrow> byte list" where
  "bytes_of_regs rs = concat (map (\<lambda>r. [hi8 r, lo8 r]) rs)"

fun regs_of_bytes :: "byte list \<Rightarrow> u16 list" where
  "regs_of_bytes (h # l # bs) = word_of_int (be16 h l) # regs_of_bytes bs"
| "regs_of_bytes bs = []"

lemma bytes_of_regs_simps [simp]:
  "bytes_of_regs [] = []"
  "bytes_of_regs (r # rs) = hi8 r # lo8 r # bytes_of_regs rs"
  by (simp_all add: bytes_of_regs_def)

lemma length_bytes_of_regs [simp]: "length (bytes_of_regs rs) = 2 * length rs"
  by (induction rs) simp_all

lemma regs_of_bytes_of_regs [simp]: "regs_of_bytes (bytes_of_regs rs) = rs"
  by (induction rs) simp_all

lemma length_regs_of_bytes [simp]: "length (regs_of_bytes bs) = length bs div 2"
  by (induction bs rule: regs_of_bytes.induct) simp_all

lemma bytes_of_regs_append: "bytes_of_regs (xs @ ys) = bytes_of_regs xs @ bytes_of_regs ys"
  by (simp add: bytes_of_regs_def)

lemma nth_regs_of_bytes:
  "Suc (2 * i) < length bs \<Longrightarrow>
   regs_of_bytes bs ! i = word_of_int (be16 (bs ! (2 * i)) (bs ! Suc (2 * i)))"
proof (induction bs arbitrary: i rule: regs_of_bytes.induct)
  case (1 h l bs)
  then show ?case by (cases i) simp_all
qed simp_all

end
