(* ===== verification/Mb_System.thy ===== *)
theory Mb_System
  imports Mb_Prelude
begin

text \<open>
  The operating system as the library sees it. The results of system calls are scripted in the
  state \<open>world\<close>, so that a theorem that quantifies over a world quantifies over every behaviour of
  the peer, the line and the kernel: what arrives on the descriptor (\<open>w_rx\<close>), what each
  \<open>send\<close>/\<open>write\<close> accepts (\<open>w_tx\<close>), and the results of the remaining calls, in the order they
  are made (\<open>w_calls\<close>). A script that ends early stands for a call that has not returned: the
  outcome is \<open>Pending\<close>. The other fields record the effects: the bytes accepted by the kernel, the
  open descriptors, the sleeps, the timeouts given to \<open>select\<close>, the changes of the RTS line and its
  settings. \<open>w_addrs\<close> is the list of addresses that the resolver returns, with \<open>True\<close> for the family
  \<open>AF_INET\<close>.
\<close>

text \<open>
  \<open>errno\<close>: the system's codes by name and \<open>EMB n\<close> for the number \<open>MODBUS_ENOBASE + n\<close>, which
  modbus.h chooses outside the system's range.
\<close>

datatype errno =
    ENone | EINVAL | ENOMEM | EBADF | ECONNRESET | ECONNREFUSED | EPIPE | ETIMEDOUT | EINTR
  | EAGAIN | EINPROGRESS | EOVERFLOW | ENOTSUP | EOther nat | EMB int

record timeval =
  tv_sec :: int
  tv_usec :: int

text \<open>
  What happens on the read side: a chunk of bytes arrives, the peer closes, a read fails,
  \<open>select\<close> fails, or nothing happens for longer than any timeout in force.
\<close>

datatype rx_event = Rx_data "byte list" | Rx_eof | Rx_err errno | Rx_sel_err errno | Rx_silence

datatype tx_event = Tx_sent nat | Tx_err errno

text \<open>The settings of a serial line (\<open>struct termios2\<close>).\<close>

record termios =
  c_iflag :: u32
  c_oflag :: u32
  c_cflag :: u32
  c_lflag :: u32
  c_ispeed :: int
  c_ospeed :: int
  c_vmin :: nat
  c_vtime :: nat

record world =
  w_errno :: errno
  w_rx :: "rx_event list"
  w_tx :: "tx_event list"
  w_calls :: "(int \<times> errno) list"
  w_sent :: "byte list list"
  w_fds :: "int list"
  w_slept :: "timeval list"
  w_armed :: "timeval option list"
  w_rts :: "bool list"
  w_usleep :: "nat list"
  w_tios :: termios
  w_addrs :: "bool list"

abbreviation set_errno :: "errno \<Rightarrow> world \<Rightarrow> world" where
  "set_errno e w \<equiv> w\<lparr>w_errno := e\<rparr>"

abbreviation fail_errno :: "errno \<Rightarrow> world \<Rightarrow> int \<times> world" where
  "fail_errno e w \<equiv> (-1, set_errno e w)"

text \<open>The bound of \<open>fd_set\<close> on the modelled platform.\<close>

definition FD_SETSIZE :: int where
  [simp]: "FD_SETSIZE = 1024"

section \<open>select, recv/read, send/write\<close>

fun select_read :: "bool \<Rightarrow> rx_event list \<Rightarrow> (int \<times> errno option \<times> rx_event list) outcome" where
  "select_read timed [] = Pending"
| "select_read timed (Rx_silence # es) = (if timed then Done (0, None, es) else select_read timed es)"
| "select_read timed (Rx_sel_err e # es) = Done (-1, Some e, es)"
| "select_read timed (Rx_data [] # es) = select_read timed es"
| "select_read timed (ev # es) = Done (1, None, ev # es)"

definition sys_select :: "timeval option \<Rightarrow> world \<Rightarrow> (int \<times> world) outcome" where
  "sys_select tv w =
     obind (select_read (tv \<noteq> None) (w_rx w)) (\<lambda>(rc, e, es).
       Done (rc, w\<lparr>w_rx := es, w_armed := w_armed w @ [tv],
                   w_errno := (case e of None \<Rightarrow> w_errno w | Some e \<Rightarrow> e)\<rparr>))"

fun recv_read :: "nat \<Rightarrow> rx_event list \<Rightarrow> int \<times> byte list \<times> errno option \<times> rx_event list" where
  "recv_read n (Rx_data [] # es) = recv_read n es"
| "recv_read n (Rx_data bs # es) =
     (int (length (take n bs)), take n bs, None,
      if drop n bs = [] then es else Rx_data (drop n bs) # es)"
| "recv_read n (Rx_eof # es) = (0, [], None, Rx_eof # es)"
| "recv_read n (Rx_err e # es) = (-1, [], Some e, es)"
| "recv_read n es = (-1, [], Some EAGAIN, es)"

definition sys_recv :: "int \<Rightarrow> nat \<Rightarrow> world \<Rightarrow> int \<times> byte list \<times> world" where
  "sys_recv fd n w =
     (if fd < 0 then (-1, [], set_errno EBADF w)
      else (case recv_read n (w_rx w) of (rc, bs, e, es) \<Rightarrow>
        (rc, bs, w\<lparr>w_rx := es, w_errno := (case e of None \<Rightarrow> w_errno w | Some e \<Rightarrow> e)\<rparr>)))"

definition sys_send :: "int \<Rightarrow> byte list \<Rightarrow> world \<Rightarrow> (int \<times> world) outcome" where
  "sys_send fd msg w =
     (case w_tx w of
        [] \<Rightarrow> Pending
      | ev # es \<Rightarrow>
          (let w = w\<lparr>w_tx := es\<rparr> in
           if fd < 0 then Done (fail_errno EBADF w)
           else (case ev of
                   Tx_err e \<Rightarrow> Done (fail_errno e w)
                 | Tx_sent n \<Rightarrow> Done (int (length (take n msg)), w\<lparr>w_sent := w_sent w @ [take n msg]\<rparr>))))"

text \<open>\<open>tcflush(fd, TCIOFLUSH)\<close> discards what has been received and not read.\<close>

fun drop_data :: "rx_event list \<Rightarrow> rx_event list" where
  "drop_data (Rx_data bs # es) = drop_data es"
| "drop_data es = es"

definition sys_tcflush :: "int \<Rightarrow> world \<Rightarrow> int \<times> world" where
  "sys_tcflush fd w = (if fd < 0 then fail_errno EBADF w else (0, w\<lparr>w_rx := drop_data (w_rx w)\<rparr>))"

section \<open>The other calls\<close>

definition sys_call :: "world \<Rightarrow> (int \<times> world) outcome" where
  "sys_call w =
     (case w_calls w of
        [] \<Rightarrow> Pending
      | (r, e) # cs \<Rightarrow> Done (r, w\<lparr>w_calls := cs, w_errno := (if r < 0 then e else w_errno w)\<rparr>))"

text \<open>\<open>socket\<close>, \<open>open\<close> and \<open>accept\<close> return a new descriptor.\<close>

definition sys_open :: "world \<Rightarrow> (int \<times> world) outcome" where
  "sys_open w = obind (sys_call w) (\<lambda>(r, w). Done (r, if r < 0 then w else w\<lparr>w_fds := r # w_fds w\<rparr>))"

definition sys_close :: "int \<Rightarrow> world \<Rightarrow> world" where
  "sys_close fd w = w\<lparr>w_fds := remove1 fd (w_fds w)\<rparr>"

definition sys_sleep :: "timeval \<Rightarrow> world \<Rightarrow> world" where
  "sys_sleep tv w = w\<lparr>w_slept := w_slept w @ [tv]\<rparr>"

definition sys_usleep :: "nat \<Rightarrow> world \<Rightarrow> world" where
  "sys_usleep us w = w\<lparr>w_usleep := w_usleep w @ [us]\<rparr>"

section \<open>Facts about the calls\<close>

lemma select_read_result:
  "select_read timed es = Done (rc, e, es') \<Longrightarrow> rc = -1 \<and> e \<noteq> None \<or> rc = 0 \<and> e = None \<or> rc = 1 \<and> e = None"
  by (induction timed es rule: select_read.induct) (auto split: if_splits)

lemma select_read_not_Fault [simp]: "select_read timed es \<noteq> Fault"
  by (induction timed es rule: select_read.induct) auto

lemma sys_select_not_Fault [simp]: "sys_select tv w \<noteq> Fault"
  by (auto simp: sys_select_def outcome_iff)

lemma sys_select_result: "sys_select tv w = Done (rc, w') \<Longrightarrow> rc = -1 \<or> rc = 0 \<or> rc = 1"
  by (auto simp: sys_select_def outcome_iff dest!: select_read_result)

lemma sys_select_frame:
  "sys_select tv w = Done (rc, w') \<Longrightarrow>
   w_tx w' = w_tx w \<and> w_calls w' = w_calls w \<and> w_sent w' = w_sent w \<and> w_fds w' = w_fds w"
  by (auto simp: sys_select_def outcome_iff)

lemma recv_read_length:
  "recv_read n es = (rc, bs, e, es') \<Longrightarrow> length bs \<le> n \<and> (bs \<noteq> [] \<longrightarrow> rc = int (length bs)) \<and> rc \<le> int n"
  by (induction n es rule: recv_read.induct) (auto split: if_splits)

lemma recv_read_count:
  "recv_read n es = (rc, bs, e, es') \<Longrightarrow> rc = -1 \<and> bs = [] \<or> rc = int (length bs)"
  by (induction n es rule: recv_read.induct) (auto split: if_splits)

lemma sys_recv_count:
  "sys_recv fd n w = (rc, bs, w') \<Longrightarrow>
   (rc = -1 \<and> bs = [] \<or> rc = int (length bs)) \<and> length bs \<le> n"
  by (auto simp: sys_recv_def split: if_splits prod.splits dest: recv_read_count recv_read_length)

lemma sys_recv_frame:
  "sys_recv fd n w = (rc, bs, w') \<Longrightarrow>
   w_tx w' = w_tx w \<and> w_calls w' = w_calls w \<and> w_sent w' = w_sent w \<and> w_fds w' = w_fds w"
  by (auto simp: sys_recv_def split: if_splits prod.splits)

lemma sys_send_not_Fault [simp]: "sys_send fd msg w \<noteq> Fault"
  by (auto simp: sys_send_def Let_def split: list.splits tx_event.splits)

lemma sys_send_shrinks: "sys_send fd msg w = Done (rc, w') \<Longrightarrow> w_tx w = hd (w_tx w) # w_tx w'"
  by (auto simp: sys_send_def Let_def split: list.splits tx_event.splits if_splits)

lemma sys_send_result:
  "sys_send fd msg w = Done (rc, w') \<Longrightarrow>
   rc = -1 \<and> w_sent w' = w_sent w \<or>
   (\<exists>n. rc = int (length (take n msg)) \<and> w_sent w' = w_sent w @ [take n msg])"
  by (auto simp: sys_send_def Let_def split: list.splits tx_event.splits if_splits)

lemma sys_tcflush_frame:
  "sys_tcflush fd w = (rc, w') \<Longrightarrow>
   w_tx w' = w_tx w \<and> w_calls w' = w_calls w \<and> w_sent w' = w_sent w \<and> w_fds w' = w_fds w"
  by (auto simp: sys_tcflush_def split: if_splits)

lemma sys_call_not_Fault [simp]: "sys_call w \<noteq> Fault" "sys_open w \<noteq> Fault"
  by (auto simp: sys_call_def sys_open_def outcome_iff split: list.splits)

lemma sys_call_frame:
  "sys_call w = Done (r, w') \<Longrightarrow>
   w_tx w' = w_tx w \<and> w_sent w' = w_sent w \<and> w_fds w' = w_fds w \<and> w_rx w' = w_rx w"
  by (auto simp: sys_call_def split: list.splits)

lemma sys_open_frame:
  "sys_open w = Done (r, w') \<Longrightarrow>
   w_tx w' = w_tx w \<and> w_sent w' = w_sent w \<and> w_rx w' = w_rx w \<and>
   w_fds w' = (if r < 0 then w_fds w else r # w_fds w)"
  by (auto simp: sys_open_def outcome_iff dest!: sys_call_frame)

lemma sys_effects [simp]:
  "w_tx (sys_close fd w) = w_tx w" "w_sent (sys_close fd w) = w_sent w" "w_rx (sys_close fd w) = w_rx w"
  "w_calls (sys_close fd w) = w_calls w" "w_errno (sys_close fd w) = w_errno w"
  "w_fds (sys_close fd w) = remove1 fd (w_fds w)"
  "w_tx (sys_sleep tv w) = w_tx w" "w_sent (sys_sleep tv w) = w_sent w" "w_rx (sys_sleep tv w) = w_rx w"
  "w_calls (sys_sleep tv w) = w_calls w" "w_errno (sys_sleep tv w) = w_errno w"
  "w_fds (sys_sleep tv w) = w_fds w"
  "w_tx (sys_usleep n w) = w_tx w" "w_sent (sys_usleep n w) = w_sent w" "w_rx (sys_usleep n w) = w_rx w"
  "w_calls (sys_usleep n w) = w_calls w" "w_errno (sys_usleep n w) = w_errno w"
  "w_fds (sys_usleep n w) = w_fds w"
  by (simp_all add: sys_close_def sys_sleep_def sys_usleep_def)

end
