(* ===== verification/Mb_Context.thy ===== *)
theory Mb_Context
  imports Mb_System
begin

text \<open>
  The constants of modbus.h, modbus-private.h, modbus-rtu.h and modbus-tcp.h, the context
  \<open>modbus_t\<close> with the data of its backend, and the accessors of modbus.c that read or set one field
  of the context. A pointer argument that may be NULL is an \<open>option\<close>. The pair \<open>backend\<close>,
  \<open>backend_data\<close> of the context is one tagged value: the constructors of the library always set
  the two together.
\<close>

section \<open>Constants\<close>

definition MODBUS_FC_READ_COILS :: int where [simp]: "MODBUS_FC_READ_COILS = 0x01"
definition MODBUS_FC_READ_DISCRETE_INPUTS :: int where [simp]: "MODBUS_FC_READ_DISCRETE_INPUTS = 0x02"
definition MODBUS_FC_READ_HOLDING_REGISTERS :: int where [simp]: "MODBUS_FC_READ_HOLDING_REGISTERS = 0x03"
definition MODBUS_FC_READ_INPUT_REGISTERS :: int where [simp]: "MODBUS_FC_READ_INPUT_REGISTERS = 0x04"
definition MODBUS_FC_WRITE_SINGLE_COIL :: int where [simp]: "MODBUS_FC_WRITE_SINGLE_COIL = 0x05"
definition MODBUS_FC_WRITE_SINGLE_REGISTER :: int where [simp]: "MODBUS_FC_WRITE_SINGLE_REGISTER = 0x06"
definition MODBUS_FC_READ_EXCEPTION_STATUS :: int where [simp]: "MODBUS_FC_READ_EXCEPTION_STATUS = 0x07"
definition MODBUS_FC_WRITE_MULTIPLE_COILS :: int where [simp]: "MODBUS_FC_WRITE_MULTIPLE_COILS = 0x0F"
definition MODBUS_FC_WRITE_MULTIPLE_REGISTERS :: int where [simp]: "MODBUS_FC_WRITE_MULTIPLE_REGISTERS = 0x10"
definition MODBUS_FC_REPORT_SLAVE_ID :: int where [simp]: "MODBUS_FC_REPORT_SLAVE_ID = 0x11"
definition MODBUS_FC_MASK_WRITE_REGISTER :: int where [simp]: "MODBUS_FC_MASK_WRITE_REGISTER = 0x16"
definition MODBUS_FC_WRITE_AND_READ_REGISTERS :: int where [simp]: "MODBUS_FC_WRITE_AND_READ_REGISTERS = 0x17"

definition MODBUS_BROADCAST_ADDRESS :: int where [simp]: "MODBUS_BROADCAST_ADDRESS = 0"

definition MODBUS_MAX_READ_BITS :: int where [simp]: "MODBUS_MAX_READ_BITS = 2000"
definition MODBUS_MAX_WRITE_BITS :: int where [simp]: "MODBUS_MAX_WRITE_BITS = 1968"
definition MODBUS_MAX_READ_REGISTERS :: int where [simp]: "MODBUS_MAX_READ_REGISTERS = 125"
definition MODBUS_MAX_WRITE_REGISTERS :: int where [simp]: "MODBUS_MAX_WRITE_REGISTERS = 123"
definition MODBUS_MAX_WR_WRITE_REGISTERS :: int where [simp]: "MODBUS_MAX_WR_WRITE_REGISTERS = 121"
definition MODBUS_MAX_WR_READ_REGISTERS :: int where [simp]: "MODBUS_MAX_WR_READ_REGISTERS = 125"

definition MODBUS_MAX_PDU_LENGTH :: int where [simp]: "MODBUS_MAX_PDU_LENGTH = 253"
definition MODBUS_MAX_ADU_LENGTH :: nat where [simp]: "MODBUS_MAX_ADU_LENGTH = 260"
definition MAX_MESSAGE_LENGTH :: nat where [simp]: "MAX_MESSAGE_LENGTH = 260"
definition MIN_REQ_LENGTH :: nat where [simp]: "MIN_REQ_LENGTH = 12"
definition REPORT_SLAVE_ID :: int where [simp]: "REPORT_SLAVE_ID = 180"

definition MODBUS_EXCEPTION_ILLEGAL_FUNCTION :: int where [simp]: "MODBUS_EXCEPTION_ILLEGAL_FUNCTION = 1"
definition MODBUS_EXCEPTION_ILLEGAL_DATA_ADDRESS :: int where [simp]: "MODBUS_EXCEPTION_ILLEGAL_DATA_ADDRESS = 2"
definition MODBUS_EXCEPTION_ILLEGAL_DATA_VALUE :: int where [simp]: "MODBUS_EXCEPTION_ILLEGAL_DATA_VALUE = 3"
definition MODBUS_EXCEPTION_SLAVE_OR_SERVER_FAILURE :: int where [simp]: "MODBUS_EXCEPTION_SLAVE_OR_SERVER_FAILURE = 4"
definition MODBUS_EXCEPTION_ACKNOWLEDGE :: int where [simp]: "MODBUS_EXCEPTION_ACKNOWLEDGE = 5"
definition MODBUS_EXCEPTION_SLAVE_OR_SERVER_BUSY :: int where [simp]: "MODBUS_EXCEPTION_SLAVE_OR_SERVER_BUSY = 6"
definition MODBUS_EXCEPTION_NEGATIVE_ACKNOWLEDGE :: int where [simp]: "MODBUS_EXCEPTION_NEGATIVE_ACKNOWLEDGE = 7"
definition MODBUS_EXCEPTION_MEMORY_PARITY :: int where [simp]: "MODBUS_EXCEPTION_MEMORY_PARITY = 8"
definition MODBUS_EXCEPTION_NOT_DEFINED :: int where [simp]: "MODBUS_EXCEPTION_NOT_DEFINED = 9"
definition MODBUS_EXCEPTION_GATEWAY_PATH :: int where [simp]: "MODBUS_EXCEPTION_GATEWAY_PATH = 10"
definition MODBUS_EXCEPTION_GATEWAY_TARGET :: int where [simp]: "MODBUS_EXCEPTION_GATEWAY_TARGET = 11"
definition MODBUS_EXCEPTION_MAX :: int where [simp]: "MODBUS_EXCEPTION_MAX = 12"

definition EMBXILFUN :: errno where [simp]: "EMBXILFUN = EMB 1"
definition EMBXILADD :: errno where [simp]: "EMBXILADD = EMB 2"
definition EMBXILVAL :: errno where [simp]: "EMBXILVAL = EMB 3"
definition EMBXSFAIL :: errno where [simp]: "EMBXSFAIL = EMB 4"
definition EMBXACK :: errno where [simp]: "EMBXACK = EMB 5"
definition EMBXSBUSY :: errno where [simp]: "EMBXSBUSY = EMB 6"
definition EMBXNACK :: errno where [simp]: "EMBXNACK = EMB 7"
definition EMBXMEMPAR :: errno where [simp]: "EMBXMEMPAR = EMB 8"
definition EMBXGPATH :: errno where [simp]: "EMBXGPATH = EMB 10"
definition EMBXGTAR :: errno where [simp]: "EMBXGTAR = EMB 11"
definition EMBBADCRC :: errno where [simp]: "EMBBADCRC = EMB 12"
definition EMBBADDATA :: errno where [simp]: "EMBBADDATA = EMB 13"
definition EMBBADEXC :: errno where [simp]: "EMBBADEXC = EMB 14"
definition EMBUNKEXC :: errno where [simp]: "EMBUNKEXC = EMB 15"
definition EMBMDATA :: errno where [simp]: "EMBMDATA = EMB 16"
definition EMBBADSLAVE :: errno where [simp]: "EMBBADSLAVE = EMB 17"

definition MODBUS_ERROR_RECOVERY_NONE :: u32 where [simp]: "MODBUS_ERROR_RECOVERY_NONE = 0"
definition MODBUS_ERROR_RECOVERY_LINK :: u32 where [simp]: "MODBUS_ERROR_RECOVERY_LINK = 2"
definition MODBUS_ERROR_RECOVERY_PROTOCOL :: u32 where [simp]: "MODBUS_ERROR_RECOVERY_PROTOCOL = 4"

definition MODBUS_QUIRK_NONE :: u32 where [simp]: "MODBUS_QUIRK_NONE = 0"
definition MODBUS_QUIRK_MAX_SLAVE :: u32 where [simp]: "MODBUS_QUIRK_MAX_SLAVE = 2"
definition MODBUS_QUIRK_REPLY_TO_BROADCAST :: u32 where [simp]: "MODBUS_QUIRK_REPLY_TO_BROADCAST = 4"
definition MODBUS_QUIRK_ALL :: u32 where [simp]: "MODBUS_QUIRK_ALL = 0xFF"

definition MODBUS_TCP_SLAVE :: int where [simp]: "MODBUS_TCP_SLAVE = 0xFF"
definition RESPONSE_TIMEOUT :: int where [simp]: "RESPONSE_TIMEOUT = 500000"
definition BYTE_TIMEOUT :: int where [simp]: "BYTE_TIMEOUT = 500000"

definition MODBUS_RTU_RS232 :: int where [simp]: "MODBUS_RTU_RS232 = 0"
definition MODBUS_RTU_RS485 :: int where [simp]: "MODBUS_RTU_RS485 = 1"
definition MODBUS_RTU_RTS_NONE :: int where [simp]: "MODBUS_RTU_RTS_NONE = 0"
definition MODBUS_RTU_RTS_UP :: int where [simp]: "MODBUS_RTU_RTS_UP = 1"
definition MODBUS_RTU_RTS_DOWN :: int where [simp]: "MODBUS_RTU_RTS_DOWN = 2"

text \<open>The text of an error; \<open>strerror\<close> of the system is a parameter.\<close>

definition modbus_strerror :: "(errno \<Rightarrow> string) \<Rightarrow> errno \<Rightarrow> string" where
  "modbus_strerror strerror errnum =
     (if errnum = EMBXILFUN then ''Illegal function''
      else if errnum = EMBXILADD then ''Illegal data address''
      else if errnum = EMBXILVAL then ''Illegal data value''
      else if errnum = EMBXSFAIL then ''Slave device or server failure''
      else if errnum = EMBXACK then ''Acknowledge''
      else if errnum = EMBXSBUSY then ''Slave device or server is busy''
      else if errnum = EMBXNACK then ''Negative acknowledge''
      else if errnum = EMBXMEMPAR then ''Memory parity error''
      else if errnum = EMBXGPATH then ''Gateway path unavailable''
      else if errnum = EMBXGTAR then ''Target device failed to respond''
      else if errnum = EMBBADCRC then ''Invalid CRC''
      else if errnum = EMBBADDATA then ''Invalid data''
      else if errnum = EMBBADEXC then ''Invalid exception code''
      else if errnum = EMBMDATA then ''Too many data''
      else if errnum = EMBBADSLAVE then ''Response not from requested slave''
      else strerror errnum)"

section \<open>The context\<close>

datatype backend_type = BACKEND_TYPE_RTU | BACKEND_TYPE_TCP

datatype msg_type = MSG_INDICATION | MSG_CONFIRMATION

record sft =
  sft_slave :: int
  sft_function :: int
  sft_t_id :: int

text \<open>The line callback of a RTU context: the library's own ioctl or one set by the user.\<close>

datatype set_rts_fn = Rtu_ioctl_rts | Custom_rts nat

record modbus_rtu =
  rtu_device :: string
  rtu_baud :: int
  rtu_data_bit :: byte
  rtu_stop_bit :: byte
  rtu_parity :: char
  rtu_serial_mode :: int
  rtu_rts :: int
  rtu_rts_delay :: int
  rtu_onebyte_time :: int
  rtu_set_rts :: set_rts_fn
  rtu_old_tios :: termios
  rtu_confirmation_to_ignore :: bool

record modbus_tcp =
  tcp_t_id :: u16
  tcp_port :: int
  tcp_ip :: string

record modbus_tcp_pi =
  pi_t_id :: u16
  pi_port :: int
  pi_node :: string
  pi_service :: string

datatype backend_data = Rtu modbus_rtu | Tcp modbus_tcp | TcpPi modbus_tcp_pi

record modbus =
  mb_slave :: int
  mb_s :: int
  mb_debug :: int
  mb_error_recovery :: u32
  mb_quirks :: u32
  mb_response_timeout :: timeval
  mb_byte_timeout :: timeval
  mb_indication_timeout :: timeval
  mb_backend :: backend_data

definition link_recovery :: "modbus \<Rightarrow> bool" where
  "link_recovery ctx \<longleftrightarrow> mb_error_recovery ctx AND MODBUS_ERROR_RECOVERY_LINK \<noteq> 0"

definition protocol_recovery :: "modbus \<Rightarrow> bool" where
  "protocol_recovery ctx \<longleftrightarrow> mb_error_recovery ctx AND MODBUS_ERROR_RECOVERY_PROTOCOL \<noteq> 0"

definition modbus_init_common :: "modbus \<Rightarrow> modbus" where
  "modbus_init_common ctx = ctx\<lparr>
     mb_slave := -1, mb_s := -1, mb_debug := 0,
     mb_error_recovery := MODBUS_ERROR_RECOVERY_NONE, mb_quirks := MODBUS_QUIRK_NONE,
     mb_response_timeout := \<lparr>tv_sec = 0, tv_usec = RESPONSE_TIMEOUT\<rparr>,
     mb_byte_timeout := \<lparr>tv_sec = 0, tv_usec = BYTE_TIMEOUT\<rparr>,
     mb_indication_timeout := \<lparr>tv_sec = 0, tv_usec = 0\<rparr>\<rparr>"

section \<open>Accessors of modbus.c\<close>

type_synonym 'r on_ctx = "modbus option \<Rightarrow> world \<Rightarrow> int \<times> 'r \<times> world"

definition modbus_get_slave :: "modbus option \<Rightarrow> world \<Rightarrow> int \<times> world" where
  "modbus_get_slave ctx w = (case ctx of None \<Rightarrow> fail_errno EINVAL w | Some c \<Rightarrow> (mb_slave c, w))"

definition modbus_get_socket :: "modbus option \<Rightarrow> world \<Rightarrow> int \<times> world" where
  "modbus_get_socket ctx w = (case ctx of None \<Rightarrow> fail_errno EINVAL w | Some c \<Rightarrow> (mb_s c, w))"

definition modbus_set_socket :: "int \<Rightarrow> modbus option on_ctx" where
  "modbus_set_socket s ctx w =
     (case ctx of None \<Rightarrow> (-1, None, set_errno EINVAL w) | Some c \<Rightarrow> (0, Some (c\<lparr>mb_s := s\<rparr>), w))"

definition modbus_set_error_recovery :: "u32 \<Rightarrow> modbus option on_ctx" where
  "modbus_set_error_recovery error_recovery ctx w =
     (case ctx of None \<Rightarrow> (-1, None, set_errno EINVAL w)
      | Some c \<Rightarrow> (0, Some (c\<lparr>mb_error_recovery := ucast (ucast error_recovery :: byte)\<rparr>), w))"

definition modbus_set_debug :: "int \<Rightarrow> modbus option on_ctx" where
  "modbus_set_debug flag ctx w =
     (case ctx of None \<Rightarrow> (-1, None, set_errno EINVAL w) | Some c \<Rightarrow> (0, Some (c\<lparr>mb_debug := flag\<rparr>), w))"

definition modbus_enable_quirks :: "u32 \<Rightarrow> modbus option on_ctx" where
  "modbus_enable_quirks quirks_mask ctx w =
     (case ctx of None \<Rightarrow> (-1, None, set_errno EINVAL w)
      | Some c \<Rightarrow> (0, Some (c\<lparr>mb_quirks := mb_quirks c OR quirks_mask\<rparr>), w))"

definition modbus_disable_quirks :: "u32 \<Rightarrow> modbus option on_ctx" where
  "modbus_disable_quirks quirks_mask ctx w =
     (case ctx of None \<Rightarrow> (-1, None, set_errno EINVAL w)
      | Some c \<Rightarrow> (0, Some (c\<lparr>mb_quirks := mb_quirks c AND NOT quirks_mask\<rparr>), w))"

text \<open>The timeouts: an output pointer is the cell it points to.\<close>

definition get_timeout ::
    "(modbus \<Rightarrow> timeval) \<Rightarrow> u32 option \<Rightarrow> u32 option \<Rightarrow> modbus option \<Rightarrow> world \<Rightarrow>
     int \<times> u32 option \<times> u32 option \<times> world" where
  "get_timeout field to_sec to_usec ctx w =
     (case (ctx, to_sec, to_usec) of
        (Some c, Some _, Some _) \<Rightarrow>
          (0, Some (word_of_int (tv_sec (field c))), Some (word_of_int (tv_usec (field c))), w)
      | _ \<Rightarrow> (-1, to_sec, to_usec, set_errno EINVAL w))"

definition modbus_get_response_timeout where
  "modbus_get_response_timeout = get_timeout mb_response_timeout"

definition modbus_get_byte_timeout where
  "modbus_get_byte_timeout = get_timeout mb_byte_timeout"

definition modbus_get_indication_timeout where
  "modbus_get_indication_timeout = get_timeout mb_indication_timeout"

definition modbus_set_response_timeout :: "u32 \<Rightarrow> u32 \<Rightarrow> modbus option on_ctx" where
  "modbus_set_response_timeout to_sec to_usec ctx w =
     (case ctx of None \<Rightarrow> (-1, None, set_errno EINVAL w)
      | Some c \<Rightarrow>
          if to_sec = 0 \<and> to_usec = 0 \<or> to_usec > 999999 then (-1, Some c, set_errno EINVAL w)
          else (0, Some (c\<lparr>mb_response_timeout := \<lparr>tv_sec = uint to_sec, tv_usec = uint to_usec\<rparr>\<rparr>), w))"

definition modbus_set_byte_timeout :: "u32 \<Rightarrow> u32 \<Rightarrow> modbus option on_ctx" where
  "modbus_set_byte_timeout to_sec to_usec ctx w =
     (case ctx of None \<Rightarrow> (-1, None, set_errno EINVAL w)
      | Some c \<Rightarrow>
          if to_usec > 999999 then (-1, Some c, set_errno EINVAL w)
          else (0, Some (c\<lparr>mb_byte_timeout := \<lparr>tv_sec = uint to_sec, tv_usec = uint to_usec\<rparr>\<rparr>), w))"

definition modbus_set_indication_timeout :: "u32 \<Rightarrow> u32 \<Rightarrow> modbus option on_ctx" where
  "modbus_set_indication_timeout to_sec to_usec ctx w =
     (case ctx of None \<Rightarrow> (-1, None, set_errno EINVAL w)
      | Some c \<Rightarrow>
          if to_usec > 999999 then (-1, Some c, set_errno EINVAL w)
          else (0, Some (c\<lparr>mb_indication_timeout := \<lparr>tv_sec = uint to_sec, tv_usec = uint to_usec\<rparr>\<rparr>), w))"

text \<open>
  The configuration of a context that the API keeps: a response timeout that is never zero, the
  microseconds of the three timeouts below a second, and an error recovery that fits in a byte.
\<close>

definition wf_timeval :: "timeval \<Rightarrow> bool" where
  "wf_timeval tv \<longleftrightarrow> 0 \<le> tv_sec tv \<and> tv_sec tv < 2 ^ 32 \<and> 0 \<le> tv_usec tv \<and> tv_usec tv \<le> 999999"

definition wf_config :: "modbus \<Rightarrow> bool" where
  "wf_config c \<longleftrightarrow>
     wf_timeval (mb_response_timeout c) \<and> wf_timeval (mb_byte_timeout c) \<and>
     wf_timeval (mb_indication_timeout c) \<and>
     (tv_sec (mb_response_timeout c) \<noteq> 0 \<or> tv_usec (mb_response_timeout c) \<noteq> 0) \<and>
     mb_error_recovery c \<le> 255"

lemma wf_timeval_u32:
  "to_usec \<le> 999999 \<Longrightarrow> wf_timeval \<lparr>tv_sec = uint (to_sec :: u32), tv_usec = uint (to_usec :: u32)\<rparr>"
  using uint_lt2p [of to_sec] by (simp add: wf_timeval_def word_le_def)

lemma ucast_byte_le: "(ucast (b :: byte) :: u32) \<le> 255"
proof -
  have "uint b mod 4294967296 = uint b"
  proof (rule mod_pos_pos_trivial)
    show "uint b < 4294967296" using byte_bounds(2) [of b] by linarith
  qed simp
  then show ?thesis by (simp add: word_le_def unsigned_ucast_eq take_bit_eq_mod)
qed

lemma wf_config_init: "wf_config (modbus_init_common ctx)"
  by (simp add: wf_config_def wf_timeval_def modbus_init_common_def)

end
