(* ===== verification/Mb_Crc.thy ===== *)
theory Mb_Crc
  imports Mb_Prelude
begin

text \<open>
  The CRC of the RTU backend (modbus-rtu.c): the two lookup tables and the table-driven
  \<open>crc16\<close>, a bit-by-bit reference of the CRC-16 of the Modbus serial line (reflected polynomial
  0xA001, initial value 0xFFFF), their equivalence, and what the check detects.
\<close>

definition table_crc_hi :: "byte list" where
  "table_crc_hi = [
     0x00, 0xC1, 0x81, 0x40, 0x01, 0xC0, 0x80, 0x41, 0x01, 0xC0, 0x80, 0x41, 0x00, 0xC1, 0x81, 0x40,
     0x01, 0xC0, 0x80, 0x41, 0x00, 0xC1, 0x81, 0x40, 0x00, 0xC1, 0x81, 0x40, 0x01, 0xC0, 0x80, 0x41,
     0x01, 0xC0, 0x80, 0x41, 0x00, 0xC1, 0x81, 0x40, 0x00, 0xC1, 0x81, 0x40, 0x01, 0xC0, 0x80, 0x41,
     0x00, 0xC1, 0x81, 0x40, 0x01, 0xC0, 0x80, 0x41, 0x01, 0xC0, 0x80, 0x41, 0x00, 0xC1, 0x81, 0x40,
     0x01, 0xC0, 0x80, 0x41, 0x00, 0xC1, 0x81, 0x40, 0x00, 0xC1, 0x81, 0x40, 0x01, 0xC0, 0x80, 0x41,
     0x00, 0xC1, 0x81, 0x40, 0x01, 0xC0, 0x80, 0x41, 0x01, 0xC0, 0x80, 0x41, 0x00, 0xC1, 0x81, 0x40,
     0x00, 0xC1, 0x81, 0x40, 0x01, 0xC0, 0x80, 0x41, 0x01, 0xC0, 0x80, 0x41, 0x00, 0xC1, 0x81, 0x40,
     0x01, 0xC0, 0x80, 0x41, 0x00, 0xC1, 0x81, 0x40, 0x00, 0xC1, 0x81, 0x40, 0x01, 0xC0, 0x80, 0x41,
     0x01, 0xC0, 0x80, 0x41, 0x00, 0xC1, 0x81, 0x40, 0x00, 0xC1, 0x81, 0x40, 0x01, 0xC0, 0x80, 0x41,
     0x00, 0xC1, 0x81, 0x40, 0x01, 0xC0, 0x80, 0x41, 0x01, 0xC0, 0x80, 0x41, 0x00, 0xC1, 0x81, 0x40,
     0x00, 0xC1, 0x81, 0x40, 0x01, 0xC0, 0x80, 0x41, 0x01, 0xC0, 0x80, 0x41, 0x00, 0xC1, 0x81, 0x40,
     0x01, 0xC0, 0x80, 0x41, 0x00, 0xC1, 0x81, 0x40, 0x00, 0xC1, 0x81, 0x40, 0x01, 0xC0, 0x80, 0x41,
     0x00, 0xC1, 0x81, 0x40, 0x01, 0xC0, 0x80, 0x41, 0x01, 0xC0, 0x80, 0x41, 0x00, 0xC1, 0x81, 0x40,
     0x01, 0xC0, 0x80, 0x41, 0x00, 0xC1, 0x81, 0x40, 0x00, 0xC1, 0x81, 0x40, 0x01, 0xC0, 0x80, 0x41,
     0x01, 0xC0, 0x80, 0x41, 0x00, 0xC1, 0x81, 0x40, 0x00, 0xC1, 0x81, 0x40, 0x01, 0xC0, 0x80, 0x41,
     0x00, 0xC1, 0x81, 0x40, 0x01, 0xC0, 0x80, 0x41, 0x01, 0xC0, 0x80, 0x41, 0x00, 0xC1, 0x81, 0x40]"

definition table_crc_lo :: "byte list" where
  "table_crc_lo = [
     0x00, 0xC0, 0xC1, 0x01, 0xC3, 0x03, 0x02, 0xC2, 0xC6, 0x06, 0x07, 0xC7, 0x05, 0xC5, 0xC4, 0x04,
     0xCC, 0x0C, 0x0D, 0xCD, 0x0F, 0xCF, 0xCE, 0x0E, 0x0A, 0xCA, 0xCB, 0x0B, 0xC9, 0x09, 0x08, 0xC8,
     0xD8, 0x18, 0x19, 0xD9, 0x1B, 0xDB, 0xDA, 0x1A, 0x1E, 0xDE, 0xDF, 0x1F, 0xDD, 0x1D, 0x1C, 0xDC,
     0x14, 0xD4, 0xD5, 0x15, 0xD7, 0x17, 0x16, 0xD6, 0xD2, 0x12, 0x13, 0xD3, 0x11, 0xD1, 0xD0, 0x10,
     0xF0, 0x30, 0x31, 0xF1, 0x33, 0xF3, 0xF2, 0x32, 0x36, 0xF6, 0xF7, 0x37, 0xF5, 0x35, 0x34, 0xF4,
     0x3C, 0xFC, 0xFD, 0x3D, 0xFF, 0x3F, 0x3E, 0xFE, 0xFA, 0x3A, 0x3B, 0xFB, 0x39, 0xF9, 0xF8, 0x38,
     0x28, 0xE8, 0xE9, 0x29, 0xEB, 0x2B, 0x2A, 0xEA, 0xEE, 0x2E, 0x2F, 0xEF, 0x2D, 0xED, 0xEC, 0x2C,
     0xE4, 0x24, 0x25, 0xE5, 0x27, 0xE7, 0xE6, 0x26, 0x22, 0xE2, 0xE3, 0x23, 0xE1, 0x21, 0x20, 0xE0,
     0xA0, 0x60, 0x61, 0xA1, 0x63, 0xA3, 0xA2, 0x62, 0x66, 0xA6, 0xA7, 0x67, 0xA5, 0x65, 0x64, 0xA4,
     0x6C, 0xAC, 0xAD, 0x6D, 0xAF, 0x6F, 0x6E, 0xAE, 0xAA, 0x6A, 0x6B, 0xAB, 0x69, 0xA9, 0xA8, 0x68,
     0x78, 0xB8, 0xB9, 0x79, 0xBB, 0x7B, 0x7A, 0xBA, 0xBE, 0x7E, 0x7F, 0xBF, 0x7D, 0xBD, 0xBC, 0x7C,
     0xB4, 0x74, 0x75, 0xB5, 0x77, 0xB7, 0xB6, 0x76, 0x72, 0xB2, 0xB3, 0x73, 0xB1, 0x71, 0x70, 0xB0,
     0x50, 0x90, 0x91, 0x51, 0x93, 0x53, 0x52, 0x92, 0x96, 0x56, 0x57, 0x97, 0x55, 0x95, 0x94, 0x54,
     0x9C, 0x5C, 0x5D, 0x9D, 0x5F, 0x9F, 0x9E, 0x5E, 0x5A, 0x9A, 0x9B, 0x5B, 0x99, 0x59, 0x58, 0x98,
     0x88, 0x48, 0x49, 0x89, 0x4B, 0x8B, 0x8A, 0x4A, 0x4E, 0x8E, 0x8F, 0x4F, 0x8D, 0x4D, 0x4C, 0x8C,
     0x44, 0x84, 0x85, 0x45, 0x87, 0x47, 0x46, 0x86, 0x82, 0x42, 0x43, 0x83, 0x41, 0x81, 0x80, 0x40]"

text \<open>The loop of \<open>crc16\<close> over the bytes of the message, and its result \<open>crc_hi << 8 | crc_lo\<close>.\<close>

fun crc16_loop :: "byte list \<Rightarrow> byte \<Rightarrow> byte \<Rightarrow> u16" where
  "crc16_loop [] crc_hi crc_lo = push_bit 8 (ucast crc_hi) OR ucast crc_lo"
| "crc16_loop (b # buffer) crc_hi crc_lo =
     (let i = unat (crc_lo XOR b)
      in crc16_loop buffer (table_crc_lo ! i) (crc_hi XOR table_crc_hi ! i))"

definition crc16 :: "byte list \<Rightarrow> nat \<Rightarrow> u16 outcome" where
  "crc16 buffer buffer_length =
     (let n = buffer_length mod 65536
      in if n \<le> length buffer then Done (crc16_loop (take n buffer) 0xFF 0xFF) else Fault)"

section \<open>The bit-by-bit reference\<close>

definition crc_bit :: "u16 \<Rightarrow> u16" where
  "crc_bit c = (if bit c 0 then drop_bit 1 c XOR 0xA001 else drop_bit 1 c)"

definition crc_byte :: "u16 \<Rightarrow> byte \<Rightarrow> u16" where
  "crc_byte c b = (crc_bit ^^ 8) (c XOR ucast b)"

definition crc_ref :: "byte list \<Rightarrow> u16" where
  "crc_ref bs = foldl crc_byte 0xFFFF bs"

lemma crc_bit_xor: "crc_bit (x XOR y) = crc_bit x XOR crc_bit y"
  by (rule bit_eqI) (auto simp: crc_bit_def bit_simps)

lemma crc_bit_pow_xor: "(crc_bit ^^ n) (x XOR y) = (crc_bit ^^ n) x XOR (crc_bit ^^ n) y"
  by (induction n) (simp_all add: crc_bit_xor)

lemma bit_crc_bit_15: "bit (crc_bit c) 15 \<longleftrightarrow> bit c 0"
proof -
  have "\<not> bit c 16" using bit_imp_le_length [of c 16] by auto
  then have "\<not> bit (drop_bit 1 c) 15" by (simp add: bit_simps)
  moreover have "bit (0xA001 :: u16) 15" by simp
  ultimately show ?thesis by (simp add: crc_bit_def bit_xor_iff)
qed

lemma xor_cancel_right: "(x :: u16) XOR c = y XOR c \<longleftrightarrow> x = y"
  by (auto simp: bit_eq_iff bit_xor_iff)

lemma crc_bit_inj: "crc_bit x = crc_bit y \<Longrightarrow> x = y"
proof -
  assume eq: "crc_bit x = crc_bit y"
  then have b0: "bit x 0 \<longleftrightarrow> bit y 0" using bit_crc_bit_15 by metis
  with eq have d: "drop_bit 1 x = drop_bit 1 y"
    by (auto simp: crc_bit_def xor_cancel_right split: if_splits)
  show "x = y"
  proof (rule bit_eqI)
    fix n
    show "bit x n \<longleftrightarrow> bit y n"
      using b0 arg_cong [OF d, of "\<lambda>w. bit w (n - 1)"] by (cases n) (simp_all add: bit_simps)
  qed
qed

lemma crc_bit_pow_inj: "(crc_bit ^^ n) x = (crc_bit ^^ n) y \<Longrightarrow> x = y"
  by (induction n) (auto dest: crc_bit_inj)

lemma crc_bit_pow_shift:
  "n \<le> k \<Longrightarrow> (crc_bit ^^ n) (push_bit k c) = drop_bit n (push_bit k c)"
proof (induction n)
  case 0
  then show ?case by simp
next
  case (Suc n)
  have "\<not> bit (drop_bit n (push_bit k c)) 0"
    using Suc.prems by (simp add: bit_simps)
  with Suc show ?case
    by (simp add: crc_bit_def [of "drop_bit n (push_bit k c)"])
qed

text \<open>The tables hold the eight bit steps of every byte.\<close>

fun crc_rows :: "u16 \<Rightarrow> byte list \<Rightarrow> byte list \<Rightarrow> bool" where
  "crc_rows i (lo # los) (hi # his) \<longleftrightarrow>
     crc_bit (crc_bit (crc_bit (crc_bit (crc_bit (crc_bit (crc_bit (crc_bit i))))))) =
       push_bit 8 (ucast lo) OR ucast hi \<and> crc_rows (i + 1) los his"
| "crc_rows i los his \<longleftrightarrow> los = [] \<and> his = []"

lemma crc_rows_nth:
  "crc_rows i los his \<Longrightarrow> k < length los \<Longrightarrow>
   (crc_bit ^^ 8) (i + of_nat k) = push_bit 8 (ucast (los ! k)) OR ucast (his ! k)"
proof (induction i los his arbitrary: k rule: crc_rows.induct)
  case (1 i lo los hi his)
  show ?case
  proof (cases k)
    case 0
    with "1.prems" show ?thesis by (simp add: numeral_eq_Suc)
  next
    case (Suc j)
    with "1.prems" have "(crc_bit ^^ 8) ((i + 1) + of_nat j) = push_bit 8 (ucast (los ! j)) OR ucast (his ! j)"
      by (intro "1.IH") simp_all
    with Suc show ?thesis by (simp add: ac_simps)
  qed
qed simp_all

lemma crc_table_rows: "crc_rows 0 table_crc_lo table_crc_hi"
  unfolding table_crc_lo_def table_crc_hi_def by (simp add: crc_bit_def)

lemma length_crc_tables: "length table_crc_lo = 256" "length table_crc_hi = 256"
  by (simp_all add: table_crc_lo_def table_crc_hi_def)

lemma crc_table_entry:
  "(crc_bit ^^ 8) (ucast (b :: byte)) =
   push_bit 8 (ucast (table_crc_lo ! unat b)) OR ucast (table_crc_hi ! unat b)"
proof -
  have "unat b < 256" using unsigned_less [of b, where 'a = nat] by simp
  moreover have "0 + of_nat (unat b) = (ucast b :: u16)" by (simp add: word_uint_eq_iff uint_ucast_byte unsigned_of_nat take_bit_eq_mod)
  ultimately show ?thesis
    using crc_rows_nth [OF crc_table_rows, of "unat b"] length_crc_tables by simp
qed

section \<open>Equivalence with the reference\<close>

lemma byte_pair_xor:
  "(push_bit 8 (ucast (hi :: byte)) OR ucast (lo :: byte)) XOR ucast b =
   (push_bit 8 (ucast hi) XOR ucast (lo XOR b) :: u16)"
  by (rule bit_eqI) (auto simp: bit_simps dest: bit_imp_le_length)

lemma byte_pair_step:
  "drop_bit 8 (push_bit 8 (ucast (hi :: byte))) XOR (push_bit 8 (ucast (vl :: byte)) OR ucast (vh :: byte)) =
   (push_bit 8 (ucast vl) OR ucast (hi XOR vh) :: u16)"
  by (rule bit_eqI) (auto simp: bit_simps dest: bit_imp_le_length)

lemma crc_byte_table:
  "crc_byte (push_bit 8 (ucast hi) OR ucast lo) b =
   push_bit 8 (ucast (table_crc_lo ! unat (lo XOR b))) OR ucast (hi XOR table_crc_hi ! unat (lo XOR b))"
  by (simp only: crc_byte_def byte_pair_xor crc_bit_pow_xor crc_table_entry byte_pair_step
      crc_bit_pow_shift [OF order_refl])

lemma crc16_loop_eq_foldl:
  "crc16_loop bs hi lo = foldl crc_byte (push_bit 8 (ucast hi) OR ucast lo) bs"
  by (induction bs arbitrary: hi lo) (simp_all add: crc_byte_table Let_def)

lemma crc16_eq_ref: "n \<le> length buf \<Longrightarrow> n < 65536 \<Longrightarrow> crc16 buf n = Done (crc_ref (take n buf))"
  by (simp add: crc16_def crc16_loop_eq_foldl crc_ref_def)

lemma crc16_not_Pending [simp]: "crc16 buf n \<noteq> Pending"
  by (simp add: crc16_def Let_def)

section \<open>What the check detects\<close>

lemma crc_byte_inj_state: "crc_byte c b = crc_byte c' b \<Longrightarrow> c = c'"
  by (auto simp: crc_byte_def xor_cancel_right dest: crc_bit_pow_inj)

lemma ucast_byte_inj: "(ucast (b :: byte) :: u16) = ucast b' \<Longrightarrow> b = b'"
  by (simp add: word_uint_eq_iff uint_ucast_byte)

lemma crc_byte_inj_byte: "crc_byte c b = crc_byte c b' \<Longrightarrow> b = b'"
  by (auto simp: crc_byte_def xor.commute [of c] xor_cancel_right dest!: crc_bit_pow_inj ucast_byte_inj)

lemma foldl_crc_byte_inj: "foldl crc_byte c bs = foldl crc_byte c' bs \<Longrightarrow> c = c'"
  by (induction bs arbitrary: c c') (auto dest: crc_byte_inj_state)

lemma crc_ref_single_byte:
  assumes "i < length bs" and "b \<noteq> bs ! i"
  shows "crc_ref (bs[i := b]) \<noteq> crc_ref bs"
proof
  assume "crc_ref (bs[i := b]) = crc_ref bs"
  then have "foldl crc_byte 0xFFFF (take i bs @ b # drop (Suc i) bs) =
             foldl crc_byte 0xFFFF (take i bs @ bs ! i # drop (Suc i) bs)"
    using assms(1) by (simp add: crc_ref_def upd_conv_take_nth_drop id_take_nth_drop [symmetric])
  then have "crc_byte (foldl crc_byte 0xFFFF (take i bs)) b = crc_byte (foldl crc_byte 0xFFFF (take i bs)) (bs ! i)"
    by (auto dest: foldl_crc_byte_inj)
  then show False using assms(2) by (auto dest: crc_byte_inj_byte)
qed

lemma crc_byte_low: "crc_byte c (lo8 c) = ucast (hi8 c)"
proof -
  have "c XOR ucast (lo8 c) = push_bit 8 (ucast (hi8 c))"
    by (rule bit_eqI) (auto simp: bit_lo8 bit_hi8 bit_simps dest: bit_imp_le_length)
  moreover have "drop_bit 8 (push_bit 8 (ucast (hi8 c))) = (ucast (hi8 c) :: u16)"
    by (rule bit_eqI) (auto simp: bit_simps dest: bit_imp_le_length)
  ultimately show ?thesis by (simp add: crc_byte_def crc_bit_pow_shift)
qed

lemma crc_bit_zero: "(crc_bit ^^ n) 0 = 0"
  by (induction n) (simp_all add: crc_bit_def)

lemma crc_ref_residue: "crc_ref (bs @ [lo8 (crc_ref bs), hi8 (crc_ref bs)]) = 0"
  by (simp add: crc_ref_def crc_byte_low crc_byte_def [of "ucast _"] crc_bit_zero)

end
