(* ===== verification/Mb_Rtu.thy ===== *)
theory Mb_Rtu
  imports Mb_Context Mb_Crc
begin

text \<open>
  The RTU backend of modbus-rtu.c: the frame of a request and of a response, the CRC that closes
  it, the checks of a received frame, and the transmission with the RTS line of an RS-485 driver.
  The functions that return a length take a buffer and return it updated.
\<close>

definition RTU_HEADER_LENGTH :: nat where [simp]: "RTU_HEADER_LENGTH = 1"
definition RTU_PRESET_REQ_LENGTH :: nat where [simp]: "RTU_PRESET_REQ_LENGTH = 6"
definition RTU_PRESET_RSP_LENGTH :: nat where [simp]: "RTU_PRESET_RSP_LENGTH = 2"
definition RTU_CHECKSUM_LENGTH :: nat where [simp]: "RTU_CHECKSUM_LENGTH = 2"
definition MODBUS_RTU_MAX_ADU_LENGTH :: nat where [simp]: "MODBUS_RTU_MAX_ADU_LENGTH = 256"

definition max_slave :: "modbus \<Rightarrow> int" where
  "max_slave ctx = (if mb_quirks ctx AND MODBUS_QUIRK_MAX_SLAVE \<noteq> 0 then 255 else 247)"

definition modbus_rtu_set_slave :: "modbus \<Rightarrow> int \<Rightarrow> world \<Rightarrow> int \<times> modbus \<times> world" where
  "modbus_rtu_set_slave ctx slave w =
     (if slave \<ge> 0 \<and> slave \<le> max_slave ctx then (0, ctx\<lparr>mb_slave := slave\<rparr>, w)
      else (-1, ctx, set_errno EINVAL w))"

definition modbus_rtu_build_request_basis ::
    "modbus \<Rightarrow> int \<Rightarrow> int \<Rightarrow> int \<Rightarrow> byte list \<Rightarrow> (nat \<times> byte list) outcome" where
  "modbus_rtu_build_request_basis ctx function addr nb req =
     (if mb_slave ctx = -1 then Fault
      else obind (push_all req 0
             [word_of_int (mb_slave ctx), word_of_int function,
              int_hi8 addr, int_lo8 addr, int_hi8 nb, int_lo8 nb])
           (\<lambda>(_, req). Done (RTU_PRESET_REQ_LENGTH, req)))"

definition modbus_rtu_build_response_basis :: "sft \<Rightarrow> byte list \<Rightarrow> (nat \<times> byte list) outcome" where
  "modbus_rtu_build_response_basis sft rsp =
     obind (push_all rsp 0 [word_of_int (sft_slave sft), word_of_int (sft_function sft)])
       (\<lambda>(_, rsp). Done (RTU_PRESET_RSP_LENGTH, rsp))"

definition modbus_rtu_get_response_tid :: "byte list \<Rightarrow> int outcome" where
  "modbus_rtu_get_response_tid req = Done 0"

definition modbus_rtu_send_msg_pre :: "byte list \<Rightarrow> nat \<Rightarrow> (nat \<times> byte list) outcome" where
  "modbus_rtu_send_msg_pre req req_length =
     obind (crc16 req req_length) (\<lambda>crc.
     obind (wr req req_length (lo8 crc)) (\<lambda>req.
     obind (wr req (req_length + 1) (hi8 crc)) (\<lambda>req.
       Done (req_length + 2, req))))"

definition modbus_rtu_pre_check_confirmation :: "byte list \<Rightarrow> byte list \<Rightarrow> world \<Rightarrow> (int \<times> world) outcome" where
  "modbus_rtu_pre_check_confirmation req rsp w =
     obind (rd req 0) (\<lambda>q. obind (rd rsp 0) (\<lambda>r.
       if q \<noteq> r \<and> uint q \<noteq> MODBUS_BROADCAST_ADDRESS then Done (fail_errno EMBBADSLAVE w)
       else Done (0, w)))"

definition modbus_rtu_flush :: "modbus \<Rightarrow> world \<Rightarrow> int \<times> world" where
  "modbus_rtu_flush ctx w = sys_tcflush (mb_s ctx) w"

definition modbus_rtu_check_integrity :: "modbus \<Rightarrow> byte list \<Rightarrow> nat \<Rightarrow> world \<Rightarrow> (int \<times> world) outcome" where
  "modbus_rtu_check_integrity ctx msg msg_length w =
     obind (rd msg 0) (\<lambda>m0.
     obind (crc16 msg (nat ((int msg_length - 2) mod 2 ^ 16))) (\<lambda>crc_calculated.
     obind (rdi msg (int msg_length - 1)) (\<lambda>hi.
     obind (rdi msg (int msg_length - 2)) (\<lambda>lo.
       let crc_received = (word_of_int (push_bit 8 (uint hi) OR uint lo) :: u16); slave = uint m0 in
       if crc_calculated \<noteq> crc_received then
         (let w = (if protocol_recovery ctx then snd (modbus_rtu_flush ctx w) else w)
          in Done (fail_errno EMBBADCRC w))
       else if slave \<noteq> mb_slave ctx \<and> slave \<noteq> MODBUS_BROADCAST_ADDRESS then Done (0, w)
       else Done (int msg_length, w)))))"

section \<open>Transmission\<close>

text \<open>
  The RTS line: \<open>w_rts\<close> lists the states the driver was put in, or asked of the user's callback.
\<close>

definition modbus_rtu_ioctl_rts :: "bool \<Rightarrow> world \<Rightarrow> world outcome" where
  "modbus_rtu_ioctl_rts on w =
     obind (sys_call w) (\<lambda>(r, w).
       if r = -1 then Done w
       else obind (sys_call w) (\<lambda>(r, w).
         if r = -1 then Done w else Done (w\<lparr>w_rts := w_rts w @ [on]\<rparr>)))"

definition call_set_rts :: "modbus_rtu \<Rightarrow> bool \<Rightarrow> world \<Rightarrow> world outcome" where
  "call_set_rts ctx_rtu on w =
     (case rtu_set_rts ctx_rtu of
        Rtu_ioctl_rts \<Rightarrow> modbus_rtu_ioctl_rts on w
      | Custom_rts k \<Rightarrow> Done (w\<lparr>w_rts := w_rts w @ [on]\<rparr>))"

function usleep_chunks :: "nat \<Rightarrow> world \<Rightarrow> world" where
  "usleep_chunks total_delay w =
     (if total_delay > 0
      then let delay = (if total_delay > 999999 then 999999 else total_delay)
           in usleep_chunks (total_delay - delay) (sys_usleep delay w)
      else w)"
  by pat_completeness auto
termination by (relation "measure fst") auto

declare usleep_chunks.simps [simp del]

definition post_send_delay :: "modbus_rtu \<Rightarrow> int \<Rightarrow> nat" where
  "post_send_delay ctx_rtu req_length =
     (let total_delay = nat ((rtu_onebyte_time ctx_rtu * req_length + rtu_rts_delay ctx_rtu) mod 2 ^ 64)
      in if total_delay > 1000000000 then 1000000000 else total_delay)"

definition modbus_rtu_send :: "modbus \<Rightarrow> modbus_rtu \<Rightarrow> byte list \<Rightarrow> world \<Rightarrow> (int \<times> world) outcome" where
  "modbus_rtu_send ctx ctx_rtu req w =
     (if rtu_rts ctx_rtu \<noteq> MODBUS_RTU_RTS_NONE then
        obind (call_set_rts ctx_rtu (rtu_rts ctx_rtu = MODBUS_RTU_RTS_UP) w) (\<lambda>w.
        let w = sys_usleep (nat (rtu_rts_delay ctx_rtu mod 2 ^ 32)) w in
        obind (sys_send (mb_s ctx) req w) (\<lambda>(size, w).
        let w = usleep_chunks (post_send_delay ctx_rtu (int (length req))) w in
        obind (call_set_rts ctx_rtu (rtu_rts ctx_rtu \<noteq> MODBUS_RTU_RTS_UP) w) (\<lambda>w.
          Done (size, w))))
      else sys_send (mb_s ctx) req w)"

definition modbus_rtu_recv :: "modbus \<Rightarrow> nat \<Rightarrow> world \<Rightarrow> int \<times> byte list \<times> world" where
  [simp]: "modbus_rtu_recv ctx rsp_length w = sys_recv (mb_s ctx) rsp_length w"

definition modbus_rtu_is_connected :: "modbus \<Rightarrow> bool" where
  [simp]: "modbus_rtu_is_connected ctx \<longleftrightarrow> mb_s ctx \<ge> 0"

section \<open>Lemmas\<close>

text \<open>
  The sleeps of the transmission: each below a second, as \<open>usleep\<close> requires, and together the
  whole delay.
\<close>

lemma usleep_chunks_spec:
  "\<exists>ds. usleep_chunks t w = w\<lparr>w_usleep := w_usleep w @ ds\<rparr> \<and> sum_list ds = t \<and> (\<forall>d \<in> set ds. 0 < d \<and> d < 1000000)"
proof (induction t w rule: usleep_chunks.induct)
  case (1 t w)
  show ?case
  proof (cases "t > 0")
    case False
    then show ?thesis by (intro exI [of _ "[]"]) (simp add: usleep_chunks.simps [of 0 w])
  next
    case True
    define d where "d = (if t > 999999 then 999999 else t)"
    from True 1 d_def obtain ds where ds: "usleep_chunks (t - d) (sys_usleep d w) =
        (sys_usleep d w)\<lparr>w_usleep := w_usleep (sys_usleep d w) @ ds\<rparr>"
      "sum_list ds = t - d" "\<forall>d \<in> set ds. 0 < d \<and> d < 1000000" by blast
    have d: "0 < d" "d < 1000000" "d \<le> t" using True by (simp_all add: d_def)
    have "usleep_chunks t w = usleep_chunks (t - d) (sys_usleep d w)"
      using True by (simp add: usleep_chunks.simps [of t w] d_def Let_def)
    with ds d show ?thesis
      by (intro exI [of _ "d # ds"]) (simp add: sys_usleep_def)
  qed
qed

lemma usleep_chunks_frame [simp]:
  "w_tx (usleep_chunks t w) = w_tx w" "w_sent (usleep_chunks t w) = w_sent w"
  "w_fds (usleep_chunks t w) = w_fds w" "w_rx (usleep_chunks t w) = w_rx w"
  "w_rts (usleep_chunks t w) = w_rts w"
  using usleep_chunks_spec [of t w] by auto

lemma rts_frame:
  "modbus_rtu_ioctl_rts on w = Done w' \<Longrightarrow>
   w_tx w' = w_tx w \<and> w_sent w' = w_sent w \<and> w_fds w' = w_fds w \<and> w_rx w' = w_rx w"
  unfolding modbus_rtu_ioctl_rts_def
  by (erule obind_DoneE, clarsimp split: if_splits)
     (auto elim!: obind_DoneE split: if_splits dest!: sys_call_frame)

lemma call_set_rts_frame:
  "call_set_rts r on w = Done w' \<Longrightarrow>
   w_tx w' = w_tx w \<and> w_sent w' = w_sent w \<and> w_fds w' = w_fds w \<and> w_rx w' = w_rx w"
  by (auto simp: call_set_rts_def split: set_rts_fn.splits dest!: rts_frame)

lemma call_set_rts_not_Fault [simp]: "call_set_rts r on w \<noteq> Fault"
  by (auto simp: call_set_rts_def modbus_rtu_ioctl_rts_def outcome_iff split: set_rts_fn.splits if_splits)

lemma rtu_send_not_Fault [simp]: "modbus_rtu_send ctx r req w \<noteq> Fault"
  by (auto simp: modbus_rtu_send_def Let_def outcome_iff)

lemma rtu_send_result:
  assumes "modbus_rtu_send ctx r req w = Done (rc, w')"
  shows "(rc = -1 \<and> w_sent w' = w_sent w \<or>
          (\<exists>n. rc = int (length (take n req)) \<and> w_sent w' = w_sent w @ [take n req])) \<and>
         length (w_tx w') < length (w_tx w) \<and> w_fds w' = w_fds w \<and> w_rx w' = w_rx w"
proof -
  have send: "(rc = -1 \<and> w_sent w2 = w_sent w1 \<or>
          (\<exists>n. rc = int (length (take n req)) \<and> w_sent w2 = w_sent w1 @ [take n req])) \<and>
         length (w_tx w2) < length (w_tx w1) \<and> w_fds w2 = w_fds w1 \<and> w_rx w2 = w_rx w1"
    if "sys_send (mb_s ctx) req w1 = Done (rc, w2)" for w1 w2
    using that sys_send_result [OF that]
    by (auto simp: sys_send_def Let_def split: list.splits tx_event.splits if_splits)
  show ?thesis
  proof (cases "rtu_rts r = MODBUS_RTU_RTS_NONE")
    case True
    with assms have "sys_send (mb_s ctx) req w = Done (rc, w')" by (simp add: modbus_rtu_send_def)
    then show ?thesis by (rule send)
  next
    case False
    with assms obtain w1 w2 where
        1: "call_set_rts r (rtu_rts r = MODBUS_RTU_RTS_UP) w = Done w1" and
        2: "sys_send (mb_s ctx) req (sys_usleep (nat (rtu_rts_delay r mod 2 ^ 32)) w1) = Done (rc, w2)" and
        3: "call_set_rts r (rtu_rts r \<noteq> MODBUS_RTU_RTS_UP)
              (usleep_chunks (post_send_delay r (int (length req))) w2) = Done w'"
      by (auto simp: modbus_rtu_send_def Let_def outcome_iff)
    from send [OF 2] call_set_rts_frame [OF 1] call_set_rts_frame [OF 3] show ?thesis by simp
  qed
qed

text \<open>
  What a switch of the driver does: the line is put in the state asked for, unless a call of the
  library's own driver fails. \<open>driver_works\<close> says that the calls of two switches succeed.
\<close>

definition driver_works :: "modbus_rtu \<Rightarrow> world \<Rightarrow> bool" where
  "driver_works r w \<longleftrightarrow> (rtu_set_rts r = Rtu_ioctl_rts \<longrightarrow> (\<forall>c \<in> set (take 4 (w_calls w)). fst c \<noteq> -1))"

lemma call_set_rts_effect:
  assumes "call_set_rts r on w = Done w'"
  obtains xs k where "w_rts w' = w_rts w @ xs" and "xs = [] \<or> xs = [on]" and "w_usleep w' = w_usleep w"
    and "k \<le> 2" and "w_calls w' = drop k (w_calls w)"
    and "rtu_set_rts r = Rtu_ioctl_rts \<longrightarrow> (\<forall>c \<in> set (take 2 (w_calls w)). fst c \<noteq> -1) \<Longrightarrow> xs = [on]"
proof (cases "rtu_set_rts r")
  case Rtu_ioctl_rts
  show thesis
  proof (cases "w_calls w")
    case Nil
    with assms Rtu_ioctl_rts show thesis by (simp add: call_set_rts_def modbus_rtu_ioctl_rts_def sys_call_def)
  next
    case (Cons c1 cs)
    obtain r1 e1 where c1: "c1 = (r1, e1)" by (cases c1)
    show thesis
    proof (cases "r1 = -1")
      case True
      with assms Rtu_ioctl_rts Cons c1 that [of "[]" 1] show thesis
        by (auto simp: call_set_rts_def modbus_rtu_ioctl_rts_def sys_call_def)
    next
      case False
      with assms Rtu_ioctl_rts Cons c1 obtain r2 e2 cs2 where cs: "cs = (r2, e2) # cs2"
        by (auto simp: call_set_rts_def modbus_rtu_ioctl_rts_def sys_call_def split: list.splits)
      with False assms Rtu_ioctl_rts Cons c1 that [of "if r2 = -1 then [] else [on]" 2] show thesis
        by (auto simp: call_set_rts_def modbus_rtu_ioctl_rts_def sys_call_def split: if_splits)
    qed
  qed
next
  case (Custom_rts k)
  with assms that [of "[on]" 0] show thesis by (auto simp: call_set_rts_def)
qed

text \<open>The frame: what the two steps of the construction leave in the buffer.\<close>

definition rtu_frame :: "sft \<Rightarrow> byte list \<Rightarrow> byte list" where
  "rtu_frame sft body =
     (let m = word_of_int (sft_slave sft) # word_of_int (sft_function sft) # body; crc = crc_ref m
      in m @ [lo8 crc, hi8 crc])"

lemma rtu_send_msg_pre_value:
  assumes "n + 2 \<le> length req" and "n < 65536"
  shows "modbus_rtu_send_msg_pre req n =
    Done (n + 2, take n req @ [lo8 (crc_ref (take n req)), hi8 (crc_ref (take n req))] @ drop (n + 2) req)"
proof -
  have "(req[n := a])[Suc n := b] = take n req @ [a, b] @ drop (n + 2) req" for a b
    using push_all_fits [of n "[a, b]" req] assms by simp
  with assms show ?thesis
    by (simp add: modbus_rtu_send_msg_pre_def crc16_eq_ref)
qed

end
