(* ===== verification/Mb_Tcp.thy ===== *)
theory Mb_Tcp
  imports Mb_Context
begin

text \<open>
  The TCP backend of modbus-tcp.c, which also serves the protocol-independent variant: the MBAP
  header of a request and of a response with its transaction identifier and length, the checks of
  a confirmation, the flush of the socket, and the loop around \<open>select\<close> that both backends share.
\<close>

definition TCP_HEADER_LENGTH :: nat where [simp]: "TCP_HEADER_LENGTH = 7"
definition TCP_PRESET_REQ_LENGTH :: nat where [simp]: "TCP_PRESET_REQ_LENGTH = 12"
definition TCP_PRESET_RSP_LENGTH :: nat where [simp]: "TCP_PRESET_RSP_LENGTH = 8"
definition TCP_CHECKSUM_LENGTH :: nat where [simp]: "TCP_CHECKSUM_LENGTH = 0"
definition MODBUS_TCP_MAX_ADU_LENGTH :: nat where [simp]: "MODBUS_TCP_MAX_ADU_LENGTH = 260"

definition modbus_tcp_set_slave :: "modbus \<Rightarrow> int \<Rightarrow> world \<Rightarrow> int \<times> modbus \<times> world" where
  "modbus_tcp_set_slave ctx slave w =
     (let max_slave = (if mb_quirks ctx AND MODBUS_QUIRK_MAX_SLAVE \<noteq> 0 then 255 else 247) in
      if slave \<ge> 0 \<and> slave \<le> max_slave then (0, ctx\<lparr>mb_slave := slave\<rparr>, w)
      else if slave = MODBUS_TCP_SLAVE then (0, ctx\<lparr>mb_slave := slave\<rparr>, w)
      else (-1, ctx, set_errno EINVAL w))"

text \<open>The next transaction identifier, from the one of the last request.\<close>

definition next_t_id :: "u16 \<Rightarrow> u16" where
  "next_t_id t_id = (if t_id < 0xFFFF then t_id + 1 else 0)"

text \<open>
  The two first fields of \<open>modbus_tcp_t\<close> and \<open>modbus_tcp_pi_t\<close> are the same, and the code
  reads either through \<open>modbus_tcp_t\<close>.
\<close>

definition backend_t_id :: "backend_data \<Rightarrow> u16" where
  "backend_t_id d = (case d of Tcp t \<Rightarrow> tcp_t_id t | TcpPi t \<Rightarrow> pi_t_id t | Rtu r \<Rightarrow> 0)"

definition set_backend_t_id :: "u16 \<Rightarrow> backend_data \<Rightarrow> backend_data" where
  "set_backend_t_id i d =
     (case d of Tcp t \<Rightarrow> Tcp (t\<lparr>tcp_t_id := i\<rparr>) | TcpPi t \<Rightarrow> TcpPi (t\<lparr>pi_t_id := i\<rparr>) | Rtu r \<Rightarrow> Rtu r)"

definition modbus_tcp_build_request_basis ::
    "modbus \<Rightarrow> int \<Rightarrow> int \<Rightarrow> int \<Rightarrow> byte list \<Rightarrow> (nat \<times> modbus \<times> byte list) outcome" where
  "modbus_tcp_build_request_basis ctx function addr nb req =
     (let t_id = next_t_id (backend_t_id (mb_backend ctx));
          ctx = ctx\<lparr>mb_backend := set_backend_t_id t_id (mb_backend ctx)\<rparr> in
      obind (push_all req 0 [hi8 t_id, lo8 t_id, 0, 0]) (\<lambda>(_, req).
      obind (push_all req 6
               [word_of_int (mb_slave ctx), word_of_int function,
                int_hi8 addr, int_lo8 addr, int_hi8 nb, int_lo8 nb]) (\<lambda>(_, req).
        Done (TCP_PRESET_REQ_LENGTH, ctx, req))))"

definition modbus_tcp_build_response_basis :: "sft \<Rightarrow> byte list \<Rightarrow> (nat \<times> byte list) outcome" where
  "modbus_tcp_build_response_basis sft rsp =
     obind (push_all rsp 0 [int_hi8 (sft_t_id sft), int_lo8 (sft_t_id sft), 0, 0]) (\<lambda>(_, rsp).
     obind (push_all rsp 6 [word_of_int (sft_slave sft), word_of_int (sft_function sft)]) (\<lambda>(_, rsp).
       Done (TCP_PRESET_RSP_LENGTH, rsp)))"

definition modbus_tcp_get_response_tid :: "byte list \<Rightarrow> int outcome" where
  "modbus_tcp_get_response_tid req = obind (rd req 0) (\<lambda>h. obind (rd req 1) (\<lambda>l. Done (be16 h l)))"

definition modbus_tcp_send_msg_pre :: "byte list \<Rightarrow> nat \<Rightarrow> (nat \<times> byte list) outcome" where
  "modbus_tcp_send_msg_pre req req_length =
     (let mbap_length = int req_length - 6 in
      obind (wr req 4 (int_hi8 mbap_length)) (\<lambda>req.
      obind (wr req 5 (int_lo8 mbap_length)) (\<lambda>req. Done (req_length, req))))"

definition modbus_tcp_check_integrity :: "modbus \<Rightarrow> byte list \<Rightarrow> nat \<Rightarrow> world \<Rightarrow> (int \<times> world) outcome" where
  "modbus_tcp_check_integrity ctx msg msg_length w = Done (int msg_length, w)"

definition modbus_tcp_pre_check_confirmation :: "byte list \<Rightarrow> byte list \<Rightarrow> world \<Rightarrow> (int \<times> world) outcome" where
  "modbus_tcp_pre_check_confirmation req rsp w =
     obind (rd req 0) (\<lambda>q0. obind (rd rsp 0) (\<lambda>r0. obind (rd req 1) (\<lambda>q1. obind (rd rsp 1) (\<lambda>r1.
       if q0 \<noteq> r0 \<or> q1 \<noteq> r1 then Done (fail_errno EMBBADDATA w)
       else obind (rd rsp 2) (\<lambda>r2. obind (rd rsp 3) (\<lambda>r3.
         let protocol_id = be16 r2 r3 in
         if protocol_id \<noteq> 0 then Done (fail_errno EMBBADDATA w) else Done (0, w)))))))"

section \<open>Flush\<close>

fun rx_bytes :: "rx_event list \<Rightarrow> nat" where
  "rx_bytes [] = 0"
| "rx_bytes (Rx_data bs # es) = length bs + rx_bytes es"
| "rx_bytes (_ # es) = rx_bytes es"

lemma recv_read_rx_bytes:
  "recv_read n es = (rc, bs, e, es') \<Longrightarrow> rx_bytes es = length bs + rx_bytes es'"
  by (induction n es rule: recv_read.induct) (auto split: if_splits)

lemma sys_recv_rx_bytes:
  "sys_recv fd n w = (rc, bs, w') \<Longrightarrow> rx_bytes (w_rx w) = length bs + rx_bytes (w_rx w')"
  by (auto simp: sys_recv_def split: if_splits prod.splits dest: recv_read_rx_bytes)

lemma sys_recv_takes:
  "sys_recv fd n w = (rc, bs, w') \<Longrightarrow>
   rx_bytes (w_rx w) = length bs + rx_bytes (w_rx w') \<and> (rc = -1 \<and> bs = [] \<or> rc = int (length bs)) \<and> length bs \<le> n"
  by (rule conjI, rule sys_recv_rx_bytes, assumption, rule sys_recv_count)

text \<open>
  The loop of the flush with its sum in 16 bits. It ends because every full read takes 260 bytes of
  what has arrived.
\<close>

function tcp_flush_loop :: "int \<Rightarrow> u16 \<Rightarrow> world \<Rightarrow> int \<times> world" where
  "tcp_flush_loop s rc_sum w =
     (case sys_recv s MODBUS_TCP_MAX_ADU_LENGTH w of (rc, devnull, w') \<Rightarrow>
        if rc > 0 \<and> \<not> uint rc_sum \<le> 65535 - rc then fail_errno EOVERFLOW w'
        else
          let rc_sum = (if rc > 0 then word_of_int (uint rc_sum + rc) else rc_sum) in
          if rc = int MODBUS_TCP_MAX_ADU_LENGTH then tcp_flush_loop s rc_sum w' else (uint rc_sum, w'))"
  by pat_completeness auto
termination
proof (relation "measure (\<lambda>(s, r, w). rx_bytes (w_rx w))", goal_cases)
  case 1
  then show ?case by simp
next
  case (2 s rc_sum w x y z)
  then show ?case by (auto dest!: sys_recv_takes [OF sym])
qed

declare tcp_flush_loop.simps [simp del]

definition modbus_tcp_flush :: "modbus \<Rightarrow> world \<Rightarrow> int \<times> world" where
  "modbus_tcp_flush ctx w = tcp_flush_loop (mb_s ctx) 0 w"

lemma tcp_flush_loop_frame:
  "tcp_flush_loop s r w = (rc, w') \<Longrightarrow>
   -1 \<le> rc \<and> rc < 65536 \<and> w_tx w' = w_tx w \<and> w_calls w' = w_calls w \<and> w_sent w' = w_sent w \<and> w_fds w' = w_fds w"
proof (induction s r w rule: tcp_flush_loop.induct)
  case (1 s r w)
  obtain n bs w1 where recv: "sys_recv s MODBUS_TCP_MAX_ADU_LENGTH w = (n, bs, w1)"
    by (cases "sys_recv s MODBUS_TCP_MAX_ADU_LENGTH w") auto
  from sys_recv_frame [OF recv] have frame: "w_tx w1 = w_tx w" "w_calls w1 = w_calls w"
    "w_sent w1 = w_sent w" "w_fds w1 = w_fds w" by simp_all
  have lt: "-1 \<le> uint x" for x :: u16 using uint_ge_0 [of x] by linarith
  show ?case
    using 1 recv frame lt
    by (auto simp: tcp_flush_loop.simps [of s r w] Let_def split: if_splits)
qed

text \<open>The result is what was discarded, unless the counter would have overflowed.\<close>

lemma tcp_flush_loop_counts:
  "tcp_flush_loop s r w = (rc, w') \<Longrightarrow>
   rc = -1 \<and> w_errno w' = EOVERFLOW \<and> 65535 < uint r + int (rx_bytes (w_rx w)) - int (rx_bytes (w_rx w')) \<or>
   uint r \<le> rc \<and> int (rx_bytes (w_rx w)) = rc - uint r + int (rx_bytes (w_rx w'))"
proof (induction s r w rule: tcp_flush_loop.induct)
  case (1 s r w)
  obtain n bs w1 where recv: "sys_recv s MODBUS_TCP_MAX_ADU_LENGTH w = (n, bs, w1)"
    by (cases "sys_recv s MODBUS_TCP_MAX_ADU_LENGTH w") auto
  note takes = sys_recv_takes [OF recv]
  let ?sum = "if n > 0 then word_of_int (uint r + n) else r"
  show ?case
  proof (cases "n > 0 \<and> \<not> uint r \<le> 65535 - n")
    case True
    with "1.prems" recv takes show ?thesis by (auto simp: tcp_flush_loop.simps [of s r w])
  next
    case False
    have sum: "uint ?sum = uint r + int (length bs)"
    proof (cases "n > 0")
      case True
      then have n: "n = int (length bs)" and bound: "uint r + int (length bs) < 65536" using False takes by auto
      have "uint (word_of_int (uint r + int (length bs)) :: u16) = (uint r + int (length bs)) mod 2 ^ 16"
        unfolding uint_word_of_int by simp
      with True n bound uint_ge_0 [of r] show ?thesis by (simp only: if_True) simp
    qed (use takes in auto)
    show ?thesis
    proof (cases "n = int MODBUS_TCP_MAX_ADU_LENGTH")
      case True
      with False "1.prems" recv have "tcp_flush_loop s ?sum w1 = (rc, w')" by (simp add: tcp_flush_loop.simps [of s r w] Let_def)
      from "1.IH" [OF recv [symmetric] refl False refl True] this sum takes show ?thesis by auto
    next
      case full: False
      with False "1.prems" recv have "rc = uint ?sum" "w' = w1" by (auto simp: tcp_flush_loop.simps [of s r w] Let_def)
      with sum takes show ?thesis by auto
    qed
  qed
qed

text \<open>What waits in a socket when nothing else arrives is taken whole, in reads of 260 bytes.\<close>

lemma tcp_flush_loop_waiting:
  assumes "0 \<le> s" and "w_rx w = (if bs = [] then [] else [Rx_data bs])" and "uint r + int (length bs) \<le> 65535"
  shows "\<exists>w'. tcp_flush_loop s r w = (uint r + int (length bs), w') \<and> w_rx w' = []"
  using assms
proof (induction s r w arbitrary: bs rule: tcp_flush_loop.induct)
  case (1 s r w)
  show ?case
  proof (cases "bs = []")
    case True
    with "1.prems" show ?thesis by (simp add: tcp_flush_loop.simps [of s r w] sys_recv_def)
  next
    case False
    let ?c = "take 260 bs" and ?rest = "drop 260 bs"
    let ?n = "int (length ?c)" and ?w = "w\<lparr>w_rx := if ?rest = [] then [] else [Rx_data ?rest]\<rparr>"
    obtain b bs' where bs: "bs = b # bs'" using False by (cases bs) auto
    have recv: "sys_recv s MODBUS_TCP_MAX_ADU_LENGTH w = (?n, ?c, ?w)"
      using "1.prems"(1,2) False by (simp add: sys_recv_def bs del: take_Cons_numeral drop_Cons_numeral length_take)
    have pos: "0 < ?n" using bs by simp
    have le: "uint r + ?n \<le> 65535" using "1.prems"(3) by simp
    then have guard: "\<not> (?n > 0 \<and> \<not> uint r \<le> 65535 - ?n)" by simp
    have sum: "uint (word_of_int (uint r + ?n) :: u16) = uint r + ?n"
      using le pos uint_ge_0 [of r] by (subst uint_word_of_int) (simp del: length_take)
    show ?thesis
    proof (cases "260 \<le> length bs")
      case full: True
      then have n: "?n = int MODBUS_TCP_MAX_ADU_LENGTH" by simp
      have "uint (if ?n > 0 then word_of_int (uint r + ?n) else r :: u16) + int (length ?rest) \<le> 65535"
        using sum pos "1.prems"(3) full by (simp add: of_nat_diff)
      from "1.IH" [OF recv [symmetric] refl guard refl n "1.prems"(1) _ this]
      obtain w' where "tcp_flush_loop s (if ?n > 0 then word_of_int (uint r + ?n) else r) ?w =
          (uint (if ?n > 0 then word_of_int (uint r + ?n) else r :: u16) + int (length ?rest), w') \<and> w_rx w' = []"
        by auto
      with recv guard n sum pos full show ?thesis
        by (intro exI [of _ w']) (simp add: tcp_flush_loop.simps [of s r w] Let_def of_nat_diff)
    next
      case False
      then have "?rest = []" "?n \<noteq> int MODBUS_TCP_MAX_ADU_LENGTH" by simp_all
      with recv guard sum pos False show ?thesis
        by (intro exI [of _ ?w]) (simp add: tcp_flush_loop.simps [of s r w] Let_def)
    qed
  qed
qed

section \<open>The socket\<close>

definition modbus_tcp_send :: "modbus \<Rightarrow> byte list \<Rightarrow> world \<Rightarrow> (int \<times> world) outcome" where
  [simp]: "modbus_tcp_send ctx req w = sys_send (mb_s ctx) req w"

definition modbus_tcp_recv :: "modbus \<Rightarrow> nat \<Rightarrow> world \<Rightarrow> int \<times> byte list \<times> world" where
  [simp]: "modbus_tcp_recv ctx rsp_length w = sys_recv (mb_s ctx) rsp_length w"

definition modbus_tcp_is_connected :: "modbus \<Rightarrow> bool" where
  [simp]: "modbus_tcp_is_connected ctx \<longleftrightarrow> mb_s ctx \<ge> 0"

section \<open>select\<close>

text \<open>
  The loop around \<open>select\<close>, the same in \<open>_modbus_tcp_select\<close> and \<open>_modbus_rtu_select\<close>: an
  interrupted call is made again. Each interruption is an event of the read side.
\<close>

lemma select_read_error_shrinks:
  "select_read timed es = Done (-1, e, es') \<Longrightarrow> length es' < length es"
proof (induction timed es rule: select_read.induct)
qed (auto split: if_splits)

lemma sys_select_error_shrinks:
  "sys_select tv w = Done (-1, w') \<Longrightarrow> length (w_rx w') < length (w_rx w)"
  by (auto simp: sys_select_def outcome_iff dest: select_read_error_shrinks)

function select_loop :: "int \<Rightarrow> timeval option \<Rightarrow> world \<Rightarrow> (int \<times> world) outcome" where
  "select_loop s tv w =
     (case sys_select tv w of
        Fault \<Rightarrow> Fault
      | Pending \<Rightarrow> Pending
      | Done (s_rc, w') \<Rightarrow>
          if s_rc = -1 then
            (if w_errno w' = EINTR then
               (if s < 0 \<or> s \<ge> FD_SETSIZE then Done (fail_errno EINVAL w') else select_loop s tv w')
             else Done (-1, w'))
          else if s_rc = 0 then Done (fail_errno ETIMEDOUT w')
          else Done (s_rc, w'))"
  by pat_completeness auto
termination
  by (relation "measure (\<lambda>(s, tv, w). length (w_rx w))") (auto dest: sys_select_error_shrinks)

declare select_loop.simps [simp del]

definition modbus_tcp_select :: "modbus \<Rightarrow> timeval option \<Rightarrow> world \<Rightarrow> (int \<times> world) outcome" where
  "modbus_tcp_select ctx tv w = select_loop (mb_s ctx) tv w"

lemma select_loop_not_Fault [simp]: "select_loop s tv w \<noteq> Fault"
proof (induction s tv w rule: select_loop.induct)
  case (1 s tv w)
  show ?case
  proof (cases "sys_select tv w")
    case (Done r)
    with "1.IH" [OF Done] show ?thesis
      by (cases r) (simp add: select_loop.simps [of s tv w])
  qed (simp_all add: select_loop.simps [of s tv w])
qed

text \<open>What a successful \<open>select\<close> promises to the read that follows.\<close>

fun readable :: "rx_event list \<Rightarrow> bool" where
  "readable (Rx_data bs # es) \<longleftrightarrow> bs \<noteq> []"
| "readable (Rx_eof # es) \<longleftrightarrow> True"
| "readable (Rx_err e # es) \<longleftrightarrow> True"
| "readable es \<longleftrightarrow> False"

lemma select_read_ready:
  "select_read timed es = Done (rc, e, es') \<Longrightarrow>
   (rc = 1 \<longrightarrow> readable es') \<and> rx_bytes es' = rx_bytes es \<and> length es' \<le> length es"
  by (induction timed es rule: select_read.induct) (auto split: if_splits)

lemma sys_select_ready:
  "sys_select tv w = Done (rc, w') \<Longrightarrow>
   (rc = 1 \<longrightarrow> readable (w_rx w')) \<and> rx_bytes (w_rx w') = rx_bytes (w_rx w) \<and> length (w_rx w') \<le> length (w_rx w)"
  by (auto simp: sys_select_def outcome_iff dest: select_read_ready)

lemma select_loop_result:
  "select_loop s tv w = Done (rc, w') \<Longrightarrow>
   (rc = -1 \<or> rc = 1 \<and> readable (w_rx w')) \<and> rx_bytes (w_rx w') = rx_bytes (w_rx w) \<and>
   w_tx w' = w_tx w \<and> w_calls w' = w_calls w \<and> w_sent w' = w_sent w \<and> w_fds w' = w_fds w"
proof (induction s tv w rule: select_loop.induct)
  case (1 s tv w)
  from "1.prems" obtain s_rc w1 where sel: "sys_select tv w = Done (s_rc, w1)"
    by (cases "sys_select tv w") (auto simp: select_loop.simps [of s tv w])
  note facts = sys_select_frame [OF sel] sys_select_result [OF sel] sys_select_ready [OF sel]
  show ?case
  proof (cases "s_rc = -1 \<and> w_errno w1 = EINTR \<and> \<not> (s < 0 \<or> s \<ge> FD_SETSIZE)")
    case True
    with "1.prems" sel have "select_loop s tv w1 = Done (rc, w')" by (simp add: select_loop.simps [of s tv w])
    with True sel "1.IH" [OF sel] facts show ?thesis by auto
  next
    case False
    with "1.prems" sel facts show ?thesis
      by (auto simp: select_loop.simps [of s tv w] split: if_splits)
  qed
qed

end
