(* ===== verification/Mb_Backend.thy ===== *)
theory Mb_Backend
  imports Mb_Rtu Mb_Tcp
begin

text \<open>
  The table \<open>modbus_backend_t\<close>: every call \<open>ctx->backend->op\<close> of modbus.c is a \<open>be_op\<close> here,
  dispatched on the backend of the context. The locale \<open>framing\<close> is the contract that modbus.c
  has with a backend for building a message: fill the header, append the PDU, close the frame. Its
  lemmas say what the bytes of a message are; both backends are instances.
\<close>

definition is_rtu :: "modbus \<Rightarrow> bool" where
  "is_rtu ctx = (case mb_backend ctx of Rtu r \<Rightarrow> True | _ \<Rightarrow> False)"

definition be_type :: "modbus \<Rightarrow> backend_type" where
  "be_type ctx = (if is_rtu ctx then BACKEND_TYPE_RTU else BACKEND_TYPE_TCP)"

definition header_length :: "modbus \<Rightarrow> nat" where
  "header_length ctx = (if is_rtu ctx then RTU_HEADER_LENGTH else TCP_HEADER_LENGTH)"

definition checksum_length :: "modbus \<Rightarrow> nat" where
  "checksum_length ctx = (if is_rtu ctx then RTU_CHECKSUM_LENGTH else TCP_CHECKSUM_LENGTH)"

definition max_adu_length :: "modbus \<Rightarrow> nat" where
  "max_adu_length ctx = (if is_rtu ctx then MODBUS_RTU_MAX_ADU_LENGTH else MODBUS_TCP_MAX_ADU_LENGTH)"

definition be_set_slave :: "modbus \<Rightarrow> int \<Rightarrow> world \<Rightarrow> int \<times> modbus \<times> world" where
  "be_set_slave ctx = (if is_rtu ctx then modbus_rtu_set_slave ctx else modbus_tcp_set_slave ctx)"

definition be_build_request_basis ::
    "modbus \<Rightarrow> int \<Rightarrow> int \<Rightarrow> int \<Rightarrow> byte list \<Rightarrow> (nat \<times> modbus \<times> byte list) outcome" where
  "be_build_request_basis ctx function addr nb req =
     (if is_rtu ctx
      then obind (modbus_rtu_build_request_basis ctx function addr nb req) (\<lambda>(n, req). Done (n, ctx, req))
      else modbus_tcp_build_request_basis ctx function addr nb req)"

definition be_build_response_basis :: "modbus \<Rightarrow> sft \<Rightarrow> byte list \<Rightarrow> (nat \<times> byte list) outcome" where
  "be_build_response_basis ctx =
     (if is_rtu ctx then modbus_rtu_build_response_basis else modbus_tcp_build_response_basis)"

definition be_get_response_tid :: "modbus \<Rightarrow> byte list \<Rightarrow> int outcome" where
  "be_get_response_tid ctx = (if is_rtu ctx then modbus_rtu_get_response_tid else modbus_tcp_get_response_tid)"

definition be_send_msg_pre :: "modbus \<Rightarrow> byte list \<Rightarrow> nat \<Rightarrow> (nat \<times> byte list) outcome" where
  "be_send_msg_pre ctx = (if is_rtu ctx then modbus_rtu_send_msg_pre else modbus_tcp_send_msg_pre)"

definition be_send :: "modbus \<Rightarrow> byte list \<Rightarrow> world \<Rightarrow> (int \<times> world) outcome" where
  "be_send ctx req w =
     (case mb_backend ctx of Rtu r \<Rightarrow> modbus_rtu_send ctx r req w | _ \<Rightarrow> modbus_tcp_send ctx req w)"

definition be_recv :: "modbus \<Rightarrow> nat \<Rightarrow> world \<Rightarrow> int \<times> byte list \<times> world" where
  "be_recv ctx rsp_length w = (if is_rtu ctx then modbus_rtu_recv ctx rsp_length w else modbus_tcp_recv ctx rsp_length w)"

definition be_check_integrity :: "modbus \<Rightarrow> byte list \<Rightarrow> nat \<Rightarrow> world \<Rightarrow> (int \<times> world) outcome" where
  "be_check_integrity ctx = (if is_rtu ctx then modbus_rtu_check_integrity ctx else modbus_tcp_check_integrity ctx)"

definition be_pre_check_confirmation :: "modbus \<Rightarrow> byte list \<Rightarrow> byte list \<Rightarrow> world \<Rightarrow> (int \<times> world) outcome" where
  "be_pre_check_confirmation ctx =
     (if is_rtu ctx then modbus_rtu_pre_check_confirmation else modbus_tcp_pre_check_confirmation)"

definition be_is_connected :: "modbus \<Rightarrow> bool" where
  "be_is_connected ctx = (if is_rtu ctx then modbus_rtu_is_connected ctx else modbus_tcp_is_connected ctx)"

definition be_flush :: "modbus \<Rightarrow> world \<Rightarrow> int \<times> world" where
  "be_flush ctx w = (if is_rtu ctx then modbus_rtu_flush ctx w else modbus_tcp_flush ctx w)"

definition modbus_rtu_select :: "modbus \<Rightarrow> timeval option \<Rightarrow> world \<Rightarrow> (int \<times> world) outcome" where
  "modbus_rtu_select ctx tv w = select_loop (mb_s ctx) tv w"

definition be_select :: "modbus \<Rightarrow> timeval option \<Rightarrow> world \<Rightarrow> (int \<times> world) outcome" where
  "be_select ctx tv w = (if is_rtu ctx then modbus_rtu_select ctx tv w else modbus_tcp_select ctx tv w)"

definition modbus_set_slave :: "int \<Rightarrow> modbus option on_ctx" where
  "modbus_set_slave slave ctx w =
     (case ctx of None \<Rightarrow> (-1, None, set_errno EINVAL w)
      | Some c \<Rightarrow> (case be_set_slave c slave w of (rc, c, w) \<Rightarrow> (rc, Some c, w)))"

definition modbus_get_header_length :: "modbus option \<Rightarrow> world \<Rightarrow> int \<times> world" where
  "modbus_get_header_length ctx w =
     (case ctx of None \<Rightarrow> fail_errno EINVAL w | Some c \<Rightarrow> (int (header_length c), w))"

lemma backend_lengths:
  "is_rtu ctx \<Longrightarrow> header_length ctx = 1 \<and> checksum_length ctx = 2 \<and> max_adu_length ctx = 256"
  "\<not> is_rtu ctx \<Longrightarrow> header_length ctx = 7 \<and> checksum_length ctx = 0 \<and> max_adu_length ctx = 260"
  by (simp_all add: header_length_def checksum_length_def max_adu_length_def)

lemma header_checksum_bounds [simp]:
  "0 < header_length ctx" "header_length ctx \<le> 7" "checksum_length ctx \<le> 2"
  "header_length ctx + checksum_length ctx \<le> 7" "max_adu_length ctx \<le> 260"
  by (simp_all add: header_length_def checksum_length_def max_adu_length_def)

lemma be_send_not_Fault [simp]: "be_send ctx req w \<noteq> Fault"
  by (simp add: be_send_def split: backend_data.splits)

lemma be_send_result:
  "be_send ctx req w = Done (rc, w') \<Longrightarrow>
   (rc = -1 \<and> w_sent w' = w_sent w \<or>
    (\<exists>n. rc = int (length (take n req)) \<and> w_sent w' = w_sent w @ [take n req])) \<and>
   length (w_tx w') < length (w_tx w) \<and> w_fds w' = w_fds w \<and> w_rx w' = w_rx w"
proof (cases "mb_backend ctx")
  case (Rtu r)
  moreover assume "be_send ctx req w = Done (rc, w')"
  ultimately have "modbus_rtu_send ctx r req w = Done (rc, w')" by (simp add: be_send_def)
  then show ?thesis by (rule rtu_send_result)
qed (use sys_send_result in \<open>auto simp: be_send_def sys_send_def Let_def split: list.splits tx_event.splits if_splits\<close>)

lemma be_flush_frame:
  "be_flush ctx w = (rc, w') \<Longrightarrow>
   w_tx w' = w_tx w \<and> w_calls w' = w_calls w \<and> w_sent w' = w_sent w \<and> w_fds w' = w_fds w"
  by (auto simp: be_flush_def modbus_rtu_flush_def modbus_tcp_flush_def
           dest!: sys_tcflush_frame tcp_flush_loop_frame split: if_splits)

lemma be_recv_eq: "be_recv ctx n w = sys_recv (mb_s ctx) n w"
  by (cases "is_rtu ctx") (simp_all add: be_recv_def)

lemma be_is_connected_eq: "be_is_connected ctx \<longleftrightarrow> mb_s ctx \<ge> 0"
  by (cases "is_rtu ctx") (simp_all add: be_is_connected_def)

lemma be_select_eq: "be_select ctx tv w = select_loop (mb_s ctx) tv w"
  by (simp add: be_select_def modbus_rtu_select_def modbus_tcp_select_def)

section \<open>The framing contract\<close>

locale framing =
  fixes hdr :: nat
    and cks :: nat
    and basis :: "sft \<Rightarrow> byte list \<Rightarrow> (nat \<times> byte list) outcome"
    and close :: "byte list \<Rightarrow> nat \<Rightarrow> (nat \<times> byte list) outcome"
    and frame :: "sft \<Rightarrow> byte list \<Rightarrow> byte list"
  assumes hdr_pos: "0 < hdr"
    and basis_fits: "hdr + 1 \<le> length rsp \<Longrightarrow>
          \<exists>rsp'. basis sft rsp = Done (hdr + 1, rsp') \<and> length rsp' = length rsp \<and>
                 drop (hdr + 1) rsp' = drop (hdr + 1) rsp"
    and close_frame: "hdr + 1 \<le> length rsp \<Longrightarrow> basis sft rsp = Done (hdr + 1, rsp') \<Longrightarrow>
          take (hdr + 1) msg = take (hdr + 1) rsp' \<Longrightarrow> hdr + 1 \<le> n \<Longrightarrow> n + cks \<le> length msg \<Longrightarrow> n < 65536 \<Longrightarrow>
          \<exists>msg'. close msg n = Done (n + cks, msg') \<and> length msg' = length msg \<and>
                 take (n + cks) msg' = frame sft (drop (hdr + 1) (take n msg))"
    and frame_shape: "\<exists>pre post. frame sft body =
            pre @ word_of_int (sft_slave sft) # word_of_int (sft_function sft) # body @ post \<and>
          length pre = hdr - 1 \<and> length post = cks"
begin

text \<open>
  A message built in any buffer that is large enough is the frame of its body: the previous
  contents of the buffer do not show.
\<close>

lemma built_frame:
  assumes fits: "hdr + 1 + length body + cks \<le> length rsp" and small: "hdr + 1 + length body < 65536"
  shows "\<exists>m. obind (basis sft rsp) (\<lambda>(n, rsp). obind (push_all rsp n body) (\<lambda>(n, rsp). close rsp n)) =
               Done (hdr + 1 + length body + cks, m) \<and>
             take (hdr + 1 + length body + cks) m = frame sft body \<and> length m = length rsp"
proof -
  from fits have "hdr + 1 \<le> length rsp" by simp
  then obtain rsp' where b: "basis sft rsp = Done (hdr + 1, rsp')" "length rsp' = length rsp"
    using basis_fits by blast
  let ?msg = "take (hdr + 1) rsp' @ body @ drop (hdr + 1 + length body) rsp'"
  have p: "push_all rsp' (hdr + 1) body = Done (hdr + 1 + length body, ?msg)"
    using push_all_fits [of "hdr + 1" body rsp'] fits b by simp
  have len: "length ?msg = length rsp" and body: "drop (hdr + 1) (take (hdr + 1 + length body) ?msg) = body"
    using fits b by auto
  have "\<exists>m. close ?msg (hdr + 1 + length body) = Done (hdr + 1 + length body + cks, m) \<and>
      length m = length ?msg \<and>
      take (hdr + 1 + length body + cks) m = frame sft (drop (hdr + 1) (take (hdr + 1 + length body) ?msg))"
  proof (rule close_frame [OF _ b(1)])
  qed (use fits small b in auto)
  then obtain m where "close ?msg (hdr + 1 + length body) = Done (hdr + 1 + length body + cks, m)"
      "length m = length rsp" "take (hdr + 1 + length body + cks) m = frame sft body"
    unfolding len body by blast
  with b p show ?thesis by simp
qed

lemma frame_length: "length (frame sft body) = hdr + 1 + length body + cks"
  using frame_shape [of sft body] hdr_pos by auto

lemma frame_slave: "frame sft body ! (hdr - 1) = word_of_int (sft_slave sft)"
  using frame_shape [of sft body] hdr_pos by (auto simp: nth_append)

lemma frame_function: "frame sft body ! hdr = word_of_int (sft_function sft)"
  using frame_shape [of sft body] hdr_pos by (auto simp: nth_append nth_Cons')

lemma frame_body: "take (length body) (drop (hdr + 1) (frame sft body)) = body"
proof -
  obtain pre post where shape: "frame sft body =
      pre @ word_of_int (sft_slave sft) # word_of_int (sft_function sft) # body @ post"
    and pre: "length pre = hdr - 1" using frame_shape [of sft body] by blast
  have "hdr + 1 = length (pre @ [word_of_int (sft_slave sft), word_of_int (sft_function sft)])"
    using pre hdr_pos by simp
  then have "drop (hdr + 1) (frame sft body) = body @ post"
    unfolding shape by (simp del: One_nat_def add: pre)
  then show ?thesis by simp
qed

lemma frame_body_nth:
  assumes "i < length body"
  shows "frame sft body ! (hdr + 1 + i) = body ! i"
proof -
  have "body ! i = take (length body) (drop (hdr + 1) (frame sft body)) ! i" by (simp only: frame_body)
  also have "\<dots> = frame sft body ! (hdr + 1 + i)" using assms by (simp add: frame_length)
  finally show ?thesis by simp
qed

end

lemma rtu_basis_value:
  "2 \<le> length rsp \<Longrightarrow> modbus_rtu_build_response_basis sft rsp =
     Done (2, word_of_int (sft_slave sft) # word_of_int (sft_function sft) # drop 2 rsp)"
  using push_all_fits [of 0 "[word_of_int (sft_slave sft), word_of_int (sft_function sft)]" rsp]
  by (simp add: modbus_rtu_build_response_basis_def numeral_2_eq_2 del: push_all.simps)

definition tcp_frame :: "sft \<Rightarrow> byte list \<Rightarrow> byte list" where
  "tcp_frame sft body =
     [int_hi8 (sft_t_id sft), int_lo8 (sft_t_id sft), 0, 0,
      int_hi8 (int (length body + 2)), int_lo8 (int (length body + 2)),
      word_of_int (sft_slave sft), word_of_int (sft_function sft)] @ body"

interpretation rtu: framing 1 2 modbus_rtu_build_response_basis modbus_rtu_send_msg_pre rtu_frame
proof
  show "(0 :: nat) < 1" by simp
next
  fix rsp :: "byte list" and sft
  assume "1 + 1 \<le> length rsp"
  then show "\<exists>rsp'. modbus_rtu_build_response_basis sft rsp = Done (1 + 1, rsp') \<and> length rsp' = length rsp \<and>
                 drop (1 + 1) rsp' = drop (1 + 1) rsp"
    using rtu_basis_value [of rsp sft] by (auto simp: numeral_2_eq_2)
next
  fix rsp :: "byte list" and sft rsp' and msg :: "byte list" and n :: nat
  assume "1 + 1 \<le> length rsp" and "modbus_rtu_build_response_basis sft rsp = Done (1 + 1, rsp')"
    and "take (1 + 1) msg = take (1 + 1) rsp'" and "1 + 1 \<le> n" and "n + 2 \<le> length msg" and "n < 65536"
  moreover from this have "take 2 msg = [word_of_int (sft_slave sft), word_of_int (sft_function sft)]"
    using rtu_basis_value [of rsp sft] by (auto simp: numeral_2_eq_2)
  moreover have "take n msg = take 2 msg @ drop 2 (take n msg)"
    using \<open>1 + 1 \<le> n\<close> by (metis append_take_drop_id min.absorb1 one_add_one take_take)
  ultimately show "\<exists>msg'. modbus_rtu_send_msg_pre msg n = Done (n + 2, msg') \<and> length msg' = length msg \<and>
                 take (n + 2) msg' = rtu_frame sft (drop (1 + 1) (take n msg))"
    by (simp add: rtu_send_msg_pre_value rtu_frame_def Let_def numeral_2_eq_2)
next
  fix sft and body :: "byte list"
  show "\<exists>pre post. rtu_frame sft body =
            pre @ word_of_int (sft_slave sft) # word_of_int (sft_function sft) # body @ post \<and>
          length pre = 1 - 1 \<and> length post = 2"
    by (rule exI [of _ "[]"]) (simp add: rtu_frame_def Let_def)
qed

lemma tcp_basis_value:
  assumes "8 \<le> length rsp"
  shows "modbus_tcp_build_response_basis sft rsp =
     Done (8, [int_hi8 (sft_t_id sft), int_lo8 (sft_t_id sft), 0, 0, rsp ! 4, rsp ! 5,
               word_of_int (sft_slave sft), word_of_int (sft_function sft)] @ drop 8 rsp)"
proof -
  from assms obtain r0 r1 r2 r3 r4 r5 r6 r7 rest where "rsp = [r0, r1, r2, r3, r4, r5, r6, r7] @ rest"
    by (auto simp: numeral_nat Suc_le_length_iff)
  then show ?thesis by (simp add: modbus_tcp_build_response_basis_def wr_def)
qed

lemma tcp_send_msg_pre_value:
  assumes "6 \<le> length req"
  shows "modbus_tcp_send_msg_pre req n =
     Done (n, take 4 req @ [int_hi8 (int n - 6), int_lo8 (int n - 6)] @ drop 6 req)"
proof -
  from assms obtain r0 r1 r2 r3 r4 r5 rest where "req = [r0, r1, r2, r3, r4, r5] @ rest"
    by (auto simp: numeral_nat Suc_le_length_iff)
  then show ?thesis by (simp add: modbus_tcp_send_msg_pre_def wr_def Let_def)
qed

lemma take_8: "take (8 + k) (a # b # c # d # e # f # g # h # xs) = a # b # c # d # e # f # g # h # take k xs"
  by (simp add: numeral_nat)

interpretation tcp: framing 7 0 modbus_tcp_build_response_basis modbus_tcp_send_msg_pre tcp_frame
proof
  show "(0 :: nat) < 7" by simp
next
  fix rsp :: "byte list" and sft
  assume "7 + 1 \<le> length rsp"
  then show "\<exists>rsp'. modbus_tcp_build_response_basis sft rsp = Done (7 + 1, rsp') \<and> length rsp' = length rsp \<and>
                 drop (7 + 1) rsp' = drop (7 + 1) rsp"
    using tcp_basis_value [of rsp sft] by auto
next
  fix rsp :: "byte list" and sft rsp' and msg :: "byte list" and n :: nat
  assume "7 + 1 \<le> length rsp" and "modbus_tcp_build_response_basis sft rsp = Done (7 + 1, rsp')"
    and pre: "take (7 + 1) msg = take (7 + 1) rsp'" and n: "7 + 1 \<le> n" "n + 0 \<le> length msg" and "n < 65536"
  then have "rsp' = [int_hi8 (sft_t_id sft), int_lo8 (sft_t_id sft), 0, 0, rsp ! 4, rsp ! 5,
               word_of_int (sft_slave sft), word_of_int (sft_function sft)] @ drop 8 rsp"
    using tcp_basis_value [of rsp sft] by simp
  with pre have "take 8 msg = [int_hi8 (sft_t_id sft), int_lo8 (sft_t_id sft), 0, 0, rsp ! 4, rsp ! 5,
               word_of_int (sft_slave sft), word_of_int (sft_function sft)]" by simp
  then obtain rest where msg: "msg = [int_hi8 (sft_t_id sft), int_lo8 (sft_t_id sft), 0, 0, rsp ! 4, rsp ! 5,
               word_of_int (sft_slave sft), word_of_int (sft_function sft)] @ rest"
    using append_take_drop_id [of 8 msg] by metis
  obtain k where k: "n = 7 + 1 + k" using n(1) le_Suc_ex by blast
  let ?m = "take 4 msg @ [int_hi8 (int n - 6), int_lo8 (int n - 6)] @ drop 6 msg"
  have "modbus_tcp_send_msg_pre msg n = Done (n, ?m)"
    using n by (intro tcp_send_msg_pre_value) simp
  moreover have "length ?m = length msg" using n by simp
  moreover have "take n ?m = tcp_frame sft (drop (7 + 1) (take n msg))"
    using n(2) unfolding msg by (simp add: k tcp_frame_def take_8 min_def)
  ultimately show "\<exists>msg'. modbus_tcp_send_msg_pre msg n = Done (n + 0, msg') \<and> length msg' = length msg \<and>
                 take (n + 0) msg' = tcp_frame sft (drop (7 + 1) (take n msg))"
    by simp
next
  fix sft and body :: "byte list"
  show "\<exists>pre post. tcp_frame sft body =
            pre @ word_of_int (sft_slave sft) # word_of_int (sft_function sft) # body @ post \<and>
          length pre = 7 - 1 \<and> length post = 0"
    by (rule exI [of _ "[_, _, _, _, _, _]"]) (simp add: tcp_frame_def)
qed

section \<open>Both backends\<close>

definition be_frame :: "modbus \<Rightarrow> sft \<Rightarrow> byte list \<Rightarrow> byte list" where
  "be_frame ctx = (if is_rtu ctx then rtu_frame else tcp_frame)"

interpretation be: framing "header_length ctx" "checksum_length ctx" "be_build_response_basis ctx"
    "be_send_msg_pre ctx" "be_frame ctx" for ctx
proof (cases "is_rtu ctx")
  case True
  then have "header_length ctx = 1" "checksum_length ctx = 2" "be_build_response_basis ctx = modbus_rtu_build_response_basis"
    "be_send_msg_pre ctx = modbus_rtu_send_msg_pre" "be_frame ctx = rtu_frame"
    by (simp_all add: backend_lengths be_build_response_basis_def be_send_msg_pre_def be_frame_def)
  with rtu.framing_axioms
  show "framing (header_length ctx) (checksum_length ctx) (be_build_response_basis ctx) (be_send_msg_pre ctx) (be_frame ctx)"
    by simp
next
  case False
  then have "header_length ctx = 7" "checksum_length ctx = 0" "be_build_response_basis ctx = modbus_tcp_build_response_basis"
    "be_send_msg_pre ctx = modbus_tcp_send_msg_pre" "be_frame ctx = tcp_frame"
    by (simp_all add: backend_lengths be_build_response_basis_def be_send_msg_pre_def be_frame_def)
  with tcp.framing_axioms
  show "framing (header_length ctx) (checksum_length ctx) (be_build_response_basis ctx) (be_send_msg_pre ctx) (be_frame ctx)"
    by simp
qed

text \<open>
  A request is framed like a response: its header is the one of the identity that the context gives
  it, followed by the address and the number. The context keeps the new transaction identifier.
\<close>

definition request_ctx :: "modbus \<Rightarrow> modbus" where
  "request_ctx ctx = ctx\<lparr>mb_backend :=
     set_backend_t_id (next_t_id (backend_t_id (mb_backend ctx))) (mb_backend ctx)\<rparr>"

definition request_sft :: "modbus \<Rightarrow> int \<Rightarrow> sft" where
  "request_sft ctx function =
     \<lparr>sft_slave = mb_slave ctx, sft_function = function,
      sft_t_id = (if is_rtu ctx then 0 else uint (next_t_id (backend_t_id (mb_backend ctx))))\<rparr>"

lemma request_ctx_same [simp]:
  "is_rtu (request_ctx ctx) = is_rtu ctx" "header_length (request_ctx ctx) = header_length ctx"
  "checksum_length (request_ctx ctx) = checksum_length ctx" "mb_slave (request_ctx ctx) = mb_slave ctx"
  "mb_s (request_ctx ctx) = mb_s ctx" "mb_error_recovery (request_ctx ctx) = mb_error_recovery ctx"
  "be_frame (request_ctx ctx) = be_frame ctx"
  by (simp_all add: request_ctx_def is_rtu_def header_length_def checksum_length_def be_frame_def
        set_backend_t_id_def split: backend_data.splits)

lemma request_ctx_rtu: "is_rtu ctx \<Longrightarrow> request_ctx ctx = ctx"
  by (cases ctx) (simp add: request_ctx_def is_rtu_def set_backend_t_id_def split: backend_data.splits)

lemma obind_push_all_append:
  "obind (push_all a pos (xs @ ys)) f =
   obind (push_all a pos xs) (\<lambda>(n, a). obind (push_all a n ys) f)"
  by (simp add: push_all_append obind_assoc case_prod_unfold)

lemma push_all_pos: "push_all a pos xs = Done (n, a') \<Longrightarrow> n = pos + length xs"
proof (induction xs arbitrary: a pos)
  case (Cons x xs)
  then obtain a1 where "push_all a1 (Suc pos) xs = Done (n, a')" by (auto simp: outcome_iff)
  with Cons.IH [of a1 "Suc pos"] show ?case by simp
qed simp

text \<open>The position after the bytes is known, so a constant may stand for it.\<close>

lemma obind_push_all_pos:
  "obind (push_all a pos xs) (\<lambda>(n, a). f n a) = obind (push_all a pos xs) (\<lambda>(_, a). f (pos + length xs) a)"
  by (cases "push_all a pos xs") (auto dest: push_all_pos)

lemma request_basis_eq:
  assumes "is_rtu ctx \<Longrightarrow> mb_slave ctx \<noteq> -1"
  shows "be_build_request_basis ctx function addr nb req =
    obind (be_build_response_basis ctx (request_sft ctx function) req) (\<lambda>(n, req).
    obind (push_all req n [int_hi8 addr, int_lo8 addr, int_hi8 nb, int_lo8 nb]) (\<lambda>(n, req).
      Done (n, request_ctx ctx, req)))"
proof -
  let ?h = "[word_of_int (mb_slave ctx), word_of_int function]" and ?b = "[int_hi8 addr, int_lo8 addr, int_hi8 nb, int_lo8 nb]"
  have split: "obind (push_all req pos (?h @ ?b)) (\<lambda>(_, a). f a) =
      obind (push_all req pos ?h) (\<lambda>(_, a). obind (push_all a (pos + 2) ?b) (\<lambda>(_, a). f a))" for pos req and f :: "_ \<Rightarrow> 'z outcome"
    unfolding obind_push_all_append by (subst obind_push_all_pos) simp
  have tail: "obind (push_all a pos ?b) (\<lambda>(n, a). Done (n, g, a)) = obind (push_all a pos ?b) (\<lambda>(_, a). Done (pos + 4, g, a))"
    for a pos and g :: modbus
    by (subst obind_push_all_pos) (simp add: numeral_nat)
  show ?thesis
  proof (cases "is_rtu ctx")
    case True
    with assms split [of req 0 "\<lambda>a. Done (6 :: nat, ctx, a)"] show ?thesis
      by (simp add: be_build_request_basis_def be_build_response_basis_def modbus_rtu_build_request_basis_def
          modbus_rtu_build_response_basis_def request_ctx_rtu request_sft_def obind_assoc case_prod_unfold
          tail [unfolded case_prod_unfold] numeral_2_eq_2 del: push_all.simps)
  next
    case False
    with split [of _ 6 "\<lambda>a. Done (12 :: nat, request_ctx ctx, a)"] show ?thesis
      by (simp add: be_build_request_basis_def be_build_response_basis_def modbus_tcp_build_request_basis_def
          modbus_tcp_build_response_basis_def request_sft_def obind_assoc case_prod_unfold Let_def
          tail [unfolded case_prod_unfold] request_ctx_def [symmetric] del: push_all.simps)
  qed
qed

section \<open>Integrity of a received message\<close>

definition rtu_crc_ok :: "byte list \<Rightarrow> nat \<Rightarrow> bool" where
  "rtu_crc_ok msg n \<longleftrightarrow> lo8 (crc_ref (take (n - 2) msg)) = msg ! (n - 2) \<and> hi8 (crc_ref (take (n - 2) msg)) = msg ! (n - 1)"

lemma rtu_check_integrity_value:
  assumes "2 \<le> n" and "n \<le> length msg" and "n < 65536"
  shows "modbus_rtu_check_integrity ctx msg n w =
    (if \<not> rtu_crc_ok msg n then
       Done (fail_errno EMBBADCRC (if protocol_recovery ctx then snd (modbus_rtu_flush ctx w) else w))
     else if uint (msg ! 0) \<noteq> mb_slave ctx \<and> uint (msg ! 0) \<noteq> MODBUS_BROADCAST_ADDRESS then Done (0, w)
     else Done (int n, w))"
proof -
  have crc: "crc = word_of_int (be16 h l) \<longleftrightarrow> lo8 crc = l \<and> hi8 crc = h" for crc :: u16 and h l
    using bytes_of_be16 [of h l] be16_hi8_lo8 [of crc] by (metis word_of_int_uint)
  have idx: "nat (int n - 1) = n - 1" "nat (int n - 2) = n - 2" "nat ((int n - 2) mod 2 ^ 16) = n - 2"
    using assms by simp_all
  have "msg \<noteq> []" "n - 1 < length msg" "n - 2 < length msg" "0 \<le> int n - 1" "0 \<le> int n - 2" using assms by auto
  then show ?thesis
    unfolding modbus_rtu_check_integrity_def idx be16_or rtu_crc_ok_def
    using assms by (simp add: crc16_eq_ref crc idx Let_def)
qed

lemma rtu_crc_ok_frame: "take n msg = rtu_frame sft body \<Longrightarrow> n = length body + 4 \<Longrightarrow> rtu_crc_ok msg n"
proof -
  assume f: "take n msg = rtu_frame sft body" and n: "n = length body + 4"
  let ?m = "word_of_int (sft_slave sft) # word_of_int (sft_function sft) # body"
  have frame: "rtu_frame sft body = ?m @ [lo8 (crc_ref ?m), hi8 (crc_ref ?m)]" by (simp only: rtu_frame_def Let_def)
  have pre: "take (n - 2) msg = ?m"
    using arg_cong [OF f, of "take (n - 2)"] n by (simp add: frame min_def)
  have "n \<le> length msg" using arg_cong [OF f, of length] n by (simp add: frame)
  then have "msg ! (n - 2) = rtu_frame sft body ! (n - 2)" "msg ! (n - 1) = rtu_frame sft body ! (n - 1)"
    using f n nth_take [of "n - 2" n msg] nth_take [of "n - 1" n msg] by simp_all
  then show ?thesis
    by (simp add: rtu_crc_ok_def pre) (simp add: frame n nth_append)
qed

lemma crc_bytes_inj: "lo8 c = lo8 d \<Longrightarrow> hi8 c = hi8 d \<Longrightarrow> c = d"
  by (metis word_of_be16)

text \<open>Any change of a single byte of a frame shows, in the message or in its CRC.\<close>

lemma rtu_frame_changed:
  assumes "i < length (rtu_frame sft body)" and "b \<noteq> rtu_frame sft body ! i"
  shows "\<not> rtu_crc_ok ((rtu_frame sft body)[i := b]) (length body + 4)"
proof -
  define m where "m = (word_of_int (sft_slave sft) :: byte) # word_of_int (sft_function sft) # body"
  have f: "rtu_frame sft body = m @ [lo8 (crc_ref m), hi8 (crc_ref m)]" and n: "length body + 4 = length m + 2"
    by (simp_all add: rtu_frame_def Let_def m_def)
  have ok: "rtu_crc_ok (m' @ [x, y]) (length m + 2) \<longleftrightarrow> lo8 (crc_ref m') = x \<and> hi8 (crc_ref m') = y"
    if "length m' = length m" for m' x y
    unfolding rtu_crc_ok_def using that by (simp add: nth_append)
  consider "i < length m" | "i = length m" | "i = Suc (length m)" using assms(1) f by fastforce
  then show ?thesis
  proof cases
    case 1
    then have "crc_ref (m[i := b]) \<noteq> crc_ref m"
      using assms(2) by (intro crc_ref_single_byte) (simp_all add: f nth_append)
    moreover have "(rtu_frame sft body)[i := b] = m[i := b] @ [lo8 (crc_ref m), hi8 (crc_ref m)]"
      using 1 by (simp add: f list_update_append)
    ultimately show ?thesis
      using crc_bytes_inj [of "crc_ref (m[i := b])" "crc_ref m"] by (auto simp only: ok n length_list_update)
  next
    case 2
    then have "(rtu_frame sft body)[i := b] = m @ [b, hi8 (crc_ref m)]" and "b \<noteq> lo8 (crc_ref m)"
      using assms(2) by (simp_all add: f list_update_append)
    then show ?thesis by (simp only: ok n) simp
  next
    case 3
    then have "(rtu_frame sft body)[i := b] = m @ [lo8 (crc_ref m), b]" and "b \<noteq> hi8 (crc_ref m)"
      using assms(2) by (simp_all add: f list_update_append nth_append)
    then show ?thesis by (simp only: ok n) simp
  qed
qed

lemma be_check_integrity_result:
  assumes "2 \<le> n" and "n \<le> length msg" and "n < 65536"
  shows "\<exists>rc w'. be_check_integrity ctx msg n w = Done (rc, w') \<and>
    (rc = -1 \<and> w_errno w' = EMBBADCRC \<or> w' = w \<and> (rc = 0 \<or> rc = int n)) \<and>
    w_tx w' = w_tx w \<and> w_calls w' = w_calls w \<and> w_sent w' = w_sent w \<and> w_fds w' = w_fds w"
proof (cases "is_rtu ctx")
  case True
  obtain r w1 where fl: "modbus_rtu_flush ctx w = (r, w1)" by (cases "modbus_rtu_flush ctx w")
  then have "w_tx w1 = w_tx w \<and> w_calls w1 = w_calls w \<and> w_sent w1 = w_sent w \<and> w_fds w1 = w_fds w"
    by (auto simp: modbus_rtu_flush_def dest!: sys_tcflush_frame)
  with True fl show ?thesis
    by (simp add: be_check_integrity_def rtu_check_integrity_value [OF assms])
qed (simp add: be_check_integrity_def modbus_tcp_check_integrity_def)

text \<open>A frame that is addressed to the context passes the check of its backend.\<close>

lemma be_check_integrity_frame:
  assumes frame: "take n msg = be_frame ctx sft body" and n: "n = header_length ctx + 1 + length body + checksum_length ctx"
    and small: "n < 65536"
    and slave: "is_rtu ctx \<Longrightarrow> uint (word_of_int (sft_slave sft) :: byte) = mb_slave ctx \<or> sft_slave sft mod 256 = MODBUS_BROADCAST_ADDRESS"
  shows "be_check_integrity ctx msg n w = Done (int n, w)"
proof (cases "is_rtu ctx")
  case False
  then show ?thesis by (simp add: be_check_integrity_def modbus_tcp_check_integrity_def)
next
  case True
  then have f: "take n msg = rtu_frame sft body" and n4: "n = length body + 4"
    using frame n backend_lengths(1) [OF True] by (simp_all add: be_frame_def)
  have len: "n \<le> length msg" using arg_cong [OF f, of length] n4 by (simp add: rtu_frame_def Let_def)
  have "msg ! 0 = word_of_int (sft_slave sft)"
    using arg_cong [OF f, of "\<lambda>m. m ! 0"] n4 by (simp add: rtu_frame_def Let_def)
  with True slave [OF True] len n4 small rtu_crc_ok_frame [OF f n4] show ?thesis
    by (simp add: be_check_integrity_def rtu_check_integrity_value uint_word_of_int)
qed

end
