(* ===== verification/Mb_Connect.thy ===== *)
theory Mb_Connect
  imports Mb_Backend
begin

text \<open>
  Opening and closing the link: the sockets of modbus-tcp.c and the serial line of modbus-rtu.c.
  The result of every system call is scripted, so the lemmas hold for every combination of
  failures: a descriptor that is opened and not returned is closed again.
\<close>

section \<open>TCP client\<close>

definition modbus_tcp_set_ipv4_options :: "int \<Rightarrow> world \<Rightarrow> (int \<times> world) outcome" where
  "modbus_tcp_set_ipv4_options s w =
     obind (sys_call w) (\<lambda>(rc, w).
       if rc = -1 then Done (-1, w)
       else obind (sys_call w) (\<lambda>(rc, w). if rc = -1 then Done (-1, w) else Done (0, w)))"

text \<open>
  \<open>_connect\<close>: a connection in progress is awaited with \<open>select\<close>, then \<open>getsockopt\<close> stores the error
  of the socket, the entry of the script after its own result.
\<close>

definition connect :: "int \<Rightarrow> timeval \<Rightarrow> world \<Rightarrow> (int \<times> world) outcome" where
  "connect sockfd ro_tv w =
     obind (sys_call w) (\<lambda>(rc, w).
       if rc = -1 \<and> w_errno w = EINPROGRESS then
         if sockfd \<ge> FD_SETSIZE then Done (fail_errno EINVAL w)
         else obind (sys_call (w\<lparr>w_armed := w_armed w @ [Some ro_tv]\<rparr>)) (\<lambda>(rc, w).
           if rc < 0 then Done (-1, w)
           else if rc = 0 then Done (fail_errno ETIMEDOUT w)
           else obind (sys_call w) (\<lambda>(rc, w). obind (sys_call w) (\<lambda>(optval, w).
             if rc = 0 \<and> optval = 0 then Done (0, w) else Done (fail_errno ECONNREFUSED w))))
       else Done (rc, w))"

definition replace_socket :: "modbus \<Rightarrow> int \<Rightarrow> world \<Rightarrow> modbus \<times> world" where
  "replace_socket ctx s w =
     (ctx\<lparr>mb_s := s\<rparr>, if mb_s ctx \<ge> 0 then sys_close (mb_s ctx) w else w)"

definition modbus_tcp_connect :: "modbus \<Rightarrow> world \<Rightarrow> (int \<times> modbus \<times> world) outcome" where
  "modbus_tcp_connect ctx w =
     obind (sys_open w) (\<lambda>(s, w).
       if s < 0 then Done (-1, ctx, w)
       else if s \<ge> FD_SETSIZE then Done (-1, ctx, set_errno EINVAL (sys_close s w))
       else obind (modbus_tcp_set_ipv4_options s w) (\<lambda>(rc, w).
       if rc = -1 then Done (-1, ctx, sys_close s w)
       else obind (sys_call w) (\<lambda>(rc, w).
       if rc \<le> 0 then Done (-1, ctx, sys_close s w)
       else obind (connect s (mb_response_timeout ctx) w) (\<lambda>(rc, w).
       if rc = -1 then Done (-1, ctx, sys_close s w)
       else (case replace_socket ctx s w of (ctx, w) \<Rightarrow> Done (0, ctx, w))))))"

text \<open>The addresses of the resolver are tried in order; \<open>-1\<close> when none of them connects.\<close>

fun tcp_pi_connect_list :: "modbus \<Rightarrow> bool list \<Rightarrow> world \<Rightarrow> (int \<times> world) outcome" where
  "tcp_pi_connect_list ctx [] w = Done (-1, w)"
| "tcp_pi_connect_list ctx (inet # ai_next) w =
     obind (sys_open w) (\<lambda>(s, w).
       if s < 0 then tcp_pi_connect_list ctx ai_next w
       else if s \<ge> FD_SETSIZE then tcp_pi_connect_list ctx ai_next (sys_close s w)
       else obind (if inet then obind (modbus_tcp_set_ipv4_options s w) (\<lambda>(_, w). Done w) else Done w) (\<lambda>w.
       obind (connect s (mb_response_timeout ctx) w) (\<lambda>(rc, w).
         if rc = -1 then tcp_pi_connect_list ctx ai_next (sys_close s w) else Done (s, w))))"

definition modbus_tcp_pi_connect :: "modbus \<Rightarrow> world \<Rightarrow> (int \<times> modbus \<times> world) outcome" where
  "modbus_tcp_pi_connect ctx w =
     obind (sys_call w) (\<lambda>(rc, w).
       if rc \<noteq> 0 then Done (-1, ctx, set_errno ECONNREFUSED w)
       else obind (tcp_pi_connect_list ctx (w_addrs w) w) (\<lambda>(new_s, w).
         if new_s < 0 then Done (-1, ctx, w)
         else (case replace_socket ctx new_s w of (ctx, w) \<Rightarrow> Done (0, ctx, w))))"

definition modbus_tcp_close :: "modbus \<Rightarrow> world \<Rightarrow> (modbus \<times> world) outcome" where
  "modbus_tcp_close ctx w =
     (if mb_s ctx \<ge> 0 then
        obind (sys_call w) (\<lambda>(_, w). Done (ctx\<lparr>mb_s := -1\<rparr>, sys_close (mb_s ctx) w))
      else Done (ctx, w))"

section \<open>TCP server\<close>

definition close_fail :: "int \<Rightarrow> world \<Rightarrow> (int \<times> world) outcome" where
  "close_fail s w = Done (-1, sys_close s w)"

text \<open>\<open>backend_data\<close> is read as the structure of the backend; another one is not an answer of the code.\<close>

definition modbus_tcp_listen :: "modbus option \<Rightarrow> int \<Rightarrow> world \<Rightarrow> (int \<times> world) outcome" where
  "modbus_tcp_listen ctx nb_connection w =
     (case ctx of None \<Rightarrow> Done (fail_errno EINVAL w) | Some c \<Rightarrow>
     (case mb_backend c of Rtu _ \<Rightarrow> Fault | TcpPi _ \<Rightarrow> Fault | Tcp ctx_tcp \<Rightarrow>
      obind (sys_open w) (\<lambda>(new_s, w).
      if new_s = -1 then Done (-1, w)
      else obind (sys_call w) (\<lambda>(rc, w).
      if rc = -1 then close_fail new_s w
      else obind (if tcp_ip ctx_tcp \<noteq> [] \<and> hd (tcp_ip ctx_tcp) = CHR ''0'' then Done (1, w) else sys_call w) (\<lambda>(rc, w).
      if rc \<le> 0 then close_fail new_s w
      else obind (sys_call w) (\<lambda>(rc, w).
      if rc = -1 then close_fail new_s w
      else obind (sys_call w) (\<lambda>(rc, w).
      if rc = -1 then close_fail new_s w else Done (new_s, w))))))))"

fun tcp_pi_listen_list :: "bool list \<Rightarrow> world \<Rightarrow> (int \<times> world) outcome" where
  "tcp_pi_listen_list [] w = Done (-1, w)"
| "tcp_pi_listen_list (inet # ai_next) w =
     obind (sys_open w) (\<lambda>(s, w).
       if s < 0 then tcp_pi_listen_list ai_next w
       else obind (sys_call w) (\<lambda>(rc, w).
       if rc \<noteq> 0 then tcp_pi_listen_list ai_next (sys_close s w)
       else obind (sys_call w) (\<lambda>(rc, w).
       if rc \<noteq> 0 then tcp_pi_listen_list ai_next (sys_close s w)
       else obind (sys_call w) (\<lambda>(rc, w).
       if rc \<noteq> 0 then tcp_pi_listen_list ai_next (sys_close s w)
       else Done (s, w)))))"

definition modbus_tcp_pi_listen :: "modbus option \<Rightarrow> int \<Rightarrow> world \<Rightarrow> (int \<times> world) outcome" where
  "modbus_tcp_pi_listen ctx nb_connection w =
     (case ctx of None \<Rightarrow> Done (fail_errno EINVAL w) | Some c \<Rightarrow>
     (case mb_backend c of Rtu _ \<Rightarrow> Fault | Tcp _ \<Rightarrow> Fault | TcpPi ctx_tcp_pi \<Rightarrow>
      obind (sys_call w) (\<lambda>(rc, w).
        if rc \<noteq> 0 then Done (fail_errno ECONNREFUSED w)
        else obind (tcp_pi_listen_list (w_addrs w) w) (\<lambda>(new_s, w).
          if new_s < 0 then Done (-1, w) else Done (new_s, w)))))"

definition modbus_tcp_accept :: "modbus option \<Rightarrow> world \<Rightarrow> (int \<times> modbus option \<times> world) outcome" where
  "modbus_tcp_accept ctx w =
     (case ctx of None \<Rightarrow> Done (-1, None, set_errno EINVAL w) | Some c \<Rightarrow>
      obind (sys_open w) (\<lambda>(s, w).
        let c = c\<lparr>mb_s := s\<rparr> in
        if mb_s c < 0 then Done (-1, Some c, w)
        else if mb_s c \<ge> FD_SETSIZE then Done (-1, Some (c\<lparr>mb_s := -1\<rparr>), set_errno EINVAL (sys_close (mb_s c) w))
        else Done (mb_s c, Some c, w)))"

definition modbus_tcp_pi_accept :: "modbus option \<Rightarrow> world \<Rightarrow> (int \<times> modbus option \<times> world) outcome" where
  "modbus_tcp_pi_accept ctx w =
     (case ctx of None \<Rightarrow> Done (-1, None, set_errno EINVAL w) | Some c \<Rightarrow>
      obind (sys_open w) (\<lambda>(s, w).
        let c = c\<lparr>mb_s := s\<rparr> in
        if mb_s c < 0 then Done (-1, Some c, w)
        else if mb_s c \<ge> FD_SETSIZE then Done (-1, Some (c\<lparr>mb_s := -1\<rparr>), set_errno EINVAL (sys_close (mb_s c) w))
        else Done (mb_s c, Some c, w)))"

section \<open>Serial line\<close>

text \<open>The constants of \<open>termios.h\<close> on the modelled platform.\<close>

definition BOTHER :: u32 where "BOTHER = 0x1000"
definition CSIZE :: u32 where "CSIZE = 0x30"
definition CS5 :: u32 where "CS5 = 0"
definition CS6 :: u32 where "CS6 = 0x10"
definition CS7 :: u32 where "CS7 = 0x20"
definition CS8 :: u32 where "CS8 = 0x30"
definition CSTOPB :: u32 where "CSTOPB = 0x40"
definition CREAD :: u32 where "CREAD = 0x80"
definition PARENB :: u32 where "PARENB = 0x100"
definition PARODD :: u32 where "PARODD = 0x200"
definition CLOCAL :: u32 where "CLOCAL = 0x800"
definition ISIG :: u32 where "ISIG = 0x1"
definition ICANON :: u32 where "ICANON = 0x2"
definition ECHO :: u32 where "ECHO = 0x8"
definition ECHOE :: u32 where "ECHOE = 0x10"
definition INPCK :: u32 where "INPCK = 0x10"
definition IXON :: u32 where "IXON = 0x400"
definition IXANY :: u32 where "IXANY = 0x800"
definition IXOFF :: u32 where "IXOFF = 0x1000"
definition OPOST :: u32 where "OPOST = 0x1"

lemmas termios_consts =
  BOTHER_def CSIZE_def CS5_def CS6_def CS7_def CS8_def CSTOPB_def CREAD_def PARENB_def PARODD_def
  CLOCAL_def ISIG_def ICANON_def ECHO_def ECHOE_def INPCK_def IXON_def IXANY_def IXOFF_def OPOST_def

definition rtu_tios :: "modbus_rtu \<Rightarrow> termios" where
  "rtu_tios ctx_rtu =
     (let c = 0 OR BOTHER;
          c = c OR (CREAD OR CLOCAL);
          c = c AND NOT CSIZE;
          c = c OR (if rtu_data_bit ctx_rtu = 5 then CS5 else if rtu_data_bit ctx_rtu = 6 then CS6
                    else if rtu_data_bit ctx_rtu = 7 then CS7 else CS8);
          c = (if rtu_stop_bit ctx_rtu = 1 then c AND NOT CSTOPB else c OR CSTOPB);
          c = (if rtu_parity ctx_rtu = CHR ''N'' then c AND NOT PARENB
               else if rtu_parity ctx_rtu = CHR ''E'' then (c OR PARENB) AND NOT PARODD
               else (c OR PARENB) OR PARODD);
          l = 0 AND NOT (ICANON OR ECHO OR ECHOE OR ISIG);
          i = (if rtu_parity ctx_rtu = CHR ''N'' then 0 AND NOT INPCK else 0 OR INPCK);
          i = i AND NOT (IXON OR IXOFF OR IXANY);
          oflag = 0 AND NOT OPOST
      in \<lparr>c_iflag = i, c_oflag = oflag, c_cflag = c, c_lflag = l,
          c_ispeed = rtu_baud ctx_rtu, c_ospeed = rtu_baud ctx_rtu, c_vmin = 0, c_vtime = 0\<rparr>)"

definition modbus_rtu_connect :: "modbus \<Rightarrow> modbus_rtu \<Rightarrow> world \<Rightarrow> (int \<times> modbus \<times> world) outcome" where
  "modbus_rtu_connect ctx ctx_rtu w =
     obind (sys_open w) (\<lambda>(s, w).
       let ctx = ctx\<lparr>mb_s := s\<rparr> in
       if mb_s ctx < 0 then Done (-1, ctx, w)
       else obind (sys_call w) (\<lambda>(rc, w).
         if rc < 0 then Done (-1, ctx\<lparr>mb_s := -1\<rparr>, sys_close (mb_s ctx) w)
         else
           let ctx_rtu = ctx_rtu\<lparr>rtu_old_tios := w_tios w\<rparr>; ctx = ctx\<lparr>mb_backend := Rtu ctx_rtu\<rparr>;
               tios = rtu_tios ctx_rtu in
           obind (sys_call w) (\<lambda>(rc, w).
             if rc < 0 then Done (-1, ctx\<lparr>mb_s := -1\<rparr>, sys_close (mb_s ctx) w)
             else Done (0, ctx, w\<lparr>w_tios := tios\<rparr>))))"

definition modbus_rtu_close :: "modbus \<Rightarrow> modbus_rtu \<Rightarrow> world \<Rightarrow> (modbus \<times> world) outcome" where
  "modbus_rtu_close ctx ctx_rtu w =
     (if mb_s ctx \<ge> 0 then
        obind (sys_call w) (\<lambda>(rc, w).
          let w = (if rc < 0 then w else w\<lparr>w_tios := rtu_old_tios ctx_rtu\<rparr>) in
          Done (ctx\<lparr>mb_s := -1\<rparr>, sys_close (mb_s ctx) w))
      else Done (ctx, w))"

section \<open>Dispatch\<close>

definition be_connect :: "modbus \<Rightarrow> world \<Rightarrow> (int \<times> modbus \<times> world) outcome" where
  "be_connect ctx w =
     (case mb_backend ctx of
        Rtu r \<Rightarrow> modbus_rtu_connect ctx r w
      | Tcp t \<Rightarrow> modbus_tcp_connect ctx w
      | TcpPi t \<Rightarrow> modbus_tcp_pi_connect ctx w)"

definition be_close :: "modbus \<Rightarrow> world \<Rightarrow> (modbus \<times> world) outcome" where
  "be_close ctx w =
     (case mb_backend ctx of
        Rtu r \<Rightarrow> modbus_rtu_close ctx r w
      | Tcp t \<Rightarrow> modbus_tcp_close ctx w
      | TcpPi t \<Rightarrow> modbus_tcp_close ctx w)"

definition modbus_connect :: "modbus option \<Rightarrow> world \<Rightarrow> (int \<times> modbus option \<times> world) outcome" where
  "modbus_connect ctx w =
     (case ctx of None \<Rightarrow> Done (-1, None, set_errno EINVAL w)
      | Some c \<Rightarrow> obind (be_connect c w) (\<lambda>(rc, c, w). Done (rc, Some c, w)))"

definition modbus_close :: "modbus option \<Rightarrow> world \<Rightarrow> (modbus option \<times> world) outcome" where
  "modbus_close ctx w =
     (case ctx of None \<Rightarrow> Done (None, w) | Some c \<Rightarrow> obind (be_close c w) (\<lambda>(c, w). Done (Some c, w)))"

definition modbus_flush :: "modbus option \<Rightarrow> world \<Rightarrow> int \<times> world" where
  "modbus_flush ctx w = (case ctx of None \<Rightarrow> fail_errno EINVAL w | Some c \<Rightarrow> be_flush c w)"

section \<open>Descriptors\<close>

text \<open>
  A step of the world that leaves the descriptors and the transmission alone: what every call but
  \<open>socket\<close>, \<open>open\<close>, \<open>accept\<close> and \<open>close\<close> is.
\<close>

definition quiet :: "world \<Rightarrow> world \<Rightarrow> bool" where
  "quiet w w' \<longleftrightarrow> w_fds w' = w_fds w \<and> w_tx w' = w_tx w \<and> w_sent w' = w_sent w \<and> w_rx w' = w_rx w"

lemma quiet_refl [simp]: "quiet w w"
  by (simp add: quiet_def)

lemma quiet_trans: "quiet w w1 \<Longrightarrow> quiet w1 w2 \<Longrightarrow> quiet w w2"
  by (simp add: quiet_def)

lemma sys_call_quiet: "sys_call w = Done (r, w') \<Longrightarrow> quiet w w'"
  using sys_call_frame [of w r w'] by (simp add: quiet_def)

lemma set_ipv4_quiet: "modbus_tcp_set_ipv4_options s w = Done (rc, w') \<Longrightarrow> quiet w w'"
  by (auto simp: modbus_tcp_set_ipv4_options_def split: if_splits elim!: obind_DoneE dest!: sys_call_quiet)
     (simp_all add: quiet_def)

lemma connect_quiet: "connect s tv w = Done (rc, w') \<Longrightarrow> quiet w w'"
  by (auto simp: connect_def split: if_splits elim!: obind_DoneE dest!: sys_call_quiet)
     (simp_all add: quiet_def)

lemma connect_not_Fault [simp]: "connect s tv w \<noteq> Fault" "modbus_tcp_set_ipv4_options s w \<noteq> Fault"
  by (auto simp: connect_def modbus_tcp_set_ipv4_options_def outcome_iff)

text \<open>The outcome of an operation that opens a descriptor: it is kept, or nothing is left open.\<close>

definition opened :: "int \<Rightarrow> world \<Rightarrow> world \<Rightarrow> bool" where
  "opened s w w' \<longleftrightarrow>
     w_tx w' = w_tx w \<and> w_sent w' = w_sent w \<and> w_rx w' = w_rx w \<and>
     w_fds w' = (if s < 0 then w_fds w else s # w_fds w)"

lemma sys_open_opened: "sys_open w = Done (s, w') \<Longrightarrow> opened s w w'"
  using sys_open_frame [of w s w'] by (simp add: opened_def)

lemma opened_quiet: "opened s w w1 \<Longrightarrow> quiet w1 w2 \<Longrightarrow> opened s w w2"
  by (simp add: opened_def quiet_def)

lemma opened_closed: "opened s w w1 \<Longrightarrow> 0 \<le> s \<Longrightarrow> quiet w (sys_close s w1)"
  by (simp add: opened_def quiet_def)

lemma opened_neg: "s < 0 \<Longrightarrow> opened s w w1 \<longleftrightarrow> quiet w w1"
  by (auto simp: opened_def quiet_def)

lemma quiet_set_errno [simp]: "quiet w (set_errno e w') \<longleftrightarrow> quiet w w'"
  by (simp add: quiet_def)

lemma quiet_opened: "quiet w w1 \<Longrightarrow> opened s w1 w2 \<Longrightarrow> opened s w w2"
  by (simp add: opened_def quiet_def)

lemma tcp_connect_result:
  assumes "modbus_tcp_connect ctx w = Done (rc, ctx', w')"
  shows "rc = -1 \<and> ctx' = ctx \<and> quiet w w' \<or>
    (\<exists>s w1. rc = 0 \<and> 0 \<le> s \<and> s < FD_SETSIZE \<and> opened s w w1 \<and> (ctx', w') = replace_socket ctx s w1)"
proof -
  from assms obtain s w1 where op: "sys_open w = Done (s, w1)"
    by (auto simp: modbus_tcp_connect_def elim!: obind_DoneE)
  note o = sys_open_opened [OF op]
  show ?thesis
  proof (cases "s < 0 \<or> s \<ge> FD_SETSIZE")
    case True
    with assms op o opened_closed [OF o] show ?thesis
      by (auto simp: modbus_tcp_connect_def opened_neg)
  next
    case False
    with assms op obtain r2 w2 where opt: "modbus_tcp_set_ipv4_options s w1 = Done (r2, w2)"
      by (auto simp: modbus_tcp_connect_def elim!: obind_DoneE)
    note o2 = opened_quiet [OF o set_ipv4_quiet [OF opt]]
    show ?thesis
    proof (cases "r2 = -1")
      case True
      with False assms op opt opened_closed [OF o2] show ?thesis by (auto simp: modbus_tcp_connect_def)
    next
      case opts: False
      with False assms op opt obtain r3 w3 where pton: "sys_call w2 = Done (r3, w3)"
        by (auto simp: modbus_tcp_connect_def elim!: obind_DoneE)
      note o3 = opened_quiet [OF o2 sys_call_quiet [OF pton]]
      show ?thesis
      proof (cases "r3 \<le> 0")
        case True
        with False opts assms op opt pton opened_closed [OF o3] show ?thesis by (auto simp: modbus_tcp_connect_def)
      next
        case pton_ok: False
        with False opts assms op opt pton obtain r4 w4 where co: "connect s (mb_response_timeout ctx) w3 = Done (r4, w4)"
          by (auto simp: modbus_tcp_connect_def elim!: obind_DoneE)
        note o4 = opened_quiet [OF o3 connect_quiet [OF co]]
        from pton_ok False opts assms op opt pton co o4 opened_closed [OF o4] show ?thesis
          by (auto simp: modbus_tcp_connect_def split: if_splits prod.splits intro!: exI [of _ s] exI [of _ w4])
      qed
    qed
  qed
qed

lemma tcp_pi_connect_list_result:
  "tcp_pi_connect_list ctx ais w = Done (s, w') \<Longrightarrow> (s < 0 \<longrightarrow> s = -1) \<and> s < FD_SETSIZE \<and> opened s w w'"
proof (induction ctx ais w arbitrary: s w' rule: tcp_pi_connect_list.induct)
  case (1 ctx w)
  then show ?case by (simp add: opened_neg)
next
  case (2 ctx inet ais w)
  from "2.prems" obtain s1 w1 where op: "sys_open w = Done (s1, w1)" by (auto elim!: obind_DoneE)
  note o = sys_open_opened [OF op]
  show ?case
  proof (cases "s1 < 0 \<or> s1 \<ge> FD_SETSIZE")
    case True
    with "2.prems" op o opened_closed [OF o] "2.IH"(1,2) [OF op refl] show ?thesis
      by (auto simp: opened_neg intro: quiet_opened)
  next
    case False
    with "2.prems" op obtain w2 where opt:
        "(if inet then obind (modbus_tcp_set_ipv4_options s1 w1) (\<lambda>(_, w). Done w) else Done w1) = Done w2"
      by (auto simp del: obind.simps elim!: obind_DoneE)
    then have "quiet w1 w2" by (auto split: if_splits elim!: obind_DoneE dest: set_ipv4_quiet)
    note o2 = opened_quiet [OF o this]
    from False "2.prems" op opt obtain r3 w3 where co: "connect s1 (mb_response_timeout ctx) w2 = Done (r3, w3)"
      by (auto elim!: obind_DoneE)
    note o3 = opened_quiet [OF o2 connect_quiet [OF co]]
    from False "2.prems" op opt co o3 opened_closed [OF o3] "2.IH"(3) [OF op refl _ _ opt co refl] show ?thesis
      by (auto split: if_splits intro: quiet_opened)
  qed
qed

lemma tcp_pi_connect_result:
  assumes "modbus_tcp_pi_connect ctx w = Done (rc, ctx', w')"
  shows "rc = -1 \<and> ctx' = ctx \<and> quiet w w' \<or>
    (\<exists>s w1. rc = 0 \<and> 0 \<le> s \<and> s < FD_SETSIZE \<and> opened s w w1 \<and> (ctx', w') = replace_socket ctx s w1)"
proof -
  from assms obtain r w1 where gai: "sys_call w = Done (r, w1)"
    by (auto simp: modbus_tcp_pi_connect_def elim!: obind_DoneE)
  note q = sys_call_quiet [OF gai]
  show ?thesis
  proof (cases "r = 0")
    case False
    with assms gai q show ?thesis by (auto simp: modbus_tcp_pi_connect_def)
  next
    case True
    with assms gai obtain s w2 where li: "tcp_pi_connect_list ctx (w_addrs w1) w1 = Done (s, w2)"
      by (auto simp: modbus_tcp_pi_connect_def elim!: obind_DoneE)
    from tcp_pi_connect_list_result [OF li] have o: "opened s w w2" "s < FD_SETSIZE"
      using quiet_opened [OF q] by auto
    show ?thesis
    proof (cases "s < 0")
      case True
      with assms \<open>r = 0\<close> gai li o(1) show ?thesis by (auto simp: modbus_tcp_pi_connect_def opened_neg)
    next
      case False
      with assms \<open>r = 0\<close> gai li o show ?thesis
        by (auto simp: modbus_tcp_pi_connect_def split: prod.splits intro!: exI [of _ s] exI [of _ w2])
    qed
  qed
qed

text \<open>
  What opening and closing may change of a context: its descriptor, and the saved settings of the
  line. \<open>unlinked\<close> forgets both.
\<close>

definition no_tios :: termios where
  "no_tios = \<lparr>c_iflag = 0, c_oflag = 0, c_cflag = 0, c_lflag = 0, c_ispeed = 0, c_ospeed = 0, c_vmin = 0, c_vtime = 0\<rparr>"

definition unlinked :: "modbus \<Rightarrow> modbus" where
  "unlinked ctx = ctx\<lparr>mb_s := -1,
     mb_backend := (case mb_backend ctx of Rtu r \<Rightarrow> Rtu (r\<lparr>rtu_old_tios := no_tios\<rparr>) | d \<Rightarrow> d)\<rparr>"

definition relinked :: "modbus \<Rightarrow> modbus \<Rightarrow> bool" where
  "relinked ctx ctx' \<longleftrightarrow> unlinked ctx' = unlinked ctx"

lemma relinked_refl [simp]: "relinked ctx ctx"
  by (simp add: relinked_def)

lemma relinked_trans: "relinked ctx ctx1 \<Longrightarrow> relinked ctx1 ctx2 \<Longrightarrow> relinked ctx ctx2"
  by (simp add: relinked_def)

lemma relinked_socket [simp]: "relinked ctx (ctx\<lparr>mb_s := s\<rparr>)"
  by (simp add: relinked_def unlinked_def)

lemma relinked_tios:
  "mb_backend ctx = Rtu r \<Longrightarrow> relinked ctx (ctx\<lparr>mb_s := s, mb_backend := Rtu (r\<lparr>rtu_old_tios := t\<rparr>)\<rparr>)"
  by (simp add: relinked_def unlinked_def)

lemma unlinked_same:
  "is_rtu (unlinked ctx) = is_rtu ctx" "mb_slave (unlinked ctx) = mb_slave ctx"
  "mb_error_recovery (unlinked ctx) = mb_error_recovery ctx" "mb_quirks (unlinked ctx) = mb_quirks ctx"
  "mb_response_timeout (unlinked ctx) = mb_response_timeout ctx"
  by (simp_all add: unlinked_def is_rtu_def split: backend_data.splits)

lemma relinked_same:
  assumes "relinked ctx ctx'"
  shows "is_rtu ctx' = is_rtu ctx" "mb_slave ctx' = mb_slave ctx" "mb_error_recovery ctx' = mb_error_recovery ctx"
    "mb_quirks ctx' = mb_quirks ctx" "mb_response_timeout ctx' = mb_response_timeout ctx"
  using assms unlinked_same [of ctx] unlinked_same [of ctx'] by (auto simp: relinked_def)

lemma relinked_backend:
  assumes "relinked ctx ctx'"
  shows "header_length ctx' = header_length ctx" "checksum_length ctx' = checksum_length ctx"
    "be_frame ctx' = be_frame ctx" "max_adu_length ctx' = max_adu_length ctx"
  using relinked_same(1) [OF assms]
  by (simp_all add: header_length_def checksum_length_def be_frame_def max_adu_length_def)

lemma rtu_connect_result:
  assumes "modbus_rtu_connect ctx r w = Done (rc, ctx', w')" and backend: "mb_backend ctx = Rtu r"
  shows "rc = -1 \<and> mb_s ctx' < 0 \<and> quiet w w' \<and> relinked ctx ctx' \<or>
    rc = 0 \<and> (\<exists>s. 0 \<le> s \<and> opened s w w' \<and> w_tios w' = rtu_tios r \<and>
      ctx' = ctx\<lparr>mb_s := s, mb_backend := Rtu (r\<lparr>rtu_old_tios := w_tios w\<rparr>)\<rparr>)"
proof -
  from assms obtain s w1 where op: "sys_open w = Done (s, w1)"
    by (auto simp: modbus_rtu_connect_def elim!: obind_DoneE)
  note o = sys_open_opened [OF op]
  have tios1: "w_tios w1 = w_tios w"
    using op by (auto simp: sys_open_def sys_call_def outcome_iff split: list.splits if_splits)
  show ?thesis
  proof (cases "s < 0")
    case True
    with assms op o show ?thesis by (auto simp: modbus_rtu_connect_def opened_neg)
  next
    case False
    with assms op obtain r2 w2 where g: "sys_call w1 = Done (r2, w2)"
      by (auto simp: modbus_rtu_connect_def Let_def elim!: obind_DoneE)
    note o2 = opened_quiet [OF o sys_call_quiet [OF g]]
    have tios2: "w_tios w2 = w_tios w"
      using g tios1 by (auto simp: sys_call_def split: list.splits)
    show ?thesis
    proof (cases "r2 < 0")
      case True
      with False assms op g opened_closed [OF o2] show ?thesis
        by (auto simp: modbus_rtu_connect_def Let_def)
    next
      case ok: False
      with False assms op g obtain r3 w3 where st: "sys_call w2 = Done (r3, w3)"
        by (auto simp: modbus_rtu_connect_def Let_def elim!: obind_DoneE)
      note o3 = opened_quiet [OF o2 sys_call_quiet [OF st]]
      have "rtu_tios (r\<lparr>rtu_old_tios := t\<rparr>) = rtu_tios r" for t by (simp add: rtu_tios_def)
      moreover have "relinked ctx (ctx\<lparr>mb_backend := Rtu (r\<lparr>rtu_old_tios := t\<rparr>), mb_s := x\<rparr>)" for t x
        using backend by (simp add: relinked_def unlinked_def)
      ultimately show ?thesis
        using ok False assms op g st o3 opened_closed [OF o3] tios2
        by (auto simp: modbus_rtu_connect_def Let_def opened_def split: if_splits)
    qed
  qed
qed

lemma be_connect_result:
  assumes "be_connect ctx w = Done (rc, ctx', w')"
  shows "relinked ctx ctx' \<and> w_tx w' = w_tx w \<and> w_sent w' = w_sent w \<and> w_rx w' = w_rx w \<and> (rc = 0 \<or> rc = -1)"
proof (cases "mb_backend ctx")
  case (Rtu r)
  with assms have "modbus_rtu_connect ctx r w = Done (rc, ctx', w')" by (simp add: be_connect_def)
  from rtu_connect_result [OF this Rtu] Rtu show ?thesis
    by (auto simp: quiet_def opened_def relinked_socket relinked_tios)
next
  case (Tcp t)
  with assms have "modbus_tcp_connect ctx w = Done (rc, ctx', w')" by (simp add: be_connect_def)
  from tcp_connect_result [OF this] show ?thesis
    by (auto simp: quiet_def opened_def replace_socket_def relinked_socket)
next
  case (TcpPi t)
  with assms have "modbus_tcp_pi_connect ctx w = Done (rc, ctx', w')" by (simp add: be_connect_def)
  from tcp_pi_connect_result [OF this] show ?thesis
    by (auto simp: quiet_def opened_def replace_socket_def relinked_socket)
qed

lemma be_close_result:
  assumes "be_close ctx w = Done (ctx', w')"
  shows "relinked ctx ctx' \<and> mb_s ctx' < 0 \<and> w_tx w' = w_tx w \<and> w_sent w' = w_sent w \<and> w_rx w' = w_rx w \<and>
    w_fds w' = (if mb_s ctx < 0 then w_fds w else remove1 (mb_s ctx) (w_fds w))"
  using assms
  by (auto simp: be_close_def modbus_rtu_close_def modbus_tcp_close_def Let_def relinked_socket
           split: backend_data.splits if_splits elim!: obind_DoneE dest!: sys_call_frame)

lemma be_close_not_Fault [simp]: "be_close ctx w \<noteq> Fault"
  by (auto simp: be_close_def modbus_rtu_close_def modbus_tcp_close_def Let_def outcome_iff split: backend_data.splits)

lemma tcp_pi_connect_list_not_Fault [simp]: "tcp_pi_connect_list ctx ais w \<noteq> Fault"
  by (induction ctx ais w rule: tcp_pi_connect_list.induct) (auto simp: outcome_iff split: if_splits)

lemma be_connect_not_Fault [simp]: "be_connect ctx w \<noteq> Fault"
  by (auto simp: be_connect_def modbus_rtu_connect_def modbus_tcp_connect_def modbus_tcp_pi_connect_def
        Let_def outcome_iff split: backend_data.splits if_splits prod.splits)

end
