(* ===== verification/Mb_Send.thy ===== *)
theory Mb_Send
  imports Mb_Connect
begin

text \<open>
  Sending a message (modbus.c): \<open>send_msg\<close> closes the frame and writes it, again and again in link
  recovery mode, and the raw requests built on it. The lemmas say what reaches the wire: nothing,
  a prefix that is reported as an error, or the whole frame once.
\<close>

definition sleep_response_timeout :: "modbus \<Rightarrow> world \<Rightarrow> world" where
  "sleep_response_timeout ctx w = sys_sleep (mb_response_timeout ctx) w"

definition recover_link :: "modbus \<Rightarrow> world \<Rightarrow> (modbus \<times> world) outcome" where
  "recover_link ctx w =
     (let saved_errno = w_errno w in
      obind
        (if w_errno w = EBADF \<or> w_errno w = ECONNRESET \<or> w_errno w = EPIPE then
           obind (be_close ctx w) (\<lambda>(ctx, w).
           let w = sleep_response_timeout ctx w in
           obind (be_connect ctx w) (\<lambda>(_, ctx, w). Done (ctx, w)))
         else
           let w = sleep_response_timeout ctx w in
           Done (ctx, snd (be_flush ctx w)))
        (\<lambda>(ctx, w). Done (ctx, set_errno saved_errno w)))"

lemma recover_link_result:
  assumes "recover_link ctx w = Done (ctx', w')"
  shows "relinked ctx ctx' \<and> w_tx w' = w_tx w \<and> w_sent w' = w_sent w \<and> w_errno w' = w_errno w"
proof (cases "w_errno w = EBADF \<or> w_errno w = ECONNRESET \<or> w_errno w = EPIPE")
  case True
  with assms obtain ctx1 w1 rc ctx2 w2 where
      1: "be_close ctx w = Done (ctx1, w1)" and
      2: "be_connect ctx1 (sleep_response_timeout ctx1 w1) = Done (rc, ctx2, w2)" and
      3: "ctx' = ctx2" "w' = set_errno (w_errno w) w2"
    by (auto simp: recover_link_def Let_def elim!: obind_DoneE)
  from be_close_result [OF 1] be_connect_result [OF 2] 3 show ?thesis
    by (auto simp: sleep_response_timeout_def intro: relinked_trans)
next
  case False
  obtain r w1 where fl: "be_flush ctx (sleep_response_timeout ctx w) = (r, w1)"
    by (cases "be_flush ctx (sleep_response_timeout ctx w)")
  from be_flush_frame [OF fl] have "w_tx w1 = w_tx w" "w_sent w1 = w_sent w"
    by (simp_all add: sleep_response_timeout_def)
  with False fl assms show ?thesis by (auto simp: recover_link_def Let_def)
qed

lemma recover_link_not_Fault [simp]: "recover_link ctx w \<noteq> Fault"
  by (auto simp: recover_link_def Let_def outcome_iff)

text \<open>The loop of \<open>send_msg\<close>. Each turn consumes a result of \<open>send\<close>, so a script bounds the turns.\<close>

function send_loop :: "modbus \<Rightarrow> byte list \<Rightarrow> world \<Rightarrow> (int \<times> modbus \<times> world) outcome" where
  "send_loop ctx msg w =
     (case be_send ctx msg w of
        Fault \<Rightarrow> Fault
      | Pending \<Rightarrow> Pending
      | Done (rc, w1) \<Rightarrow>
          if rc = -1 \<and> link_recovery ctx then
            (case recover_link ctx w1 of
               Fault \<Rightarrow> Fault
             | Pending \<Rightarrow> Pending
             | Done (ctx2, w2) \<Rightarrow> send_loop ctx2 msg w2)
          else Done (rc, ctx, w1))"
  by pat_completeness auto
termination
  by (relation "measure (\<lambda>(ctx, msg, w). length (w_tx w))")
     (auto dest!: be_send_result recover_link_result)

declare send_loop.simps [simp del]

definition send_msg :: "modbus \<Rightarrow> byte list \<Rightarrow> nat \<Rightarrow> world \<Rightarrow> (int \<times> modbus \<times> byte list \<times> world) outcome" where
  "send_msg ctx msg msg_length w =
     obind (be_send_msg_pre ctx msg msg_length) (\<lambda>(msg_length, msg).
     obind (send_loop ctx (take msg_length msg) w) (\<lambda>(rc, ctx, w).
       if rc > 0 \<and> rc \<noteq> int msg_length then Done (-1, ctx, msg, set_errno EMBBADDATA w)
       else Done (rc, ctx, msg, w)))"

text \<open>What the loop leaves: the last attempt is the only one that wrote anything.\<close>

lemma send_loop_result:
  "send_loop ctx msg w = Done (rc, ctx', w') \<Longrightarrow>
   relinked ctx ctx' \<and> length (w_tx w') < length (w_tx w) \<and>
   (rc = -1 \<and> \<not> link_recovery ctx \<and> w_sent w' = w_sent w \<or>
    (\<exists>n. rc = int (length (take n msg)) \<and> w_sent w' = w_sent w @ [take n msg]))"
proof (induction ctx msg w rule: send_loop.induct)
  case (1 ctx msg w)
  from "1.prems" obtain rc1 w1 where snd: "be_send ctx msg w = Done (rc1, w1)"
    by (auto simp: send_loop.simps [of ctx msg w] split: outcome.splits)
  note s = be_send_result [OF snd]
  show ?case
  proof (cases "rc1 = -1 \<and> link_recovery ctx")
    case False
    with "1.prems" snd s show ?thesis by (auto simp: send_loop.simps [of ctx msg w])
  next
    case True
    with "1.prems" snd obtain ctx2 w2 where rec: "recover_link ctx w1 = Done (ctx2, w2)"
        and rest: "send_loop ctx2 msg w2 = Done (rc, ctx', w')"
      by (auto simp: send_loop.simps [of ctx msg w] split: outcome.splits)
    note r = recover_link_result [OF rec]
    then have "link_recovery ctx2" using True relinked_same(3) [of ctx ctx2] by (simp add: link_recovery_def)
    with True s r "1.IH" [OF snd refl _ rec refl rest] show ?thesis
      by (auto intro: relinked_trans)
  qed
qed

lemma send_loop_not_Fault [simp]: "send_loop ctx msg w \<noteq> Fault"
proof (induction ctx msg w rule: send_loop.induct)
  case (1 ctx msg w)
  show ?case
  proof
    assume fault: "send_loop ctx msg w = Fault"
    have "be_send ctx msg w \<noteq> Fault" by simp
    with fault obtain rc1 w1 where snd: "be_send ctx msg w = Done (rc1, w1)"
      by (cases "be_send ctx msg w") (auto simp: send_loop.simps [of ctx msg w])
    have "recover_link ctx w1 \<noteq> Fault" by simp
    with fault snd obtain ctx2 w2 where rec: "recover_link ctx w1 = Done (ctx2, w2)"
        and "rc1 = -1 \<and> link_recovery ctx" and "send_loop ctx2 msg w2 = Fault"
      by (cases "recover_link ctx w1") (auto simp: send_loop.simps [of ctx msg w] split: if_splits)
    with "1.IH" [OF snd refl _ rec refl] show False by simp
  qed
qed

text \<open>Sending the bytes of a frame: what \<open>send_msg\<close> does once the frame is closed.\<close>

definition send_frame :: "modbus \<Rightarrow> byte list \<Rightarrow> world \<Rightarrow> (int \<times> modbus \<times> world) outcome" where
  "send_frame ctx f w =
     obind (send_loop ctx f w) (\<lambda>(rc, ctx, w).
       if rc > 0 \<and> rc \<noteq> int (length f) then Done (-1, ctx, set_errno EMBBADDATA w) else Done (rc, ctx, w))"

text \<open>
  \<open>send_msg\<close> of a buffer that holds the header and body of a message sends its frame.
\<close>

lemma send_msg_frame:
  assumes basis: "be_build_response_basis ctx sft rsp = Done (header_length ctx + 1, rsp')"
    and fits: "header_length ctx + 1 \<le> length rsp"
    and head: "take (header_length ctx + 1) msg = take (header_length ctx + 1) rsp'"
    and n: "header_length ctx + 1 \<le> n" "n + checksum_length ctx \<le> length msg" "n < 65536"
  shows "\<exists>msg'. length msg' = length msg \<and>
    take (n + checksum_length ctx) msg' = be_frame ctx sft (drop (header_length ctx + 1) (take n msg)) \<and>
    send_msg ctx msg n w =
      obind (send_frame ctx (be_frame ctx sft (drop (header_length ctx + 1) (take n msg))) w)
        (\<lambda>(rc, ctx, w). Done (rc, ctx, msg', w))"
proof -
  let ?f = "be_frame ctx sft (drop (header_length ctx + 1) (take n msg))"
  from be.close_frame [OF fits basis head n] obtain msg' where
      close: "be_send_msg_pre ctx msg n = Done (n + checksum_length ctx, msg')"
    and len: "length msg' = length msg" and f: "take (n + checksum_length ctx) msg' = ?f" by blast
  have "length ?f = n + checksum_length ctx"
    using n by (simp add: be.frame_length)
  then have "send_msg ctx msg n w = obind (send_frame ctx ?f w) (\<lambda>(rc, ctx, w). Done (rc, ctx, msg', w))"
    by (cases "send_loop ctx ?f w") (auto simp: send_msg_def close f send_frame_def)
  with len f show ?thesis by blast
qed

lemma send_frame_result:
  assumes "send_frame ctx f w = Done (rc, ctx', w')"
  shows "relinked ctx ctx' \<and>
    (rc = -1 \<and> (w_sent w' = w_sent w \<or> (\<exists>k. 0 < k \<and> k < length f \<and> w_errno w' = EMBBADDATA \<and> w_sent w' = w_sent w @ [take k f])) \<or>
     rc = 0 \<and> w_sent w' = w_sent w @ [[]] \<or>
     rc = int (length f) \<and> w_sent w' = w_sent w @ [f])"
proof -
  from assms obtain rc1 ctx1 w1 where l: "send_loop ctx f w = Done (rc1, ctx1, w1)"
    by (auto simp: send_frame_def elim!: obind_DoneE)
  from send_loop_result [OF l] have r: "relinked ctx ctx1" by simp
  show ?thesis
  proof (cases "rc1 = -1")
    case True
    with l assms send_loop_result [OF l] show ?thesis by (auto simp: send_frame_def)
  next
    case False
    with send_loop_result [OF l] obtain n where n: "rc1 = int (length (take n f))" "w_sent w1 = w_sent w @ [take n f]" by auto
    consider "n = 0 \<or> f = []" | "0 < rc1" "n < length f" | "0 < rc1" "length f \<le> n" using n by force
    then show ?thesis
    proof cases
      case 1
      with n have "take n f = []" "rc1 = 0" by auto
      with n l r assms show ?thesis by (auto simp: send_frame_def)
    next
      case 2
      with n have "rc1 \<noteq> int (length f)" "0 < n" by (auto simp: min_def split: if_splits)
      with 2 n l r assms show ?thesis by (auto simp: send_frame_def)
    next
      case 3
      with n l r assms show ?thesis by (auto simp: send_frame_def)
    qed
  qed
qed

lemma send_frame_not_Fault [simp]: "send_frame ctx f w \<noteq> Fault"
  by (auto simp: send_frame_def outcome_iff)

section \<open>Raw requests\<close>

definition modbus_send_raw_request_tid ::
    "modbus option \<Rightarrow> byte list option \<Rightarrow> int \<Rightarrow> int \<Rightarrow> byte list \<Rightarrow> world \<Rightarrow> (int \<times> modbus option \<times> world) outcome" where
  "modbus_send_raw_request_tid ctx raw_req raw_req_length tid req w =
     (case (ctx, raw_req) of
        (Some c, Some raw_req) \<Rightarrow>
          if raw_req_length < 2 \<or> raw_req_length > MODBUS_MAX_PDU_LENGTH + 1 then Done (-1, ctx, set_errno EINVAL w)
          else
            obind (rd raw_req 0) (\<lambda>r0. obind (rd raw_req 1) (\<lambda>r1.
            let sft = \<lparr>sft_slave = uint r0, sft_function = uint r1, sft_t_id = tid\<rparr> in
            obind (be_build_response_basis c sft req) (\<lambda>(req_length, req).
            obind (if raw_req_length > 2 then
                     obind (memcpy req req_length raw_req 2 (nat (raw_req_length - 2))) (\<lambda>req.
                       Done (req_length + nat (raw_req_length - 2), req))
                   else Done (req_length, req)) (\<lambda>(req_length, req).
            obind (send_msg c req req_length w) (\<lambda>(rc, c, req, w). Done (rc, Some c, w))))))
      | _ \<Rightarrow> Done (-1, ctx, set_errno EINVAL w))"

definition modbus_send_raw_request ::
    "modbus option \<Rightarrow> byte list option \<Rightarrow> int \<Rightarrow> byte list \<Rightarrow> world \<Rightarrow> (int \<times> modbus option \<times> world) outcome" where
  "modbus_send_raw_request ctx raw_req raw_req_length req w =
     modbus_send_raw_request_tid ctx raw_req raw_req_length 0 req w"

text \<open>
  The raw request is sent as the frame of its bytes, whatever the stack buffer \<open>req\<close> of the
  function held: the buffer is never overrun and its contents do not leak.
\<close>

lemma send_raw_request_tid_eq:
  assumes len: "2 \<le> n" "n \<le> 254" "n \<le> int (length raw)" and stack: "length req = MAX_MESSAGE_LENGTH"
  shows "modbus_send_raw_request_tid (Some c) (Some raw) n tid req w =
    obind (send_frame c (be_frame c \<lparr>sft_slave = uint (raw ! 0), sft_function = uint (raw ! 1), sft_t_id = tid\<rparr>
             (drop 2 (take (nat n) raw))) w)
      (\<lambda>(rc, c, w). Done (rc, Some c, w))"
proof -
  let ?h = "header_length c" and ?sft = "\<lparr>sft_slave = uint (raw ! 0), sft_function = uint (raw ! 1), sft_t_id = tid\<rparr>"
  let ?k = "nat (n - 2)"
  have h: "?h + checksum_length c \<le> 7" "0 < ?h" by simp_all
  with stack have fits: "?h + 1 \<le> length req" by (simp add: header_length_def)
  from be.basis_fits [OF fits] obtain req1 where b: "be_build_response_basis c ?sft req = Done (?h + 1, req1)"
    and len1: "length req1 = length req" by blast
  let ?m = "take (?h + 1) req1 @ take ?k (drop 2 raw) @ drop (?h + 1 + ?k) req1"
  have k: "?k \<le> 252" "2 + ?k = nat n" "nat n \<le> length raw" using len by linarith+
  have room: "?h + 1 + ?k + checksum_length c \<le> length req1" using k(1) h(1) len1 stack unfolding MAX_MESSAGE_LENGTH_def by linarith
  have body: "take ?k (drop 2 raw) = drop 2 (take (nat n) raw)"
    unfolding k(2) [symmetric] by (simp add: drop_take)
  have copy: "(if n > 2 then obind (memcpy req1 (?h + 1) raw 2 ?k) (\<lambda>req. Done (?h + 1 + ?k, req)) else Done (?h + 1, req1)) =
      Done (?h + 1 + ?k, ?m)"
    using k room by auto
  have len_m: "length ?m = length req1" and body_m: "drop (?h + 1) (take (?h + 1 + ?k) ?m) = take ?k (drop 2 raw)"
    using k room by auto
  have small: "?h + ?k < 65535" using k(1) h(1) by linarith
  have "\<exists>msg'. length msg' = length ?m \<and>
    take (?h + 1 + ?k + checksum_length c) msg' = be_frame c ?sft (drop (?h + 1) (take (?h + 1 + ?k) ?m)) \<and>
    send_msg c ?m (?h + 1 + ?k) w =
      obind (send_frame c (be_frame c ?sft (drop (?h + 1) (take (?h + 1 + ?k) ?m))) w)
        (\<lambda>(rc, ctx, w). Done (rc, ctx, msg', w))"
    by (rule send_msg_frame [OF b fits]) (use room k len_m small in auto)
  then obtain msg' where "send_msg c ?m (?h + 1 + ?k) w =
      obind (send_frame c (be_frame c ?sft (take ?k (drop 2 raw))) w) (\<lambda>(rc, ctx, w). Done (rc, ctx, msg', w))"
    unfolding body_m by blast
  moreover have "1 < length raw" using k len by linarith
  then have "rd raw 0 = Done (raw ! 0)" "rd raw 1 = Done (raw ! 1)" by (auto intro!: rd_Done)
  then have "modbus_send_raw_request_tid (Some c) (Some raw) n tid req w =
      obind (send_msg c ?m (?h + 1 + ?k) w) (\<lambda>(rc, c, req, w). Done (rc, Some c, w))"
    using len
    by (simp only: modbus_send_raw_request_tid_def prod.case option.case b copy obind.simps Let_def) simp
  ultimately show ?thesis by (simp add: obind_assoc case_prod_unfold body [symmetric])
qed

end
