(* ===== verification/Mb_Receive.thy ===== *)
theory Mb_Receive
  imports Mb_Send
begin

text \<open>
  Receiving a message (modbus.c, and the receive operations of the backends): the length of a
  message is discovered step by step from its function code, its fixed part and its data. The
  lemmas show that the loop ends, that no message overruns a buffer of the size the library asks
  for, that a positive result is a complete message, and that the result does not depend on how the
  bytes are cut into chunks.
\<close>

section \<open>Lengths\<close>

text \<open>The length of the confirmation of a request, \<open>None\<close> when it is not known.\<close>

definition compute_response_length_from_request :: "modbus \<Rightarrow> byte list \<Rightarrow> int option outcome" where
  "compute_response_length_from_request ctx req =
     (let offset = header_length ctx in
      obind (rd req offset) (\<lambda>f.
      let finish = (\<lambda>len :: int. Some (int offset + len + int (checksum_length ctx))) in
      if uint f = MODBUS_FC_READ_COILS \<or> uint f = MODBUS_FC_READ_DISCRETE_INPUTS then
        obind (rd req (offset + 3)) (\<lambda>h. obind (rd req (offset + 4)) (\<lambda>l.
          let nb = be16 h l in Done (finish (2 + nb div 8 + (if nb mod 8 \<noteq> 0 then 1 else 0)))))
      else if uint f = MODBUS_FC_WRITE_AND_READ_REGISTERS \<or> uint f = MODBUS_FC_READ_HOLDING_REGISTERS \<or>
              uint f = MODBUS_FC_READ_INPUT_REGISTERS then
        obind (rd req (offset + 3)) (\<lambda>h. obind (rd req (offset + 4)) (\<lambda>l. Done (finish (2 + 2 * be16 h l))))
      else if uint f = MODBUS_FC_READ_EXCEPTION_STATUS then Done (finish 3)
      else if uint f = MODBUS_FC_REPORT_SLAVE_ID then Done None
      else if uint f = MODBUS_FC_MASK_WRITE_REGISTER then Done (finish 7)
      else Done (finish 5)))"

definition compute_meta_length_after_function :: "int \<Rightarrow> msg_type \<Rightarrow> nat" where
  "compute_meta_length_after_function function msg_type =
     (if msg_type = MSG_INDICATION then
        if function \<le> MODBUS_FC_WRITE_SINGLE_REGISTER then 4
        else if function = MODBUS_FC_WRITE_MULTIPLE_COILS \<or> function = MODBUS_FC_WRITE_MULTIPLE_REGISTERS then 5
        else if function = MODBUS_FC_MASK_WRITE_REGISTER then 6
        else if function = MODBUS_FC_WRITE_AND_READ_REGISTERS then 9
        else 0
      else
        if function = MODBUS_FC_WRITE_SINGLE_COIL \<or> function = MODBUS_FC_WRITE_SINGLE_REGISTER \<or>
           function = MODBUS_FC_WRITE_MULTIPLE_COILS \<or> function = MODBUS_FC_WRITE_MULTIPLE_REGISTERS then 4
        else if function = MODBUS_FC_MASK_WRITE_REGISTER then 6
        else 1)"

definition compute_data_length_after_meta :: "modbus \<Rightarrow> byte list \<Rightarrow> msg_type \<Rightarrow> nat outcome" where
  "compute_data_length_after_meta ctx msg msg_type =
     obind (rd msg (header_length ctx)) (\<lambda>f. let function = uint f in
     obind
       (if msg_type = MSG_INDICATION then
          if function = MODBUS_FC_WRITE_MULTIPLE_COILS \<or> function = MODBUS_FC_WRITE_MULTIPLE_REGISTERS
          then obind (rd msg (header_length ctx + 5)) (\<lambda>b. Done (unat b))
          else if function = MODBUS_FC_WRITE_AND_READ_REGISTERS
          then obind (rd msg (header_length ctx + 9)) (\<lambda>b. Done (unat b))
          else Done 0
        else
          if function \<le> MODBUS_FC_READ_INPUT_REGISTERS \<or> function = MODBUS_FC_REPORT_SLAVE_ID \<or>
             function = MODBUS_FC_WRITE_AND_READ_REGISTERS
          then obind (rd msg (header_length ctx + 1)) (\<lambda>b. Done (unat b))
          else Done 0)
       (\<lambda>length. Done (length + checksum_length ctx)))"

section \<open>The loop\<close>

datatype step = STEP_FUNCTION | STEP_META | STEP_DATA

text \<open>\<open>None\<close>: the announced length does not fit the longest message of the backend.\<close>

definition enter_data :: "modbus \<Rightarrow> msg_type \<Rightarrow> byte list \<Rightarrow> nat \<Rightarrow> (step \<times> nat) option outcome" where
  "enter_data ctx msg_type msg msg_length =
     obind (compute_data_length_after_meta ctx msg msg_type) (\<lambda>length_to_read.
       if msg_length + length_to_read > max_adu_length ctx then Done None
       else Done (Some (STEP_DATA, length_to_read)))"

definition next_step :: "modbus \<Rightarrow> msg_type \<Rightarrow> step \<Rightarrow> byte list \<Rightarrow> nat \<Rightarrow> (step \<times> nat) option outcome" where
  "next_step ctx msg_type step msg msg_length =
     (case step of
        STEP_FUNCTION \<Rightarrow>
          obind (rd msg (header_length ctx)) (\<lambda>f.
            let length_to_read = compute_meta_length_after_function (uint f) msg_type in
            if length_to_read \<noteq> 0 then Done (Some (STEP_META, length_to_read))
            else enter_data ctx msg_type msg msg_length)
      | STEP_META \<Rightarrow> enter_data ctx msg_type msg msg_length
      | STEP_DATA \<Rightarrow> Done (Some (STEP_DATA, 0)))"

definition reconnect :: "modbus \<Rightarrow> world \<Rightarrow> (modbus \<times> world) outcome" where
  "reconnect ctx w =
     obind (be_close ctx w) (\<lambda>(ctx, w). obind (be_connect ctx w) (\<lambda>(_, ctx, w). Done (ctx, w)))"

definition select_failed :: "modbus \<Rightarrow> world \<Rightarrow> (modbus \<times> world) outcome" where
  "select_failed ctx w =
     (if link_recovery ctx then
        let saved_errno = w_errno w in
        obind
          (if w_errno w = ETIMEDOUT then Done (ctx, snd (be_flush ctx (sleep_response_timeout ctx w)))
           else if w_errno w = EBADF then reconnect ctx w
           else Done (ctx, w))
          (\<lambda>(ctx, w). Done (ctx, set_errno saved_errno w))
      else Done (ctx, w))"

definition recv_failed :: "modbus \<Rightarrow> world \<Rightarrow> (modbus \<times> world) outcome" where
  "recv_failed ctx w =
     (if link_recovery ctx \<and> (w_errno w = ECONNRESET \<or> w_errno w = ECONNREFUSED \<or> w_errno w = EBADF) then
        let saved_errno = w_errno w in
        obind (reconnect ctx w) (\<lambda>(ctx, w). Done (ctx, set_errno saved_errno w))
      else Done (ctx, w))"

definition next_timeout :: "modbus \<Rightarrow> nat \<Rightarrow> timeval option \<Rightarrow> timeval option" where
  "next_timeout ctx length_to_read p_tv =
     (if length_to_read > 0 \<and> (tv_sec (mb_byte_timeout ctx) > 0 \<or> tv_usec (mb_byte_timeout ctx) > 0)
      then Some (mb_byte_timeout ctx) else p_tv)"

fun step_rank :: "step \<Rightarrow> nat" where
  "step_rank STEP_FUNCTION = 2"
| "step_rank STEP_META = 1"
| "step_rank STEP_DATA = 0"

lemma enter_data_step: "enter_data ctx mt msg n = Done (Some (st, l)) \<Longrightarrow> st = STEP_DATA"
  by (auto simp: enter_data_def outcome_iff split: if_splits)

lemma next_step_decreases:
  "next_step ctx mt st msg n = Done (Some (st', l)) \<Longrightarrow> step_rank st' < step_rank st \<or> st' = st \<and> l = 0"
  by (cases st) (auto simp: next_step_def Let_def outcome_iff dest: enter_data_step split: if_splits)

text \<open>One turn of the loop: it returns from the function or goes on with a new state.\<close>

datatype rx_turn =
    Rx_return int modbus "byte list" world
  | Rx_continue step nat "byte list" nat "timeval option" world

definition receive_turn ::
    "modbus \<Rightarrow> msg_type \<Rightarrow> step \<Rightarrow> nat \<Rightarrow> byte list \<Rightarrow> nat \<Rightarrow> timeval option \<Rightarrow> world \<Rightarrow> rx_turn outcome" where
  "receive_turn ctx msg_type step length_to_read msg msg_length p_tv w =
     obind (be_select ctx p_tv w) (\<lambda>(rc, w).
       if rc = -1 then obind (select_failed ctx w) (\<lambda>(ctx, w). Done (Rx_return (-1) ctx msg w))
       else
         let (rc, bs, w) = be_recv ctx length_to_read w;
             (rc, w) = (if rc = 0 then (-1, set_errno ECONNRESET w) else (rc, w)) in
         if rc = -1 then obind (recv_failed ctx w) (\<lambda>(ctx, w). Done (Rx_return (-1) ctx msg w))
         else obind (memcpy msg msg_length bs 0 (length bs)) (\<lambda>msg.
           let msg_length = msg_length + length bs; length_to_read = length_to_read - length bs in
           obind (if length_to_read = 0 then next_step ctx msg_type step msg msg_length
                  else Done (Some (step, length_to_read))) (\<lambda>next.
             case next of
               None \<Rightarrow> Done (Rx_return (-1) ctx msg (set_errno EMBBADDATA w))
             | Some (step, length_to_read) \<Rightarrow>
                 Done (Rx_continue step length_to_read msg msg_length (next_timeout ctx length_to_read p_tv) w))))"

lemma receive_turn_continue:
  assumes "receive_turn ctx mt st ltr msg n tv w = Done (Rx_continue st' ltr' msg' n' tv' w')" and "0 < ltr"
  obtains w1 bs rc where "be_select ctx tv w = Done (1, w1)" and "be_recv ctx ltr w1 = (rc, bs, w')"
    and "bs \<noteq> []" and "length bs \<le> ltr" and "n' = n + length bs" and "n' \<le> length msg"
    and "msg' = take n msg @ bs @ drop n' msg"
    and "(if ltr = length bs then next_step ctx mt st msg' n' else Done (Some (st, ltr - length bs))) = Done (Some (st', ltr'))"
    and "tv' = next_timeout ctx ltr' tv"
proof -
  from assms(1) obtain rc1 w1 where sel: "be_select ctx tv w = Done (rc1, w1)"
    by (auto simp: receive_turn_def elim!: obind_DoneE)
  have rc1: "rc1 = 1"
    using assms(1) sel select_loop_result [of "mb_s ctx" tv w rc1 w1]
    by (auto simp: receive_turn_def be_select_eq elim!: obind_DoneE)
  obtain rc bs w2 where rcv: "be_recv ctx ltr w1 = (rc, bs, w2)" by (cases "be_recv ctx ltr w1")
  from rcv have count: "(rc = -1 \<and> bs = [] \<or> rc = int (length bs)) \<and> length bs \<le> ltr"
    using sys_recv_count by (simp add: be_recv_eq)
  have ok: "rc \<noteq> 0" "rc \<noteq> -1"
    using assms(1) sel rc1 rcv by (auto simp: receive_turn_def split: if_splits elim!: obind_DoneE)
  with count have "bs \<noteq> []" "rc = int (length bs)" by auto
  moreover have "ltr - length bs = 0 \<longleftrightarrow> ltr = length bs" using count by auto
  ultimately show ?thesis
    using assms(1) sel rc1 rcv ok count
    by (intro that [of w1 rc bs])
       (auto simp: receive_turn_def outcome_iff Let_def split: option.splits prod.splits if_splits)
qed

function receive_loop ::
    "modbus \<Rightarrow> msg_type \<Rightarrow> step \<Rightarrow> nat \<Rightarrow> byte list \<Rightarrow> nat \<Rightarrow> timeval option \<Rightarrow> world \<Rightarrow>
     (int \<times> modbus \<times> byte list \<times> world) outcome" where
  "receive_loop ctx msg_type step length_to_read msg msg_length p_tv w =
     (if length_to_read = 0 then
        obind (be_check_integrity ctx msg msg_length w) (\<lambda>(rc, w). Done (rc, ctx, msg, w))
      else case receive_turn ctx msg_type step length_to_read msg msg_length p_tv w of
        Fault \<Rightarrow> Fault
      | Pending \<Rightarrow> Pending
      | Done (Rx_return rc ctx msg w) \<Rightarrow> Done (rc, ctx, msg, w)
      | Done (Rx_continue step length_to_read msg msg_length p_tv w) \<Rightarrow>
          receive_loop ctx msg_type step length_to_read msg msg_length p_tv w)"
  by pat_completeness auto
termination
proof (relation "measures [\<lambda>(ctx, mt, st, ltr, msg, n, tv, w). step_rank st, \<lambda>(ctx, mt, st, ltr, msg, n, tv, w). ltr]", goal_cases)
  case 1
  then show ?case by simp
next
  case (2 ctx mt st ltr msg n tv w turn st' ltr' msg' n' tv' w')
  then have "receive_turn ctx mt st ltr msg n tv w = Done (Rx_continue st' ltr' msg' n' tv' w')" "0 < ltr" by simp_all
  then obtain w1 bs rc where "be_select ctx tv w = Done (1, w1)" "be_recv ctx ltr w1 = (rc, bs, w')"
    "bs \<noteq> []" "length bs \<le> ltr" "n' = n + length bs" "n' \<le> length msg" "msg' = take n msg @ bs @ drop n' msg"
    "(if ltr = length bs then next_step ctx mt st msg' n' else Done (Some (st, ltr - length bs))) = Done (Some (st', ltr'))" "tv' = next_timeout ctx ltr' tv"
    by (rule receive_turn_continue)
  then show ?case
    using 2 by (auto dest!: next_step_decreases split: if_splits)
qed

declare receive_loop.simps [simp del]

text \<open>The wait for the first byte: without an indication timeout, a server waits for ever.\<close>

definition first_timeout :: "modbus \<Rightarrow> msg_type \<Rightarrow> timeval option" where
  "first_timeout ctx msg_type =
     (if msg_type = MSG_INDICATION then
        (if tv_sec (mb_indication_timeout ctx) = 0 \<and> tv_usec (mb_indication_timeout ctx) = 0
         then None else Some (mb_indication_timeout ctx))
      else Some (mb_response_timeout ctx))"

definition modbus_receive_msg :: "modbus \<Rightarrow> byte list \<Rightarrow> msg_type \<Rightarrow> world \<Rightarrow> (int \<times> modbus \<times> byte list \<times> world) outcome" where
  "modbus_receive_msg ctx msg msg_type w =
     (if \<not> be_is_connected ctx then Done (-1, ctx, msg, w)
      else if mb_s ctx < 0 \<or> mb_s ctx \<ge> FD_SETSIZE then Done (-1, ctx, msg, set_errno EINVAL w)
      else receive_loop ctx msg_type STEP_FUNCTION (header_length ctx + 1) msg 0 (first_timeout ctx msg_type) w)"

section \<open>Receive operations\<close>

text \<open>A RTU server hears the confirmations of the other slaves of the line and ignores them.\<close>

definition modbus_rtu_receive :: "modbus \<Rightarrow> modbus_rtu \<Rightarrow> byte list \<Rightarrow> world \<Rightarrow> (int \<times> modbus \<times> byte list \<times> world) outcome" where
  "modbus_rtu_receive ctx ctx_rtu req w =
     (let set_flag = (\<lambda>v ctx. case mb_backend ctx of
            Rtu r \<Rightarrow> ctx\<lparr>mb_backend := Rtu (r\<lparr>rtu_confirmation_to_ignore := v\<rparr>)\<rparr> | _ \<Rightarrow> ctx) in
      if rtu_confirmation_to_ignore ctx_rtu then
        obind (modbus_receive_msg ctx req MSG_CONFIRMATION w) (\<lambda>(_, ctx, req, w).
          Done (0, set_flag False ctx, req, w))
      else
        obind (modbus_receive_msg ctx req MSG_INDICATION w) (\<lambda>(rc, ctx, req, w).
          Done (rc, if rc = 0 then set_flag True ctx else ctx, req, w)))"

definition modbus_tcp_receive :: "modbus \<Rightarrow> byte list \<Rightarrow> world \<Rightarrow> (int \<times> modbus \<times> byte list \<times> world) outcome" where
  "modbus_tcp_receive ctx req w = modbus_receive_msg ctx req MSG_INDICATION w"

definition be_receive :: "modbus \<Rightarrow> byte list \<Rightarrow> world \<Rightarrow> (int \<times> modbus \<times> byte list \<times> world) outcome" where
  "be_receive ctx req w =
     (case mb_backend ctx of Rtu r \<Rightarrow> modbus_rtu_receive ctx r req w | _ \<Rightarrow> modbus_tcp_receive ctx req w)"

definition modbus_receive :: "modbus option \<Rightarrow> byte list \<Rightarrow> world \<Rightarrow> (int \<times> modbus option \<times> byte list \<times> world) outcome" where
  "modbus_receive ctx req w =
     (case ctx of None \<Rightarrow> Done (-1, None, req, set_errno EINVAL w)
      | Some c \<Rightarrow> obind (be_receive c req w) (\<lambda>(rc, c, req, w). Done (rc, Some c, req, w)))"

definition modbus_receive_confirmation ::
    "modbus option \<Rightarrow> byte list \<Rightarrow> world \<Rightarrow> (int \<times> modbus option \<times> byte list \<times> world) outcome" where
  "modbus_receive_confirmation ctx rsp w =
     (case ctx of None \<Rightarrow> Done (-1, None, rsp, set_errno EINVAL w)
      | Some c \<Rightarrow> obind (modbus_receive_msg c rsp MSG_CONFIRMATION w) (\<lambda>(rc, c, rsp, w). Done (rc, Some c, rsp, w)))"

section \<open>The length of a message\<close>

text \<open>
  The length that the bytes of a message announce, as a function of the message, and the messages
  that have exactly that length and fit the backend.
\<close>

definition meta_length :: "modbus \<Rightarrow> msg_type \<Rightarrow> byte list \<Rightarrow> nat" where
  "meta_length ctx mt m = compute_meta_length_after_function (uint (m ! header_length ctx)) mt"

definition data_length :: "modbus \<Rightarrow> msg_type \<Rightarrow> byte list \<Rightarrow> nat" where
  "data_length ctx mt m =
     (let h = header_length ctx; f = uint (m ! h) in
      (if mt = MSG_INDICATION then
         (if f = 15 \<or> f = 16 then unat (m ! (h + 5)) else if f = 23 then unat (m ! (h + 9)) else 0)
       else (if f \<le> 4 \<or> f = 17 \<or> f = 23 then unat (m ! (h + 1)) else 0))
      + checksum_length ctx)"

definition message_length :: "modbus \<Rightarrow> msg_type \<Rightarrow> byte list \<Rightarrow> nat" where
  "message_length ctx mt m = header_length ctx + 1 + meta_length ctx mt m + data_length ctx mt m"

definition complete :: "modbus \<Rightarrow> msg_type \<Rightarrow> byte list \<Rightarrow> bool" where
  "complete ctx mt m \<longleftrightarrow>
     header_length ctx + 1 + meta_length ctx mt m \<le> length m \<and>
     length m = message_length ctx mt m \<and> length m \<le> max_adu_length ctx"

lemma meta_length_bound: "meta_length ctx mt m \<le> 9"
  by (simp add: meta_length_def compute_meta_length_after_function_def)

lemma meta_length_take: "header_length ctx < k \<Longrightarrow> meta_length ctx mt (take k m) = meta_length ctx mt m"
  by (simp add: meta_length_def)

lemma data_length_take:
  "header_length ctx + 1 + meta_length ctx mt m \<le> k \<Longrightarrow> data_length ctx mt (take k m) = data_length ctx mt m"
  by (auto simp: data_length_def meta_length_def compute_meta_length_after_function_def Let_def split: if_splits)

lemma message_length_take:
  "header_length ctx + 1 + meta_length ctx mt m \<le> k \<Longrightarrow> message_length ctx mt (take k m) = message_length ctx mt m"
  by (simp add: message_length_def data_length_take meta_length_take)

lemma compute_data_length_value:
  assumes "header_length ctx + 1 + meta_length ctx mt m \<le> length m"
  shows "compute_data_length_after_meta ctx m mt = Done (data_length ctx mt m)"
  using assms
  by (auto simp: compute_data_length_after_meta_def data_length_def meta_length_def
        compute_meta_length_after_function_def Let_def split: if_splits)

lemma enter_data_value:
  assumes "header_length ctx + 1 + meta_length ctx mt m \<le> length m"
  shows "enter_data ctx mt m n =
    Done (if n + data_length ctx mt m > max_adu_length ctx then None else Some (STEP_DATA, data_length ctx mt m))"
  using compute_data_length_value [OF assms] by (simp add: enter_data_def)

text \<open>The invariant of the loop: what is left to read, from the bytes received so far.\<close>

definition rx_inv :: "modbus \<Rightarrow> msg_type \<Rightarrow> step \<Rightarrow> nat \<Rightarrow> byte list \<Rightarrow> nat \<Rightarrow> bool" where
  "rx_inv ctx mt st ltr msg n \<longleftrightarrow>
     max_adu_length ctx \<le> length msg \<and>
     (case st of
        STEP_FUNCTION \<Rightarrow> 0 < ltr \<and> n + ltr = header_length ctx + 1
      | STEP_META \<Rightarrow> 0 < ltr \<and> header_length ctx < n \<and> n + ltr = header_length ctx + 1 + meta_length ctx mt msg
      | STEP_DATA \<Rightarrow> header_length ctx + 1 + meta_length ctx mt msg \<le> n \<and>
                     n + ltr = message_length ctx mt msg \<and> n + ltr \<le> max_adu_length ctx)"

lemma max_adu_bounds: "header_length ctx + 10 \<le> max_adu_length ctx" "max_adu_length ctx \<le> 260"
  by (simp_all add: header_length_def max_adu_length_def)

lemma rx_inv_room: "rx_inv ctx mt st ltr msg n \<Longrightarrow> n + ltr \<le> max_adu_length ctx \<and> max_adu_length ctx \<le> length msg"
  using max_adu_bounds(1) [of ctx] meta_length_bound [of ctx mt msg]
  by (auto simp: rx_inv_def split: step.splits)

text \<open>The invariant looks at the received prefix only.\<close>

lemma rx_inv_prefix:
  assumes "rx_inv ctx mt st ltr msg n" and "take n msg' = take n msg" and "length msg' = length msg"
  shows "rx_inv ctx mt st ltr msg' n"
proof -
  have meta: "meta_length ctx mt msg' = meta_length ctx mt msg" if "header_length ctx < n"
    using meta_length_take [OF that, of mt msg] meta_length_take [OF that, of mt msg'] assms(2) by simp
  have "message_length ctx mt msg' = message_length ctx mt msg"
    if "header_length ctx + 1 + meta_length ctx mt msg \<le> n"
    using message_length_take [OF that] message_length_take [of ctx mt msg' n] meta assms(2) that by simp
  with meta assms show ?thesis by (auto simp: rx_inv_def split: step.splits)
qed

text \<open>A turn that received \<open>bs\<close>: the next step keeps the invariant or refuses the message.\<close>

lemma next_step_value:
  assumes inv: "rx_inv ctx mt st ltr msg n" and full: "n' = n + ltr"
    and msg': "take n msg' = take n msg" "length msg' = length msg"
  shows "next_step ctx mt st msg' n' = Done None \<and>
           header_length ctx + 1 + meta_length ctx mt msg' \<le> n' \<and> message_length ctx mt msg' > max_adu_length ctx \<or>
         (\<exists>st' ltr'. next_step ctx mt st msg' n' = Done (Some (st', ltr')) \<and> rx_inv ctx mt st' ltr' msg' n')"
proof -
  from rx_inv_prefix [OF inv msg'] have inv': "rx_inv ctx mt st ltr msg' n" .
  note room = rx_inv_room [OF inv']
  have h: "header_length ctx < length msg'" using max_adu_bounds(1) [of ctx] room by linarith
  have m: "header_length ctx + 1 + meta_length ctx mt msg' \<le> length msg'"
    using max_adu_bounds(1) [of ctx] meta_length_bound [of ctx mt msg'] room by linarith
  show ?thesis
  proof (cases st)
    case STEP_FUNCTION
    with inv' full h m room show ?thesis
      by (auto simp: next_step_def rx_inv_def enter_data_value Let_def message_length_def meta_length_def)
  next
    case STEP_META
    with inv' full h m room show ?thesis
      by (auto simp: next_step_def rx_inv_def enter_data_value message_length_def)
  next
    case STEP_DATA
    with inv' full room show ?thesis by (auto simp: next_step_def rx_inv_def)
  qed
qed

lemma rx_inv_complete: "rx_inv ctx mt st 0 msg n \<Longrightarrow> complete ctx mt (take n msg)"
  using rx_inv_room [of ctx mt st 0 msg n]
  by (auto simp: rx_inv_def complete_def message_length_take meta_length_take min_def split: step.splits)

section \<open>No overrun, and complete messages\<close>

lemma reconnect_result:
  "reconnect ctx w = Done (ctx', w') \<Longrightarrow> relinked ctx ctx' \<and> w_tx w' = w_tx w \<and> w_sent w' = w_sent w"
  by (auto simp: reconnect_def elim!: obind_DoneE dest!: be_close_result be_connect_result intro: relinked_trans)

lemma reconnect_not_Fault [simp]: "reconnect ctx w \<noteq> Fault"
  by (auto simp: reconnect_def outcome_iff)

lemma select_failed_result:
  assumes "select_failed ctx w = Done (ctx', w')"
  shows "relinked ctx ctx' \<and> w_tx w' = w_tx w \<and> w_sent w' = w_sent w \<and> w_errno w' = w_errno w"
proof (cases "link_recovery ctx \<and> w_errno w = ETIMEDOUT")
  case True
  obtain r w1 where fl: "be_flush ctx (sleep_response_timeout ctx w) = (r, w1)"
    by (cases "be_flush ctx (sleep_response_timeout ctx w)")
  from be_flush_frame [OF fl] True fl assms show ?thesis
    by (auto simp: select_failed_def Let_def sleep_response_timeout_def)
next
  case False
  with assms show ?thesis
    by (auto simp: select_failed_def Let_def split: if_splits elim!: obind_DoneE dest!: reconnect_result)
qed

lemma recv_failed_result:
  "recv_failed ctx w = Done (ctx', w') \<Longrightarrow>
   relinked ctx ctx' \<and> w_tx w' = w_tx w \<and> w_sent w' = w_sent w \<and> w_errno w' = w_errno w"
  by (auto simp: recv_failed_def Let_def split: if_splits elim!: obind_DoneE dest!: reconnect_result)

lemma failed_not_Fault [simp]: "select_failed ctx w \<noteq> Fault" "recv_failed ctx w \<noteq> Fault"
  by (auto simp: select_failed_def recv_failed_def Let_def outcome_iff)

lemma be_select_frame:
  "be_select ctx tv w = Done (rc, w') \<Longrightarrow> (rc = -1 \<or> rc = 1) \<and> w_tx w' = w_tx w \<and> w_sent w' = w_sent w"
  by (auto simp: be_select_eq dest!: select_loop_result)

lemma receive_turn_return:
  assumes "receive_turn ctx mt st ltr msg n tv w = Done (Rx_return rc ctx' msg' w')"
  shows "rc = -1 \<and> relinked ctx ctx' \<and> length msg' = length msg \<and> w_tx w' = w_tx w \<and> w_sent w' = w_sent w"
proof -
  from assms obtain rc1 w1 where sel: "be_select ctx tv w = Done (rc1, w1)"
    by (auto simp: receive_turn_def elim!: obind_DoneE)
  obtain rc2 bs w2 where rcv: "be_recv ctx ltr w1 = (rc2, bs, w2)" by (cases "be_recv ctx ltr w1")
  have rcvf: "w_tx w2 = w_tx w1 \<and> w_sent w2 = w_sent w1"
    using rcv sys_recv_frame by (simp add: be_recv_eq)
  from assms sel rcv rcvf be_select_frame [OF sel] show ?thesis
    by (auto simp: receive_turn_def Let_def split: if_splits option.splits elim!: obind_DoneE
             dest!: select_failed_result recv_failed_result length_memcpy)
qed

lemma receive_turn_not_Fault:
  assumes inv: "rx_inv ctx mt st ltr msg n"
  shows "receive_turn ctx mt st ltr msg n tv w \<noteq> Fault"
proof
  assume fault: "receive_turn ctx mt st ltr msg n tv w = Fault"
  have "be_select ctx tv w \<noteq> Fault" by (simp add: be_select_eq)
  with fault obtain rc1 w1 where sel: "be_select ctx tv w = Done (rc1, w1)" "rc1 \<noteq> -1"
    by (cases "be_select ctx tv w") (auto simp: receive_turn_def outcome_iff split: if_splits)
  obtain rc2 bs w2 where rcv: "be_recv ctx ltr w1 = (rc2, bs, w2)" by (cases "be_recv ctx ltr w1")
  have len: "length bs \<le> ltr" using rcv sys_recv_count by (simp add: be_recv_eq)
  note room = rx_inv_room [OF inv]
  have "next_step ctx mt st (take n msg @ bs @ drop (n + length bs) msg) (n + length bs) \<noteq> Fault" if "ltr = length bs"
    using next_step_value [OF inv, of "n + length bs" "take n msg @ bs @ drop (n + length bs) msg"] room len that by auto
  with fault sel rcv room len show False
    by (auto simp: receive_turn_def outcome_iff Let_def split: if_splits option.splits)
qed

lemma receive_turn_inv:
  assumes turn: "receive_turn ctx mt st ltr msg n tv w = Done (Rx_continue st' ltr' msg' n' tv' w')"
    and pos: "0 < ltr" and inv: "rx_inv ctx mt st ltr msg n"
  shows "rx_inv ctx mt st' ltr' msg' n' \<and> length msg' = length msg \<and> w_tx w' = w_tx w \<and> w_sent w' = w_sent w"
proof -
  from turn pos obtain w1 bs rc where sel: "be_select ctx tv w = Done (1, w1)" and rcv: "be_recv ctx ltr w1 = (rc, bs, w')"
    and bs: "bs \<noteq> []" "length bs \<le> ltr" and n': "n' = n + length bs" "n' \<le> length msg"
    and msg': "msg' = take n msg @ bs @ drop n' msg"
    and step: "(if ltr = length bs then next_step ctx mt st msg' n' else Done (Some (st, ltr - length bs))) = Done (Some (st', ltr'))"
    and "tv' = next_timeout ctx ltr' tv"
    by (rule receive_turn_continue)
  have frame: "w_tx w' = w_tx w \<and> w_sent w' = w_sent w"
    using be_select_frame [OF sel] rcv sys_recv_frame by (simp add: be_recv_eq)
  have same: "take n msg' = take n msg" "length msg' = length msg" using msg' n' by auto
  have "rx_inv ctx mt st' ltr' msg' n'"
  proof (cases "ltr = length bs")
    case True
    with step next_step_value [OF inv _ same, of n'] n' show ?thesis by auto
  next
    case False
    with step rx_inv_prefix [OF inv same] n' bs show ?thesis
      by (auto simp: rx_inv_def split: step.splits)
  qed
  with same frame show ?thesis by simp
qed

lemma receive_loop_result:
  assumes "rx_inv ctx mt st ltr msg n"
  shows "receive_loop ctx mt st ltr msg n tv w \<noteq> Fault \<and>
    (\<forall>rc ctx' msg' w'. receive_loop ctx mt st ltr msg n tv w = Done (rc, ctx', msg', w') \<longrightarrow>
       relinked ctx ctx' \<and> length msg' = length msg \<and> w_tx w' = w_tx w \<and> w_sent w' = w_sent w \<and>
       (rc = -1 \<or> rc = 0 \<and> ctx' = ctx \<and> (\<exists>k \<le> length msg'. complete ctx mt (take k msg')) \<or>
        0 < rc \<and> ctx' = ctx \<and> nat rc \<le> length msg' \<and> complete ctx mt (take (nat rc) msg') \<and>
        be_check_integrity ctx msg' (nat rc) w' = Done (rc, w')))"
  using assms
proof (induction ctx mt st ltr msg n tv w rule: receive_loop.induct)
  case (1 ctx mt st ltr msg n tv w)
  note inv = "1.prems"
  show ?case
  proof (cases "ltr = 0")
    case True
    then have c: "complete ctx mt (take n msg)" using inv rx_inv_complete by simp
    note room = rx_inv_room [OF inv]
    have n: "n \<le> length msg" "n < 65536" using room max_adu_bounds(2) [of ctx] by linarith+
    have "2 \<le> header_length ctx + 1" by (simp add: header_length_def)
    moreover have "length (take n msg) = n" using n by simp
    ultimately have "2 \<le> n" using c by (simp only: complete_def) linarith
    from be_check_integrity_result [OF this n, of ctx w] obtain rc w' where
      "be_check_integrity ctx msg n w = Done (rc, w')" "rc = -1 \<or> w' = w \<and> (rc = 0 \<or> rc = int n)"
      "w_tx w' = w_tx w" "w_sent w' = w_sent w" by auto
    with True c n \<open>2 \<le> n\<close> show ?thesis by (auto simp: receive_loop.simps [of ctx mt st 0 msg n tv w])
  next
    case False
    then have pos: "0 < ltr" by simp
    show ?thesis
    proof (cases "receive_turn ctx mt st ltr msg n tv w")
      case Pending
      with False show ?thesis by (simp add: receive_loop.simps [of ctx mt st ltr msg n tv w])
    next
      case Fault
      with receive_turn_not_Fault [OF inv] show ?thesis by simp
    next
      case (Done turn)
      show ?thesis
      proof (cases turn)
        case (Rx_return rc ctx' msg' w')
        with Done False receive_turn_return [of ctx mt st ltr msg n tv w rc ctx' msg' w'] show ?thesis
          by (simp add: receive_loop.simps [of ctx mt st ltr msg n tv w])
      next
        case (Rx_continue st' ltr' msg' n' tv' w')
        with Done have turn: "receive_turn ctx mt st ltr msg n tv w = Done (Rx_continue st' ltr' msg' n' tv' w')" by simp
        note i = receive_turn_inv [OF turn pos inv]
        have "receive_loop ctx mt st ltr msg n tv w = receive_loop ctx mt st' ltr' msg' n' tv' w'"
          using False turn by (simp add: receive_loop.simps [of ctx mt st ltr msg n tv w])
        with "1.IH" [OF False Done Rx_continue] i show ?thesis by (auto; blast)
      qed
    qed
  qed
qed

lemma rx_inv_start: "max_adu_length ctx \<le> length msg \<Longrightarrow> rx_inv ctx mt STEP_FUNCTION (header_length ctx + 1) msg 0"
  by (simp add: rx_inv_def)

text \<open>The same for the function: this is what the callers of \<open>_modbus_receive_msg\<close> rest on.\<close>

lemma receive_msg_not_Fault:
  assumes "max_adu_length ctx \<le> length msg"
  shows "modbus_receive_msg ctx msg mt w \<noteq> Fault"
  using receive_loop_result [OF rx_inv_start [OF assms]] by (simp add: modbus_receive_msg_def Let_def)

lemma receive_msg_result:
  assumes "max_adu_length ctx \<le> length msg" and "modbus_receive_msg ctx msg mt w = Done (rc, ctx', msg', w')"
  shows "relinked ctx ctx' \<and> length msg' = length msg \<and> w_tx w' = w_tx w \<and> w_sent w' = w_sent w \<and>
       (rc = -1 \<or> rc = 0 \<and> ctx' = ctx \<and> (\<exists>k \<le> length msg'. complete ctx mt (take k msg')) \<or>
        0 < rc \<and> ctx' = ctx \<and> nat rc \<le> length msg' \<and> complete ctx mt (take (nat rc) msg') \<and>
        be_check_integrity ctx msg' (nat rc) w' = Done (rc, w'))"
proof (cases "0 \<le> mb_s ctx \<and> mb_s ctx < FD_SETSIZE")
  case True
  with assms(2) have "receive_loop ctx mt STEP_FUNCTION (header_length ctx + 1) msg 0 (first_timeout ctx mt) w =
      Done (rc, ctx', msg', w')"
    by (simp add: modbus_receive_msg_def be_is_connected_eq)
  with receive_loop_result [OF rx_inv_start [OF assms(1)]] show ?thesis by blast
next
  case False
  with assms(2) show ?thesis by (auto simp: modbus_receive_msg_def split: if_splits)
qed

section \<open>Fragmentation\<close>

text \<open>
  However a complete message is cut into chunks, the loop ends with the message in the buffer and
  what follows it still to be read.
\<close>

definition armed_and_read :: "timeval option list \<Rightarrow> rx_event list \<Rightarrow> world \<Rightarrow> world" where
  "armed_and_read a es w = w\<lparr>w_rx := es, w_armed := w_armed w @ a\<rparr>"

lemma select_chunk:
  "w_rx w = Rx_data bs # es \<Longrightarrow> bs \<noteq> [] \<Longrightarrow> be_select ctx tv w = Done (1, armed_and_read [tv] (w_rx w) w)"
  by (cases bs) (auto simp: be_select_eq select_loop.simps [of "mb_s ctx" tv w] sys_select_def armed_and_read_def)

lemma recv_chunk:
  assumes "w_rx w = Rx_data bs # es" and "bs \<noteq> []" and "0 \<le> mb_s ctx"
  shows "be_recv ctx n w = (int (length (take n bs)), take n bs,
     w\<lparr>w_rx := if drop n bs = [] then es else Rx_data (drop n bs) # es\<rparr>)"
  using assms by (cases bs) (auto simp: be_recv_eq sys_recv_def)

lemma receive_turn_chunk:
  assumes rx: "w_rx w = Rx_data bs # es" and bs: "bs \<noteq> []" and fd: "0 \<le> mb_s ctx" and pos: "0 < ltr"
    and room: "n + ltr \<le> length msg"
    and step: "(if ltr \<le> length bs then next_step ctx mt st (take n msg @ take ltr bs @ drop (n + ltr) msg) (n + ltr)
                else Done (Some (st, ltr - length bs))) = Done (Some (st', ltr'))"
  shows "receive_turn ctx mt st ltr msg n tv w =
    Done (Rx_continue st' ltr' (take n msg @ take ltr bs @ drop (n + length (take ltr bs)) msg) (n + length (take ltr bs))
      (next_timeout ctx ltr' tv)
      (armed_and_read [tv] (if drop ltr bs = [] then es else Rx_data (drop ltr bs) # es) w))"
proof -
  let ?c = "take ltr bs"
  note sel = select_chunk [OF rx bs, of ctx tv]
  have rcv: "be_recv ctx ltr (armed_and_read [tv] (w_rx w) w) = (int (length ?c), ?c,
      armed_and_read [tv] (if drop ltr bs = [] then es else Rx_data (drop ltr bs) # es) w)"
    using recv_chunk [of "armed_and_read [tv] (w_rx w) w" bs es ctx ltr] rx bs fd by (simp add: armed_and_read_def)
  have c: "?c \<noteq> []" "length ?c \<le> ltr" using bs pos by auto
  then have nz: "int (length ?c) \<noteq> 0" by (simp del: length_take)
  have copy: "memcpy msg n ?c 0 (length ?c) = Done (take n msg @ ?c @ drop (n + length ?c) msg)"
    using memcpy_Done [of n "length ?c" msg 0 ?c] room c(2) by (simp only: drop_0 take_all order_refl)
  have "(if ltr - length ?c = 0 then next_step ctx mt st (take n msg @ ?c @ drop (n + length ?c) msg) (n + length ?c)
         else Done (Some (st, ltr - length ?c))) = Done (Some (st', ltr'))"
    using step by (cases "ltr \<le> length bs") (auto simp: min_def split: if_splits)
  with sel rcv nz copy show ?thesis
    by (simp add: receive_turn_def Let_def del: length_take)
qed

lemma next_step_complete:
  assumes inv: "rx_inv ctx mt st ltr msg n" and full: "n' = n + ltr"
    and msg': "take n msg' = take n msg" "length msg' = length msg"
    and c: "complete ctx mt m" and prefix: "take n' msg' = take n' m"
  obtains st' ltr' where "next_step ctx mt st msg' n' = Done (Some (st', ltr'))" and "rx_inv ctx mt st' ltr' msg' n'"
proof -
  have "message_length ctx mt msg' \<le> max_adu_length ctx" if h: "header_length ctx + 1 + meta_length ctx mt msg' \<le> n'"
  proof -
    have n': "n' \<le> length msg'" using rx_inv_room [OF inv] full msg'(2) by linarith
    have "meta_length ctx mt m = meta_length ctx mt msg'"
      using h meta_length_take [of ctx n' mt m] meta_length_take [of ctx n' mt msg'] prefix by simp
    then have "message_length ctx mt msg' = message_length ctx mt m"
      using h message_length_take [of ctx mt m n'] message_length_take [of ctx mt msg' n'] prefix by simp
    with c show ?thesis by (simp add: complete_def)
  qed
  with next_step_value [OF inv full msg'] that show ?thesis by force
qed

lemma rx_inv_total:
  assumes inv: "rx_inv ctx mt st ltr msg n" and c: "complete ctx mt m" and prefix: "take n msg = take n m"
  shows "n + ltr \<le> length m \<and> (ltr = 0 \<longrightarrow> n = length m)"
proof -
  have meta: "meta_length ctx mt msg = meta_length ctx mt m" if "header_length ctx < n"
    using meta_length_take [OF that, of mt msg] meta_length_take [OF that, of mt m] prefix by simp
  have "message_length ctx mt msg = message_length ctx mt m" if "header_length ctx + 1 + meta_length ctx mt msg \<le> n"
    using message_length_take [OF that] message_length_take [of ctx mt m n] meta prefix that by simp
  with inv c meta show ?thesis by (auto simp: rx_inv_def complete_def split: step.splits)
qed

lemma take_length_append: "take (length xs) (xs @ ys) = xs"
  by simp

lemma drop_behind: "length xs = q \<Longrightarrow> q \<le> k \<Longrightarrow> drop k (xs @ drop q ys) = drop k ys"
  by simp

lemma armed_and_read_twice: "armed_and_read b es (armed_and_read a xs w) = armed_and_read (a @ b) es w"
  by (simp add: armed_and_read_def)

lemma next_timeout_timed: "tv \<noteq> None \<Longrightarrow> next_timeout ctx ltr tv \<noteq> None"
  by (simp add: next_timeout_def)

text \<open>The chunks of a part of a complete message bring the loop to the end of that part.\<close>

lemma receive_loop_progress:
  assumes "rx_inv ctx mt st ltr msg n" and "complete ctx mt m" and "0 \<le> mb_s ctx"
    and "w_rx w = map Rx_data cs @ es" and "[] \<notin> set cs" and "take n msg @ concat cs = take k m" and "k \<le> length m"
  shows "\<exists>a st' ltr' msg' tv'. receive_loop ctx mt st ltr msg n tv w = receive_loop ctx mt st' ltr' msg' k tv' (armed_and_read a es w) \<and>
    rx_inv ctx mt st' ltr' msg' k \<and> msg' = take k m @ drop k msg \<and> (tv \<noteq> None \<longrightarrow> tv' \<noteq> None)"
  using assms
proof (induction ctx mt st ltr msg n tv w arbitrary: cs rule: receive_loop.induct)
  case (1 ctx mt st ltr msg n tv w)
  note inv = "1.prems"(1) and c = "1.prems"(2) and fd = "1.prems"(3) and rx = "1.prems"(4)
    and ne = "1.prems"(5) and m = "1.prems"(6) and k = "1.prems"(7)
  note room = rx_inv_room [OF inv]
  have n: "length (take n msg) = n" using room by simp
  have nk: "n + length (concat cs) = k" using arg_cong [OF m, of length] n k by simp
  have pre: "take n msg = take n m" using n nk arg_cong [OF m, of "take n"] by simp
  note total = rx_inv_total [OF inv c pre]
  show ?case
  proof (cases cs)
    case Nil
    then have "armed_and_read [] es w = w" using rx by (simp add: armed_and_read_def)
    moreover have nk: "n = k" using nk Nil by simp
    moreover have "take k m @ drop k msg = msg" using pre nk by (metis append_take_drop_id)
    ultimately show ?thesis using inv
      by (intro exI [of _ "[]"] exI [of _ st] exI [of _ ltr] exI [of _ msg] exI [of _ tv]) simp
  next
    case (Cons bs cs')
    note cs = this
    with ne have bs: "bs \<noteq> []" by auto
    then have "n < k" using nk cs by (cases bs) auto
    then have pos: "0 < ltr" and False: "ltr \<noteq> 0" using total k by auto
    let ?c = "take ltr bs" and ?cs = "if drop ltr bs = [] then cs' else drop ltr bs # cs'"
    let ?n = "n + length ?c" and ?msg = "take n msg @ ?c @ drop (n + length ?c) msg"
    have rx': "w_rx w = Rx_data bs # (map Rx_data cs' @ es)" using rx cs by simp
    have fits: "n + ltr \<le> length msg" using room by simp
    have same: "take n ?msg = take n msg" "length ?msg = length msg" using n fits by auto
    have stream: "take ?n ?msg @ concat ?cs = take k m"
    proof -
      have "concat ?cs = drop ltr bs @ concat cs'" by (cases "drop ltr bs = []") auto
      moreover have "take ?n ?msg = take n msg @ ?c"
        using take_length_append [of "take n msg @ ?c" "drop ?n msg"] n by (simp only: append_assoc length_append)
      ultimately have "take ?n ?msg @ concat ?cs = take n msg @ (?c @ drop ltr bs) @ concat cs'" by simp
      also have "\<dots> = take k m" using m cs by (simp only: append_take_drop_id) simp
      finally show ?thesis .
    qed
    have len: "length (take ?n ?msg) = ?n" using n fits by simp
    have "length (take ?n ?msg) + length (concat ?cs) = k" using arg_cong [OF stream, of length] k by (simp only: length_append length_take)
    with len have nk': "?n \<le> k" by linarith
    have "take ?n (take k m) = take ?n ?msg" using take_length_append [of "take ?n ?msg" "concat ?cs"] unfolding stream len .
    with nk' have pre': "take ?n ?msg = take ?n m" by (simp only: take_take min_absorb1)
    obtain st' ltr' where step: "(if ltr \<le> length bs then next_step ctx mt st (take n msg @ ?c @ drop (n + ltr) msg) (n + ltr)
                else Done (Some (st, ltr - length bs))) = Done (Some (st', ltr'))" and inv': "rx_inv ctx mt st' ltr' ?msg ?n"
    proof (cases "ltr \<le> length bs")
      case True
      then have "?n = n + ltr" by simp
      then obtain st' ltr' where "next_step ctx mt st ?msg ?n = Done (Some (st', ltr'))" "rx_inv ctx mt st' ltr' ?msg ?n"
        using next_step_complete [OF inv _ same c pre'] by blast
      with True that show ?thesis by (simp add: min_def split: if_splits)
    next
      case False
      from rx_inv_prefix [OF inv same] False have "rx_inv ctx mt st (ltr - length bs) ?msg ?n"
        using bs by (auto simp: rx_inv_def split: step.splits)
      with False that show ?thesis by simp
    qed
    let ?w = "armed_and_read [tv] (if drop ltr bs = [] then map Rx_data cs' @ es else Rx_data (drop ltr bs) # map Rx_data cs' @ es) w"
    note turn = receive_turn_chunk [OF rx' bs fd pos fits step, of tv]
    have rxw: "w_rx ?w = map Rx_data ?cs @ es" by (simp add: armed_and_read_def)
    have ne': "[] \<notin> set ?cs" using ne cs by auto
    from "1.IH" [OF False turn refl inv' c fd rxw ne' stream k] obtain a st2 ltr2 msg2 tv2 where
      rest: "receive_loop ctx mt st' ltr' ?msg ?n (next_timeout ctx ltr' tv) ?w = receive_loop ctx mt st2 ltr2 msg2 k tv2 (armed_and_read a es ?w)"
        "rx_inv ctx mt st2 ltr2 msg2 k" "msg2 = take k m @ drop k ?msg" "next_timeout ctx ltr' tv \<noteq> None \<longrightarrow> tv2 \<noteq> None" by blast
    have "drop k ?msg = drop k msg"
    proof -
      have p: "length (take n msg @ ?c) = ?n" using n by simp
      show ?thesis using drop_behind [OF p nk', of msg] by (simp only: append_assoc)
    qed
    with rest turn False next_timeout_timed [of tv ctx ltr'] show ?thesis
      by (intro exI [of _ "tv # a"] exI [of _ st2] exI [of _ ltr2] exI [of _ msg2] exI [of _ tv2])
         (simp add: receive_loop.simps [of ctx mt st ltr msg n tv w] armed_and_read_twice)
  qed
qed

lemma receive_loop_chunks:
  assumes inv: "rx_inv ctx mt st ltr msg n" and c: "complete ctx mt m" and fd: "0 \<le> mb_s ctx"
    and rx: "w_rx w = map Rx_data cs @ es" "[] \<notin> set cs" and m: "take n msg @ concat cs = m"
  shows "\<exists>a. receive_loop ctx mt st ltr msg n tv w =
    obind (be_check_integrity ctx (m @ drop (length m) msg) (length m) (armed_and_read a es w))
      (\<lambda>(rc, w). Done (rc, ctx, m @ drop (length m) msg, w))"
proof -
  from receive_loop_progress [OF inv c fd rx, of "length m" tv] m obtain a st' ltr' msg' tv' where
    loop: "receive_loop ctx mt st ltr msg n tv w = receive_loop ctx mt st' ltr' msg' (length m) tv' (armed_and_read a es w)"
    and inv': "rx_inv ctx mt st' ltr' msg' (length m)" and msg': "msg' = m @ drop (length m) msg" by auto
  have "take (length m) msg' = take (length m) m" using msg' by simp
  from rx_inv_total [OF inv' c this] have "ltr' = 0" by simp
  with loop msg' show ?thesis by (intro exI [of _ a]) (simp add: receive_loop.simps [of ctx mt st' 0])
qed

text \<open>The function: a complete message in any cutting is received as it is.\<close>

lemma receive_msg_chunks:
  assumes "complete ctx mt m" and "0 \<le> mb_s ctx" and "mb_s ctx < FD_SETSIZE" and "max_adu_length ctx \<le> length msg"
    and "w_rx w = map Rx_data cs @ es" and "[] \<notin> set cs" and "concat cs = m"
  shows "\<exists>a. modbus_receive_msg ctx msg mt w =
    obind (be_check_integrity ctx (m @ drop (length m) msg) (length m) (armed_and_read a es w))
      (\<lambda>(rc, w). Done (rc, ctx, m @ drop (length m) msg, w))"
  using receive_loop_chunks [OF rx_inv_start [OF assms(4)] assms(1,2,5,6)] assms(2,3,7)
  by (simp add: modbus_receive_msg_def be_is_connected_eq)

section \<open>A message that stays incomplete\<close>

text \<open>What the end of the input is reported as.\<close>

fun line_failure :: "rx_event \<Rightarrow> errno option" where
  "line_failure (Rx_data bs) = None"
| "line_failure Rx_eof = Some ECONNRESET"
| "line_failure (Rx_err e) = Some e"
| "line_failure (Rx_sel_err e) = (if e = EINTR then None else Some e)"
| "line_failure Rx_silence = Some ETIMEDOUT"

text \<open>
  Link recovery, when the failure is reported: the line is closed and opened again for a broken
  connection, and flushed after a silence; nothing is done otherwise. \<open>select\<close> and \<open>recv\<close> each look at
  their own errors.
\<close>

definition reopens :: "modbus \<Rightarrow> rx_event \<Rightarrow> errno \<Rightarrow> bool" where
  "reopens ctx ev e \<longleftrightarrow> link_recovery ctx \<and>
     (case ev of Rx_sel_err _ \<Rightarrow> e = EBADF | _ \<Rightarrow> e \<in> {ECONNRESET, ECONNREFUSED, EBADF})"

definition flushes :: "modbus \<Rightarrow> rx_event \<Rightarrow> errno \<Rightarrow> bool" where
  "flushes ctx ev e \<longleftrightarrow> link_recovery ctx \<and> e = ETIMEDOUT \<and> (ev = Rx_silence \<or> ev = Rx_sel_err e)"

definition failed_receive :: "modbus \<Rightarrow> rx_event \<Rightarrow> errno \<Rightarrow> world \<Rightarrow> (modbus \<times> world) outcome" where
  "failed_receive ctx ev e w =
     (if reopens ctx ev e then obind (reconnect ctx w) (\<lambda>(ctx, w). Done (ctx, set_errno e w))
      else Done (ctx, if flushes ctx ev e then set_errno e (snd (be_flush ctx (sleep_response_timeout ctx w))) else w))"

lemma world_rx_armed: "w\<lparr>w_armed := a, w_rx := es\<rparr> = w\<lparr>w_rx := es, w_armed := a\<rparr>"
  by (cases w) simp

lemma receive_turn_fails:
  assumes rx: "w_rx w = ev # es" and fail: "line_failure ev = Some e" and timed: "ev = Rx_silence \<Longrightarrow> tv \<noteq> None"
    and fd: "0 \<le> mb_s ctx"
  shows "\<exists>w0. w_errno w0 = e \<and> w_sent w0 = w_sent w \<and> w_rx w0 = (if ev = Rx_eof then ev # es else es) \<and>
    receive_turn ctx mt st ltr msg n tv w = obind (failed_receive ctx ev e w0) (\<lambda>(ctx, w). Done (Rx_return (-1) ctx msg w))"
proof (intro exI [of _ "w\<lparr>w_rx := (if ev = Rx_eof then ev # es else es), w_armed := w_armed w @ [tv], w_errno := e\<rparr>"] conjI)
  show "receive_turn ctx mt st ltr msg n tv w = obind (failed_receive ctx ev e
      (w\<lparr>w_rx := (if ev = Rx_eof then ev # es else es), w_armed := w_armed w @ [tv], w_errno := e\<rparr>)) (\<lambda>(ctx, w). Done (Rx_return (-1) ctx msg w))"
    using assms
    by (cases ev)
       (auto simp: receive_turn_def Let_def be_select_eq select_loop.simps [of "mb_s ctx" tv w] sys_select_def select_failed_def
          recv_failed_def be_recv_eq sys_recv_def failed_receive_def reopens_def flushes_def obind_assoc world_rx_armed split: if_splits)
qed simp_all

lemma failed_receive_result:
  assumes "failed_receive ctx ev e w = Done (ctx', w')" and "w_errno w = e"
  shows "relinked ctx ctx' \<and> w_sent w' = w_sent w \<and> w_errno w' = e"
proof -
  obtain r w1 where fl: "be_flush ctx (sleep_response_timeout ctx w) = (r, w1)"
    by (cases "be_flush ctx (sleep_response_timeout ctx w)")
  from be_flush_frame [OF fl] fl assms show ?thesis
    by (auto simp: failed_receive_def sleep_response_timeout_def split: if_splits elim!: obind_DoneE dest!: reconnect_result)
qed

lemma failed_receive_not_Fault [simp]: "failed_receive ctx ev e w \<noteq> Fault"
  by (auto simp: failed_receive_def outcome_iff)

lemma receive_msg_cut:
  assumes c: "complete ctx mt m" and fd: "0 \<le> mb_s ctx" "mb_s ctx < FD_SETSIZE" and len: "max_adu_length ctx \<le> length msg"
    and rx: "w_rx w = map Rx_data cs @ ev # es" "[] \<notin> set cs" and cut: "concat cs = take k m" "k < length m"
    and fail: "line_failure ev = Some e" and timed: "ev = Rx_silence \<Longrightarrow> first_timeout ctx mt \<noteq> None"
  shows "\<exists>w0. w_errno w0 = e \<and> w_sent w0 = w_sent w \<and> w_rx w0 = (if ev = Rx_eof then ev # es else es) \<and>
    modbus_receive_msg ctx msg mt w =
      obind (failed_receive ctx ev e w0) (\<lambda>(ctx, w). Done (-1, ctx, take k m @ drop k msg, w))"
proof -
  have k: "take 0 msg @ concat cs = take k m" "k \<le> length m" using cut by simp_all
  from receive_loop_progress [OF rx_inv_start [OF len] c fd(1) rx k, of "first_timeout ctx mt"] obtain a st ltr msg' tv where
    loop: "receive_loop ctx mt STEP_FUNCTION (header_length ctx + 1) msg 0 (first_timeout ctx mt) w =
        receive_loop ctx mt st ltr msg' k tv (armed_and_read a (ev # es) w)"
    and inv: "rx_inv ctx mt st ltr msg' k" and msg': "msg' = take k m @ drop k msg"
    and tv: "first_timeout ctx mt \<noteq> None \<longrightarrow> tv \<noteq> None" by blast
  have "take k msg' = take k m" using msg' k(2) by simp
  from rx_inv_total [OF inv c this] cut(2) have "ltr \<noteq> 0" by auto
  moreover have "w_rx (armed_and_read a (ev # es) w) = ev # es" by (simp add: armed_and_read_def)
  from receive_turn_fails [OF this fail _ fd(1), of tv mt st ltr msg' k] tv timed obtain w0 where
    "receive_turn ctx mt st ltr msg' k tv (armed_and_read a (ev # es) w) =
       obind (failed_receive ctx ev e w0) (\<lambda>(ctx, w). Done (Rx_return (-1) ctx msg' w))"
    "w_errno w0 = e" "w_sent w0 = w_sent w" "w_rx w0 = (if ev = Rx_eof then ev # es else es)"
    by (auto simp: armed_and_read_def)
  ultimately show ?thesis
    using loop fd
    by (intro exI [of _ w0], cases "failed_receive ctx ev e w0")
       (auto simp: modbus_receive_msg_def be_is_connected_eq receive_loop.simps [of ctx mt st ltr] msg')
qed

section \<open>The request of a client\<close>

text \<open>A positive result of the receive operation of a backend is a complete and intact indication.\<close>

lemma be_receive_result:
  assumes len: "max_adu_length ctx \<le> length req" and r: "be_receive ctx req w = Done (rc, ctx', req', w')"
  shows "length req' = length req \<and>
    (rc = -1 \<or> rc = 0 \<or>
     0 < rc \<and> ctx' = ctx \<and> nat rc \<le> length req' \<and> complete ctx MSG_INDICATION (take (nat rc) req') \<and>
     be_check_integrity ctx req' (nat rc) w' = Done (rc, w'))"
proof (cases "mb_backend ctx")
  case (Rtu rtu)
  show ?thesis
  proof (cases "rtu_confirmation_to_ignore rtu")
    case True
    with r Rtu obtain rc1 ctx1 w1 where "modbus_receive_msg ctx req MSG_CONFIRMATION w = Done (rc1, ctx1, req', w1)" "rc = 0"
      by (auto simp: be_receive_def modbus_rtu_receive_def Let_def elim!: obind_DoneE)
    with receive_msg_result [OF len] show ?thesis by blast
  next
    case False
    with r Rtu obtain ctx1 where m: "modbus_receive_msg ctx req MSG_INDICATION w = Done (rc, ctx1, req', w')"
        and c: "rc \<noteq> 0 \<longrightarrow> ctx' = ctx1"
      by (auto simp: be_receive_def modbus_rtu_receive_def Let_def elim!: obind_DoneE)
    from receive_msg_result [OF len m] c show ?thesis by auto
  qed
next
  case (Tcp t)
  with r have "modbus_receive_msg ctx req MSG_INDICATION w = Done (rc, ctx', req', w')"
    by (simp add: be_receive_def modbus_tcp_receive_def)
  from receive_msg_result [OF len this] show ?thesis by auto
next
  case (TcpPi t)
  with r have "modbus_receive_msg ctx req MSG_INDICATION w = Done (rc, ctx', req', w')"
    by (simp add: be_receive_def modbus_tcp_receive_def)
  from receive_msg_result [OF len this] show ?thesis by auto
qed

lemma be_receive_not_Fault:
  "max_adu_length ctx \<le> length req \<Longrightarrow> be_receive ctx req w \<noteq> Fault"
  using receive_msg_not_Fault [of ctx req]
  by (auto simp: be_receive_def modbus_rtu_receive_def modbus_tcp_receive_def Let_def outcome_iff split: backend_data.splits)

end
