(* ===== verification/Mb_Confirm.thy ===== *)
theory Mb_Confirm
  imports Mb_Receive
begin

text \<open>
  The check of a confirmation against its request (\<open>check_confirmation\<close> of modbus.c). The lemmas
  say exactly when a confirmation is accepted, what count it yields, and which error a refused one
  reports.
\<close>

text \<open>\<open>req[i] != rsp[i] || req[i + 1] != rsp[i + 1]\<close>.\<close>

definition pair_differs :: "byte list \<Rightarrow> byte list \<Rightarrow> nat \<Rightarrow> bool outcome" where
  "pair_differs req rsp i =
     obind (rd req i) (\<lambda>a. obind (rd rsp i) (\<lambda>b.
       if a \<noteq> b then Done True
       else obind (rd req (i + 1)) (\<lambda>a. obind (rd rsp (i + 1)) (\<lambda>b. Done (a \<noteq> b)))))"

definition rd16 :: "byte list \<Rightarrow> nat \<Rightarrow> int outcome" where
  "rd16 msg i = obind (rd msg i) (\<lambda>h. obind (rd msg (i + 1)) (\<lambda>l. Done (be16 h l)))"

text \<open>\<open>req_nb_value\<close>, \<open>rsp_nb_value\<close>, \<open>resp_addr_ok\<close> and \<open>resp_data_ok\<close>.\<close>

definition confirmation_values :: "int \<Rightarrow> nat \<Rightarrow> byte list \<Rightarrow> byte list \<Rightarrow> (int \<times> int \<times> bool \<times> bool) outcome" where
  "confirmation_values function offset req rsp =
     (if function = MODBUS_FC_READ_COILS \<or> function = MODBUS_FC_READ_DISCRETE_INPUTS then
        obind (rd16 req (offset + 3)) (\<lambda>nb. obind (rd rsp (offset + 1)) (\<lambda>n.
          Done (nb div 8 + (if nb mod 8 \<noteq> 0 then 1 else 0), uint n, True, True)))
      else if function = MODBUS_FC_WRITE_AND_READ_REGISTERS \<or> function = MODBUS_FC_READ_HOLDING_REGISTERS \<or>
              function = MODBUS_FC_READ_INPUT_REGISTERS then
        obind (rd16 req (offset + 3)) (\<lambda>nb. obind (rd rsp (offset + 1)) (\<lambda>n.
          Done (nb, uint n div 2, True, True)))
      else if function = MODBUS_FC_WRITE_MULTIPLE_COILS \<or> function = MODBUS_FC_WRITE_MULTIPLE_REGISTERS then
        obind (pair_differs req rsp (offset + 1)) (\<lambda>addr_differs.
        obind (rd16 req (offset + 3)) (\<lambda>nb. obind (rd16 rsp (offset + 3)) (\<lambda>n.
          Done (nb, n, \<not> addr_differs, True))))
      else if function = MODBUS_FC_REPORT_SLAVE_ID then
        obind (rd rsp (offset + 1)) (\<lambda>n. Done (uint n, uint n, True, True))
      else if function = MODBUS_FC_WRITE_SINGLE_COIL \<or> function = MODBUS_FC_WRITE_SINGLE_REGISTER then
        obind (pair_differs req rsp (offset + 1)) (\<lambda>addr_differs.
        obind (pair_differs req rsp (offset + 3)) (\<lambda>data_differs.
          Done (1, 1, \<not> addr_differs, \<not> data_differs)))
      else Done (1, 1, True, True))"

definition protocol_flush :: "modbus \<Rightarrow> world \<Rightarrow> world" where
  "protocol_flush ctx w =
     (if protocol_recovery ctx then snd (be_flush ctx (sleep_response_timeout ctx w)) else w)"

definition check_confirmation :: "modbus \<Rightarrow> byte list \<Rightarrow> byte list \<Rightarrow> int \<Rightarrow> world \<Rightarrow> (int \<times> world) outcome" where
  "check_confirmation ctx req rsp rsp_length w =
     (let offset = header_length ctx in
      obind (rd rsp offset) (\<lambda>rf. let function = uint rf in
      obind (be_pre_check_confirmation ctx req rsp w) (\<lambda>(rc, w).
      if rc = -1 then Done (-1, protocol_flush ctx w)
      else obind (compute_response_length_from_request ctx req) (\<lambda>rsp_length_computed.
      if function \<ge> 0x80 then
        obind (rd req offset) (\<lambda>qf.
          if rsp_length = int (offset + 2 + checksum_length ctx) \<and> uint qf = uint rf - 0x80 then
            obind (rd rsp (offset + 1)) (\<lambda>code.
              Done (fail_errno (if uint code < MODBUS_EXCEPTION_MAX then EMB (uint code) else EMBBADEXC) w))
          else Done (fail_errno EMBBADEXC w))
      else if rsp_length_computed = None \<or> rsp_length_computed = Some rsp_length then
        obind (rd req offset) (\<lambda>qf.
          if function \<noteq> uint qf then Done (fail_errno EMBBADDATA (protocol_flush ctx w))
          else obind (confirmation_values function offset req rsp) (\<lambda>(req_nb_value, rsp_nb_value, resp_addr_ok, resp_data_ok).
            if req_nb_value = rsp_nb_value \<and> resp_addr_ok \<and> resp_data_ok then Done (rsp_nb_value, w)
            else Done (fail_errno EMBBADDATA (protocol_flush ctx w))))
      else Done (fail_errno EMBBADDATA (protocol_flush ctx w))))))"

section \<open>When a confirmation is accepted\<close>

lemma pair_differs_value:
  "j = i + 1 \<Longrightarrow> j < length req \<Longrightarrow> j < length rsp \<Longrightarrow>
   pair_differs req rsp i = Done (req ! i \<noteq> rsp ! i \<or> req ! j \<noteq> rsp ! j)"
  by (simp add: pair_differs_def)

lemma rd16_value: "j = i + 1 \<Longrightarrow> j < length msg \<Longrightarrow> rd16 msg i = Done (be16 (msg ! i) (msg ! j))"
  by (simp add: rd16_def)

definition pre_check_ok :: "modbus \<Rightarrow> byte list \<Rightarrow> byte list \<Rightarrow> bool" where
  "pre_check_ok ctx req rsp \<longleftrightarrow>
     (if is_rtu ctx then req ! 0 = rsp ! 0 \<or> req ! 0 = 0
      else req ! 0 = rsp ! 0 \<and> req ! 1 = rsp ! 1 \<and> rsp ! 2 = 0 \<and> rsp ! 3 = 0)"

lemma be16_zero: "be16 h l = 0 \<longleftrightarrow> h = 0 \<and> l = 0"
proof -
  have "256 * uint h + uint l = 0 \<longleftrightarrow> uint h = 0 \<and> uint l = 0"
    using uint_ge_0 [of h] uint_ge_0 [of l] by linarith
  then show ?thesis by (simp add: be16_eq word_uint_eq_iff)
qed

lemma pre_check_value:
  assumes q: "header_length ctx < length req" and r: "header_length ctx < length rsp"
  shows "be_pre_check_confirmation ctx req rsp w =
    Done (if pre_check_ok ctx req rsp then (0, w)
          else fail_errno (if is_rtu ctx then EMBBADSLAVE else EMBBADDATA) w)"
proof (cases "is_rtu ctx")
  case True
  have "req \<noteq> []" "rsp \<noteq> []" using q r by auto
  with True show ?thesis
    by (simp add: be_pre_check_confirmation_def modbus_rtu_pre_check_confirmation_def pre_check_ok_def word_uint_eq_iff)
next
  case False
  have "req \<noteq> []" "rsp \<noteq> []" "1 < length req" "1 < length rsp" "2 < length rsp" "3 < length rsp"
    using q r backend_lengths(2) [OF False] by auto
  with False show ?thesis
    by (simp add: be_pre_check_confirmation_def modbus_tcp_pre_check_confirmation_def pre_check_ok_def be16_zero Let_def)
qed

text \<open>The counts and the echoes that the answer to a request must show.\<close>

definition confirmation_ok :: "modbus \<Rightarrow> byte list \<Rightarrow> byte list \<Rightarrow> bool" where
  "confirmation_ok ctx req rsp =
     (let h = header_length ctx; f = uint (rsp ! h); nb = be16 (req ! (h + 3)) (req ! (h + 4)) in
      if f = 1 \<or> f = 2 then (nb + 7) div 8 = uint (rsp ! (h + 1))
      else if f = 23 \<or> f = 3 \<or> f = 4 then nb = uint (rsp ! (h + 1)) div 2
      else if f = 15 \<or> f = 16 then
        req ! (h + 1) = rsp ! (h + 1) \<and> req ! (h + 2) = rsp ! (h + 2) \<and> nb = be16 (rsp ! (h + 3)) (rsp ! (h + 4))
      else if f = 5 \<or> f = 6 then
        req ! (h + 1) = rsp ! (h + 1) \<and> req ! (h + 2) = rsp ! (h + 2) \<and>
        req ! (h + 3) = rsp ! (h + 3) \<and> req ! (h + 4) = rsp ! (h + 4)
      else True)"

definition confirmation_count :: "modbus \<Rightarrow> byte list \<Rightarrow> int" where
  "confirmation_count ctx rsp =
     (let h = header_length ctx; f = uint (rsp ! h) in
      if f = 1 \<or> f = 2 \<or> f = 17 then uint (rsp ! (h + 1))
      else if f = 23 \<or> f = 3 \<or> f = 4 then uint (rsp ! (h + 1)) div 2
      else if f = 15 \<or> f = 16 then be16 (rsp ! (h + 3)) (rsp ! (h + 4))
      else 1)"

lemma bit_bytes: "(nb :: int) div 8 + (if nb mod 8 \<noteq> 0 then 1 else 0) = (nb + 7) div 8"
proof -
  have "(nb mod 8 + 7 + 8 * (nb div 8)) div 8 = nb div 8 + (nb mod 8 + 7) div 8"
    by (rule div_mult_self2) simp
  moreover have "nb mod 8 + 7 + 8 * (nb div 8) = nb + 7" by simp
  ultimately have sum: "(nb + 7) div 8 = nb div 8 + (nb mod 8 + 7) div 8" by (simp only:)
  have "nb mod 8 \<in> {0, 1, 2, 3, 4, 5, 6, 7}"
    using pos_mod_bound [of 8 nb] pos_mod_sign [of 8 nb] by auto
  then show ?thesis unfolding sum by auto
qed

text \<open>The function codes that the check tells apart.\<close>

lemma function_cases:
  fixes f :: int
  obtains (bits) "f = 1 \<or> f = 2" | (regs) "f = 23 \<or> f = 3 \<or> f = 4" | (multiple) "f = 15 \<or> f = 16"
  | (slave_id) "f = 17" | (single) "f = 5 \<or> f = 6"
  | (other) "f \<notin> {1, 2, 3, 4, 5, 6, 15, 16, 17, 23}"
  by blast

lemma confirmation_values_value:
  assumes q: "header_length ctx + 5 \<le> length req" and r: "header_length ctx + 5 \<le> length rsp"
  shows "case confirmation_values (uint (rsp ! header_length ctx)) (header_length ctx) req rsp of
      Done (a, b, c, d) \<Rightarrow> (a = b \<and> c \<and> d \<longleftrightarrow> confirmation_ok ctx req rsp) \<and> b = confirmation_count ctx rsp
    | _ \<Rightarrow> False"
proof -
  have idx: "header_length ctx + k < length req" "header_length ctx + k < length rsp" if "k < 5" for k
    using q r that by linarith+
  let ?h = "header_length ctx"
  have pairs: "rd16 req (?h + 3) = Done (be16 (req ! (?h + 3)) (req ! (?h + 4)))"
    "rd16 rsp (?h + 3) = Done (be16 (rsp ! (?h + 3)) (rsp ! (?h + 4)))"
    "pair_differs req rsp (?h + 1) = Done (req ! (?h + 1) \<noteq> rsp ! (?h + 1) \<or> req ! (?h + 2) \<noteq> rsp ! (?h + 2))"
    "pair_differs req rsp (?h + 3) = Done (req ! (?h + 3) \<noteq> rsp ! (?h + 3) \<or> req ! (?h + 4) \<noteq> rsp ! (?h + 4))"
    by ((rule rd16_value pair_differs_value, simp), (use q r in linarith)+)+
  note rds = idx [of 1] idx [of 2] idx [of 3] idx [of 4] pairs
  note defs = confirmation_values_def confirmation_ok_def confirmation_count_def Let_def bit_bytes [symmetric]
  show ?thesis
  proof (cases "uint (rsp ! header_length ctx)" rule: function_cases)
    case bits
    with rds show ?thesis by (elim disjE) (simp_all add: defs)
  next
    case regs
    with rds show ?thesis by (elim disjE) (simp_all add: defs)
  next
    case multiple
    with rds show ?thesis by (elim disjE) (auto simp: defs)
  next
    case slave_id
    with rds show ?thesis by (simp add: defs)
  next
    case single
    with rds show ?thesis by (elim disjE) (simp_all add: defs)
  next
    case other
    then show ?thesis by (simp add: defs)
  qed
qed

lemma compute_response_length_value:
  assumes q: "header_length ctx + 5 \<le> length req"
  shows "\<exists>l. compute_response_length_from_request ctx req = Done l"
proof -
  have "header_length ctx < length req" "header_length ctx + 3 < length req" "header_length ctx + 4 < length req"
    using q by linarith+
  then show ?thesis
    by (simp add: compute_response_length_from_request_def Let_def if_distrib [where f = "\<lambda>x. \<exists>l. x = Done l"])
qed

text \<open>Every branch of the function, for messages that hold the bytes it looks at.\<close>

lemma check_confirmation_cases:
  assumes q: "header_length ctx + 5 \<le> length req" and r: "header_length ctx + 5 \<le> length rsp"
    and l: "compute_response_length_from_request ctx req = Done expected"
  shows "check_confirmation ctx req rsp n w =
    (let h = header_length ctx; f = rsp ! h in
     if \<not> pre_check_ok ctx req rsp then
       Done (-1, protocol_flush ctx (set_errno (if is_rtu ctx then EMBBADSLAVE else EMBBADDATA) w))
     else if uint f \<ge> 128 then
       Done (fail_errno (if n = int (h + 2 + checksum_length ctx) \<and> uint (req ! h) = uint f - 128 \<and> uint (rsp ! (h + 1)) < 12
                         then EMB (uint (rsp ! (h + 1))) else EMBBADEXC) w)
     else if (expected = None \<or> expected = Some n) \<and> f = req ! h \<and> confirmation_ok ctx req rsp
     then Done (confirmation_count ctx rsp, w)
     else Done (fail_errno EMBBADDATA (protocol_flush ctx w)))"
proof -
  have h: "header_length ctx < length req" "header_length ctx < length rsp" "header_length ctx + 1 < length rsp"
    using q r by linarith+
  from confirmation_values_value [OF q r] obtain a b c d where
      v: "confirmation_values (uint (rsp ! header_length ctx)) (header_length ctx) req rsp = Done (a, b, c, d)"
      "(a = b \<and> c \<and> d) = confirmation_ok ctx req rsp" "b = confirmation_count ctx rsp"
    by (auto split: outcome.splits)
  have rds: "rd rsp (header_length ctx) = Done (rsp ! header_length ctx)" "rd req (header_length ctx) = Done (req ! header_length ctx)"
    "rd rsp (header_length ctx + 1) = Done (rsp ! (header_length ctx + 1))"
    using h by (simp_all only: rd_Done)
  note eval = check_confirmation_def Let_def rds obind.simps pre_check_value [OF h(1,2)] prod.case l v(1)
  show ?thesis
  proof (cases "pre_check_ok ctx req rsp")
    case False
    then show ?thesis by (simp add: eval)
  next
    case pre: True
    show ?thesis
    proof (cases "uint (rsp ! header_length ctx) \<ge> 128")
      case True
      with pre h(3) show ?thesis by (simp add: eval del: of_nat_add)
    next
      case False
      have "uint (rsp ! header_length ctx) = uint (req ! header_length ctx) \<longleftrightarrow> rsp ! header_length ctx = req ! header_length ctx"
        by (simp add: word_uint_eq_iff)
      note same = this
      show ?thesis
      proof (cases "rsp ! header_length ctx = req ! header_length ctx")
        case True
        with pre False v(2) [symmetric] v(3) show ?thesis by (simp add: eval v(1) [unfolded True])
      next
        case differ: False
        with pre False same show ?thesis by (simp add: eval)
      qed
    qed
  qed
qed

end
