(* ===== verification/Mb_Data.thy ===== *)
theory Mb_Data
  imports Mb_Prelude
begin

text \<open>
  The helpers of modbus-data.c on bits, bytes and floats, the integer macros of modbus.h and the
  fallback \<open>strlcpy\<close> of modbus.c. A \<open>float\<close> is its 32-bit pattern: the code converts between the
  two with \<open>memcpy\<close> only. The lemmas give the value of every function and the round trips.
\<close>

section \<open>Bits and bytes\<close>

definition modbus_set_bits_from_byte :: "byte list \<Rightarrow> int \<Rightarrow> byte \<Rightarrow> byte list outcome" where
  "modbus_set_bits_from_byte dest idx value =
     ofor [0..<8] (\<lambda>i dest. wri dest (idx + int i) (if value AND push_bit i 1 \<noteq> 0 then 1 else 0)) dest"

text \<open>The loop variable of \<open>modbus_set_bits_from_bytes\<close> is unsigned: \<open>idx\<close> is converted to 32 bits.\<close>

definition modbus_set_bits_from_bytes :: "byte list \<Rightarrow> int \<Rightarrow> nat \<Rightarrow> byte list \<Rightarrow> byte list outcome" where
  "modbus_set_bits_from_bytes dest idx nb_bits tab_byte =
     (let start = nat (idx mod 2 ^ 32); stop = (start + nb_bits) mod 2 ^ 32 in
      obind (ofor [start..<stop]
        (\<lambda>i (dest, shift).
           obind (rd tab_byte ((i - start) div 8)) (\<lambda>b.
           obind (wr dest i (if b AND push_bit shift 1 \<noteq> 0 then 1 else 0)) (\<lambda>dest.
             Done (dest, (shift + 1) mod 8))))
        (dest, 0))
      (\<lambda>(dest, shift). Done dest))"

definition modbus_get_byte_from_bits :: "byte list \<Rightarrow> int \<Rightarrow> nat \<Rightarrow> byte outcome" where
  "modbus_get_byte_from_bits src idx nb_bits =
     (let nb_bits = (if nb_bits > 8 then 8 else nb_bits) in
      ofor [0..<nb_bits]
        (\<lambda>i value. obind (rd src (nat ((idx + int i) mod 2 ^ 32))) (\<lambda>b. Done (value OR push_bit i b)))
        0)"

text \<open>The bits of a list of bytes, least significant first, as the code stores them: 0 or 1.\<close>

definition bit_byte :: "bool \<Rightarrow> byte" where
  "bit_byte b = (if b then 1 else 0)"

definition unpack_bits :: "nat \<Rightarrow> byte list \<Rightarrow> byte list" where
  "unpack_bits n bs = map (\<lambda>k. bit_byte (bit (bs ! (k div 8)) (k mod 8))) [0..<n]"

lemma length_unpack_bits [simp]: "length (unpack_bits n bs) = n"
  by (simp add: unpack_bits_def)

lemma set_unpack_bits: "set (unpack_bits n bs) \<subseteq> {0, 1}"
  by (auto simp: unpack_bits_def bit_byte_def)

lemma byte_test_bit [simp]: "(b :: byte) AND 2 ^ k = 0 \<longleftrightarrow> \<not> bit b k"
  by (simp add: bit_iff_and_push_bit_not_eq_0)

lemma set_bits_from_byte_value:
  assumes "k + 8 \<le> length dest"
  shows "modbus_set_bits_from_byte dest (int k) value =
         Done (take k dest @ unpack_bits 8 [value] @ drop (k + 8) dest)"
proof -
  let ?s = "\<lambda>i. take k dest @ unpack_bits i [value] @ drop (k + i) dest"
  have "modbus_set_bits_from_byte dest (int k) value = Done (?s 8)"
    unfolding modbus_set_bits_from_byte_def
  proof (rule ofor_upt_state)
    fix i :: nat
    assume "i < 8"
    then have "drop (k + i) dest = dest ! (k + i) # drop (k + Suc i) dest"
      using assms by (simp add: Cons_nth_drop_Suc)
    moreover have "unpack_bits (Suc i) [value] = unpack_bits i [value] @ [if value AND push_bit i 1 \<noteq> 0 then 1 else 0]"
      using \<open>i < 8\<close> by (simp add: unpack_bits_def bit_byte_def)
    ultimately show "wri (?s i) (int k + int i) (if value AND push_bit i 1 \<noteq> 0 then 1 else 0) = Done (?s (Suc i))"
      using \<open>i < 8\<close> assms by (simp add: wri_def wr_def list_update_append nat_add_distrib)
  qed (simp_all add: unpack_bits_def)
  then show ?thesis by simp
qed

lemma unpack_bits_Suc: "unpack_bits (Suc i) bs = unpack_bits i bs @ [bit_byte (bit (bs ! (i div 8)) (i mod 8))]"
  by (simp add: unpack_bits_def)

lemma set_bits_from_bytes_value:
  assumes "k + n \<le> length dest" and "length dest < 2 ^ 32" and "n \<le> 8 * length bs"
  shows "modbus_set_bits_from_bytes dest (int k) n bs =
         Done (take k dest @ unpack_bits n bs @ drop (k + n) dest)"
proof -
  let ?body = "\<lambda>i (dest, shift).
           obind (rd bs ((i - k) div 8)) (\<lambda>b.
           obind (wr dest i (if b AND push_bit shift 1 \<noteq> 0 then 1 else 0)) (\<lambda>dest.
             Done (dest, (shift + 1) mod 8)))"
  let ?s = "\<lambda>j. (take k dest @ unpack_bits (j - k) bs @ drop j dest, (j - k) mod 8)"
  have start: "nat (int k mod 2 ^ 32) = k" and stop: "(k + n) mod 2 ^ 32 = k + n"
    using assms by simp_all
  have "ofor [k..<k + n] ?body (dest, 0) = Done (?s (k + n))"
  proof (rule ofor_upt_state)
    fix j
    assume "k \<le> j" and lt: "j < k + n"
    then obtain i where j: "j = k + i" and i: "i < n" using le_Suc_ex by fastforce
    then have 1: "drop (k + i) dest = dest ! (k + i) # drop (k + Suc i) dest"
      using assms by (simp add: Cons_nth_drop_Suc)
    have 2: "i div 8 < length bs" using i assms by linarith
    have 4: "k + i < length dest" using i assms by linarith
    then have 5: "Suc (length dest - Suc 0) = length dest" by linarith
    show "?body j (?s j) = Done (?s (Suc j))"
      using 2 4 5 i
      by (simp add: j 1 unpack_bits_Suc wr_def list_update_append bit_byte_def mod_Suc_eq del: drop_drop)
  qed (simp_all add: unpack_bits_def)
  then show ?thesis
    unfolding modbus_set_bits_from_bytes_def Let_def start stop by simp
qed

text \<open>The byte of up to eight bits, when the bits are 0 or 1.\<close>

fun byte_of_bits :: "byte list \<Rightarrow> byte" where
  "byte_of_bits [] = 0"
| "byte_of_bits (b # bs) = b OR push_bit 1 (byte_of_bits bs)"

lemma byte_of_bits_append:
  "byte_of_bits (bs @ [b]) = byte_of_bits bs OR push_bit (length bs) b"
  by (induction bs) (simp_all add: push_bit_or push_bit_push_bit or.assoc)

lemma bit_byte_of_bits:
  "set bs \<subseteq> {0, 1} \<Longrightarrow> bit (byte_of_bits bs) k \<longleftrightarrow> k < 8 \<and> k < length bs \<and> bs ! k = 1"
proof (induction bs arbitrary: k)
  case Nil
  then show ?case by simp
next
  case (Cons b bs)
  show ?case
  proof (cases k)
    case 0
    have "bit (b OR push_bit 1 (byte_of_bits bs)) 0 \<longleftrightarrow> bit b 0"
      by (simp only: bit_or_iff bit_push_bit_iff) simp
    with 0 Cons.prems show ?thesis by (auto simp del: push_bit_numeral)
  next
    case (Suc j)
    from Cons have "bit (byte_of_bits bs) j \<longleftrightarrow> j < 8 \<and> j < length bs \<and> bs ! j = 1" by simp
    moreover have "bit (b OR push_bit 1 (byte_of_bits bs)) (Suc j) \<longleftrightarrow> j < 7 \<and> bit (byte_of_bits bs) j"
      using Cons.prems by (auto simp: bit_or_iff bit_push_bit_iff simp del: push_bit_numeral push_bit_Suc push_bit_eq_mult)
    ultimately show ?thesis using Suc by (simp del: push_bit_numeral) auto
  qed
qed

lemma get_byte_from_bits_value:
  assumes "k + min n 8 \<le> length src" and "length src < 2 ^ 32"
  shows "modbus_get_byte_from_bits src (int k) n = Done (byte_of_bits (take (min n 8) (drop k src)))"
proof -
  have n: "(if n > 8 then 8 else n) = min n 8" by simp
  let ?s = "\<lambda>i. byte_of_bits (take i (drop k src))"
  have "ofor [0..<min n 8] (\<lambda>i value. obind (rd src (nat ((int k + int i) mod 2 ^ 32))) (\<lambda>b. Done (value OR push_bit i b))) 0
        = Done (?s (min n 8))"
  proof (rule ofor_upt_state)
    fix i
    assume "i < min n 8"
    then have i: "k + i < length src" using assms by linarith
    then have "(int k + int i) mod 2 ^ 32 = int (k + i)"
      using assms by (simp flip: of_nat_add)
    then have "nat ((int k + int i) mod 2 ^ 32) = k + i" by (simp only: nat_int)
    moreover have "nat (int k + int i) = k + i" by simp
    moreover have "take (Suc i) (drop k src) = take i (drop k src) @ [src ! (k + i)]"
      using i by (simp add: take_Suc_conv_app_nth)
    ultimately show "obind (rd src (nat ((int k + int i) mod 2 ^ 32))) (\<lambda>b. Done (?s i OR push_bit i b)) = Done (?s (Suc i))"
      using i by (simp add: byte_of_bits_append)
  qed simp_all
  then show ?thesis
    unfolding modbus_get_byte_from_bits_def Let_def n .
qed

text \<open>Setting eight bits from a byte and reading the byte back.\<close>

lemma byte_of_unpack_bits: "byte_of_bits (unpack_bits 8 [v]) = v"
proof (rule bit_eqI)
  fix k
  have "bit v k \<Longrightarrow> k < 8" using bit_imp_le_length [of v k] by simp
  then show "bit (byte_of_bits (unpack_bits 8 [v])) k \<longleftrightarrow> bit v k"
    by (auto simp: bit_byte_of_bits [OF set_unpack_bits]) (auto simp: unpack_bits_def bit_byte_def split: if_splits)
qed

lemma bits_byte_roundtrip:
  assumes "k + 8 \<le> length dest" and "length dest < 2 ^ 32"
  shows "obind (modbus_set_bits_from_byte dest (int k) v) (\<lambda>d. modbus_get_byte_from_bits d (int k) 8) = Done v"
  using assms
  by (simp add: set_bits_from_byte_value get_byte_from_bits_value byte_of_unpack_bits)

text \<open>The bits of one byte of a list.\<close>

text \<open>Each byte of the source is read back from its bits, the last one as far as it was written.\<close>

lemma byte_of_unpacked:
  assumes "8 * j < n"
  shows "byte_of_bits (take 8 (drop (8 * j) (unpack_bits n bs))) = take_bit (min 8 (n - 8 * j)) (bs ! j)"
proof (rule bit_word_eqI)
  fix i
  assume i: "i < LENGTH(8)"
  let ?xs = "take 8 (drop (8 * j) (unpack_bits n bs))"
  have "set ?xs \<subseteq> {0, 1}" using set_unpack_bits [of n bs] by (meson order_trans set_drop_subset set_take_subset)
  moreover have "?xs ! i = bit_byte (bit (bs ! j) i)" if "i < n - 8 * j"
  proof -
    have "8 * j + i < n" "(8 * j + i) div 8 = j" "(8 * j + i) mod 8 = i" using that i by simp_all
    then show ?thesis using i by (simp add: unpack_bits_def)
  qed
  ultimately show "bit (byte_of_bits ?xs) i = bit (take_bit (min 8 (n - 8 * j)) (bs ! j)) i"
    using i by (auto simp: bit_byte_of_bits bit_take_bit_iff bit_byte_def split: if_splits)
qed

lemma unpack_bits_byte:
  assumes "j < length bs"
  shows "take 8 (drop (8 * j) (unpack_bits (8 * length bs) bs)) = unpack_bits 8 [bs ! j]"
proof (rule nth_equalityI)
  have "8 * j + 8 \<le> 8 * length bs" using assms by linarith
  then show len: "length (take 8 (drop (8 * j) (unpack_bits (8 * length bs) bs))) = length (unpack_bits 8 [bs ! j])"
    by simp
  fix i
  assume "i < length (take 8 (drop (8 * j) (unpack_bits (8 * length bs) bs)))"
  then have i: "i < 8" by simp
  moreover from this have "8 * j + i < 8 * length bs" using assms by linarith
  ultimately show "take 8 (drop (8 * j) (unpack_bits (8 * length bs) bs)) ! i = unpack_bits 8 [bs ! j] ! i"
    by (simp add: unpack_bits_def)
qed

section \<open>Values stored in a table\<close>

text \<open>
  The contract of a pair of functions that store a value in a table and load it: a table that is
  large enough takes every value, what is loaded is what was stored, storing what was loaded changes
  nothing, and a second store hides the first.
\<close>

locale cell =
  fixes store :: "'v \<Rightarrow> 'a list \<Rightarrow> 'a list outcome"
    and load :: "'a list \<Rightarrow> 'v outcome"
    and fits :: "'a list \<Rightarrow> bool"
  assumes store_fits: "fits a \<Longrightarrow> \<exists>a'. store v a = Done a' \<and> length a' = length a \<and> fits a'"
    and load_fits: "fits a \<Longrightarrow> \<exists>v. load a = Done v"
    and load_stored: "fits a \<Longrightarrow> store v a = Done a' \<Longrightarrow> load a' = Done v"
    and store_loaded: "fits a \<Longrightarrow> load a = Done v \<Longrightarrow> store v a = Done a"
    and store_again: "fits a \<Longrightarrow> store v a = Done a' \<Longrightarrow> store u a' = store u a"
begin

lemma store_then_load: "fits a \<Longrightarrow> obind (store v a) load = Done v"
  using store_fits [of a v] load_stored [of a v] by auto

lemma load_then_store: "fits a \<Longrightarrow> obind (load a) (\<lambda>v. store v a) = Done a"
  using load_fits [of a] store_loaded [of a] by auto

lemma store_inject: "fits a \<Longrightarrow> store v a = store u a \<longleftrightarrow> v = u"
  using store_fits [of a v] load_stored [of a v] load_stored [of a u] by auto

text \<open>Of any number of stores the last one counts.\<close>

lemma last_store: "fits a \<Longrightarrow> vs \<noteq> [] \<Longrightarrow> fold (\<lambda>v r. obind r (store v)) vs (Done a) = store (last vs) a"
proof (induction vs rule: rev_induct)
  case (snoc v vs)
  show ?case
  proof (cases "vs = []")
    case False
    obtain a' where a': "store (last vs) a = Done a'" using store_fits [OF snoc.prems(1)] by blast
    with snoc False store_again [OF snoc.prems(1) a'] show ?thesis by simp
  qed simp
qed simp

end

text \<open>A cell at a place: only the entries from \<open>lo\<close> to \<open>hi\<close> change.\<close>

locale placed_cell = cell store load fits
  for store :: "'v \<Rightarrow> 'a list \<Rightarrow> 'a list outcome" and load and fits +
  fixes lo hi :: nat
  assumes elsewhere: "fits a \<Longrightarrow> store v a = Done a' \<Longrightarrow> i < lo \<or> hi \<le> i \<Longrightarrow> a' ! i = a ! i"
begin

lemma outside_kept:
  assumes "fits a" and "store v a = Done a'"
  shows "take lo a' = take lo a \<and> drop hi a' = drop hi a"
proof -
  have "length a' = length a" using store_fits [OF assms(1), of v] assms(2) by auto
  then show ?thesis using elsewhere [OF assms] by (auto intro!: nth_equalityI)
qed

end

section \<open>Floats\<close>

text \<open>
  \<open>a\<close>, \<open>b\<close>, \<open>c\<close>, \<open>d\<close> are the bytes of the pattern from the most significant one. The
  variants differ in the place of each byte in the two registers.
\<close>

definition assemble_u32 :: "byte \<Rightarrow> byte \<Rightarrow> byte \<Rightarrow> byte \<Rightarrow> u32" where
  "assemble_u32 a b c d =
     push_bit 24 (ucast a) OR push_bit 16 (ucast b) OR push_bit 8 (ucast c) OR ucast d"

definition byte_of_u32 :: "nat \<Rightarrow> u32 \<Rightarrow> byte" where
  "byte_of_u32 s i = ucast (drop_bit s i AND 0xFF)"

definition reg_of_bytes :: "byte \<Rightarrow> byte \<Rightarrow> u16" where
  "reg_of_bytes h l = push_bit 8 (ucast h) OR ucast l"

definition modbus_get_float_abcd :: "u16 list \<Rightarrow> u32 outcome" where
  "modbus_get_float_abcd src =
     obind (rd src 0) (\<lambda>r0. obind (rd src 1) (\<lambda>r1.
       let a = hi8 r0; b = lo8 r0; c = hi8 r1; d = lo8 r1 in Done (assemble_u32 a b c d)))"

definition modbus_get_float_dcba :: "u16 list \<Rightarrow> u32 outcome" where
  "modbus_get_float_dcba src =
     obind (rd src 0) (\<lambda>r0. obind (rd src 1) (\<lambda>r1.
       let d = hi8 r0; c = lo8 r0; b = hi8 r1; a = lo8 r1 in Done (assemble_u32 a b c d)))"

definition modbus_get_float_badc :: "u16 list \<Rightarrow> u32 outcome" where
  "modbus_get_float_badc src =
     obind (rd src 0) (\<lambda>r0. obind (rd src 1) (\<lambda>r1.
       let b = hi8 r0; a = lo8 r0; d = hi8 r1; c = lo8 r1 in Done (assemble_u32 a b c d)))"

definition modbus_get_float_cdab :: "u16 list \<Rightarrow> u32 outcome" where
  "modbus_get_float_cdab src =
     obind (rd src 0) (\<lambda>r0. obind (rd src 1) (\<lambda>r1.
       let c = hi8 r0; d = lo8 r0; a = hi8 r1; b = lo8 r1 in Done (assemble_u32 a b c d)))"

definition modbus_get_float :: "u16 list \<Rightarrow> u32 outcome" where
  "modbus_get_float src = modbus_get_float_cdab src"

definition modbus_set_float_abcd :: "u32 \<Rightarrow> u16 list \<Rightarrow> u16 list outcome" where
  "modbus_set_float_abcd i dest =
     (let a = byte_of_u32 24 i; b = byte_of_u32 16 i; c = byte_of_u32 8 i; d = byte_of_u32 0 i in
      obind (wr dest 0 (reg_of_bytes a b)) (\<lambda>dest. wr dest 1 (reg_of_bytes c d)))"

definition modbus_set_float_dcba :: "u32 \<Rightarrow> u16 list \<Rightarrow> u16 list outcome" where
  "modbus_set_float_dcba i dest =
     (let a = byte_of_u32 24 i; b = byte_of_u32 16 i; c = byte_of_u32 8 i; d = byte_of_u32 0 i in
      obind (wr dest 0 (reg_of_bytes d c)) (\<lambda>dest. wr dest 1 (reg_of_bytes b a)))"

definition modbus_set_float_badc :: "u32 \<Rightarrow> u16 list \<Rightarrow> u16 list outcome" where
  "modbus_set_float_badc i dest =
     (let a = byte_of_u32 24 i; b = byte_of_u32 16 i; c = byte_of_u32 8 i; d = byte_of_u32 0 i in
      obind (wr dest 0 (reg_of_bytes b a)) (\<lambda>dest. wr dest 1 (reg_of_bytes d c)))"

definition modbus_set_float_cdab :: "u32 \<Rightarrow> u16 list \<Rightarrow> u16 list outcome" where
  "modbus_set_float_cdab i dest =
     (let a = byte_of_u32 24 i; b = byte_of_u32 16 i; c = byte_of_u32 8 i; d = byte_of_u32 0 i in
      obind (wr dest 0 (reg_of_bytes c d)) (\<lambda>dest. wr dest 1 (reg_of_bytes a b)))"

definition modbus_set_float :: "u32 \<Rightarrow> u16 list \<Rightarrow> u16 list outcome" where
  "modbus_set_float i dest = modbus_set_float_cdab i dest"

lemma u32_mask_FF: "(0xFF :: u32) = mask 8"
  by (simp add: mask_eq_exp_minus_1)

lemma bit_byte_of_u32: "bit (byte_of_u32 s i) n \<longleftrightarrow> n < 8 \<and> bit i (s + n)"
  by (auto simp: byte_of_u32_def u32_mask_FF bit_simps ac_simps dest: bit_imp_le_length simp del: mask_numeral)

lemma bytes_of_reg_of_bytes [simp]: "hi8 (reg_of_bytes h l) = h" "lo8 (reg_of_bytes h l) = l"
  by (rule bit_eqI, auto simp: bit_hi8 bit_lo8 reg_of_bytes_def bit_simps dest: bit_imp_le_length)+

lemma reg_of_bytes_of_reg [simp]: "reg_of_bytes (hi8 r) (lo8 r) = r"
  by (rule bit_eqI) (auto simp: bit_hi8 bit_lo8 reg_of_bytes_def bit_simps dest: bit_imp_le_length)

lemma assemble_bytes_of_u32 [simp]:
  "assemble_u32 (byte_of_u32 24 i) (byte_of_u32 16 i) (byte_of_u32 8 i) (byte_of_u32 0 i) = i"
proof (rule bit_eqI)
  fix n
  assume "possible_bit TYPE(u32) n"
  then have "n < 8 \<or> 8 \<le> n \<and> n < 16 \<or> 16 \<le> n \<and> n < 24 \<or> 24 \<le> n \<and> n < 32"
    by (simp add: possible_bit_word) linarith
  then show "bit (assemble_u32 (byte_of_u32 24 i) (byte_of_u32 16 i) (byte_of_u32 8 i) (byte_of_u32 0 i)) n
             \<longleftrightarrow> bit i n"
    by (auto simp: assemble_u32_def bit_simps bit_byte_of_u32)
qed

lemma bytes_of_assemble [simp]:
  "byte_of_u32 24 (assemble_u32 a b c d) = a" "byte_of_u32 16 (assemble_u32 a b c d) = b"
  "byte_of_u32 8 (assemble_u32 a b c d) = c" "byte_of_u32 0 (assemble_u32 a b c d) = d"
  by (rule bit_eqI, auto simp: bit_byte_of_u32 assemble_u32_def bit_simps dest: bit_imp_le_length)+

lemmas float_defs =
  modbus_set_float_def modbus_set_float_abcd_def modbus_set_float_dcba_def modbus_set_float_badc_def
  modbus_set_float_cdab_def modbus_get_float_def modbus_get_float_abcd_def modbus_get_float_dcba_def
  modbus_get_float_badc_def modbus_get_float_cdab_def

lemma two_registers: "2 \<le> length xs \<Longrightarrow> \<exists>r0 r1 rest. xs = r0 # r1 # rest"
  by (cases xs; cases "tl xs") auto

section \<open>Integer macros of modbus.h\<close>

definition MODBUS_GET_INT64_FROM_INT16 :: "u16 list \<Rightarrow> nat \<Rightarrow> 64 word outcome" where
  "MODBUS_GET_INT64_FROM_INT16 tab i =
     obind (rd tab i) (\<lambda>w0. obind (rd tab (i + 1)) (\<lambda>w1. obind (rd tab (i + 2)) (\<lambda>w2.
     obind (rd tab (i + 3)) (\<lambda>w3.
       Done (push_bit 48 (ucast w0) OR push_bit 32 (ucast w1) OR push_bit 16 (ucast w2) OR ucast w3)))))"

definition MODBUS_GET_INT32_FROM_INT16 :: "u16 list \<Rightarrow> nat \<Rightarrow> u32 outcome" where
  "MODBUS_GET_INT32_FROM_INT16 tab i =
     obind (rd tab i) (\<lambda>w0. obind (rd tab (i + 1)) (\<lambda>w1. Done (push_bit 16 (ucast w0) OR ucast w1)))"

definition MODBUS_GET_INT16_FROM_INT8 :: "byte list \<Rightarrow> nat \<Rightarrow> u16 outcome" where
  "MODBUS_GET_INT16_FROM_INT8 tab i =
     obind (rd tab i) (\<lambda>b0. obind (rd tab (i + 1)) (\<lambda>b1. Done (push_bit 8 (ucast b0) OR ucast b1)))"

definition MODBUS_SET_INT16_TO_INT8 :: "byte list \<Rightarrow> nat \<Rightarrow> u16 \<Rightarrow> byte list outcome" where
  "MODBUS_SET_INT16_TO_INT8 tab i v =
     obind (wr tab i (ucast (drop_bit 8 v))) (\<lambda>tab. wr tab (i + 1) (ucast v))"

definition MODBUS_SET_INT32_TO_INT16 :: "u16 list \<Rightarrow> nat \<Rightarrow> u32 \<Rightarrow> u16 list outcome" where
  "MODBUS_SET_INT32_TO_INT16 tab i v =
     obind (wr tab i (ucast (drop_bit 16 v))) (\<lambda>tab. wr tab (i + 1) (ucast v))"

definition MODBUS_SET_INT64_TO_INT16 :: "u16 list \<Rightarrow> nat \<Rightarrow> 64 word \<Rightarrow> u16 list outcome" where
  "MODBUS_SET_INT64_TO_INT16 tab i v =
     obind (wr tab i (ucast (drop_bit 48 v))) (\<lambda>tab.
     obind (wr tab (i + 1) (ucast (drop_bit 32 v))) (\<lambda>tab.
     obind (wr tab (i + 2) (ucast (drop_bit 16 v))) (\<lambda>tab. wr tab (i + 3) (ucast v))))"

lemma u64_of_words:
  "push_bit 48 (ucast (ucast (drop_bit 48 v) :: u16)) OR push_bit 32 (ucast (ucast (drop_bit 32 v) :: u16)) OR
   push_bit 16 (ucast (ucast (drop_bit 16 v) :: u16)) OR ucast (ucast v :: u16) = (v :: 64 word)"
  (is "?w = v")
proof (rule bit_eqI)
  fix n
  assume "possible_bit TYPE(64 word) n"
  then have "n < 16 \<or> 16 \<le> n \<and> n < 32 \<or> 32 \<le> n \<and> n < 48 \<or> 48 \<le> n \<and> n < 64"
    by (simp add: possible_bit_word) linarith
  then show "bit ?w n \<longleftrightarrow> bit v n" by (auto simp: bit_simps)
qed

lemma u32_of_words:
  "push_bit 16 (ucast (ucast (drop_bit 16 v) :: u16)) OR ucast (ucast v :: u16) = (v :: u32)"
  by (rule bit_eqI) (auto simp: bit_simps dest: bit_imp_le_length)

lemma u16_of_bytes:
  "push_bit 8 (ucast (ucast (drop_bit 8 v) :: byte)) OR ucast (ucast v :: byte) = (v :: u16)"
  by (rule bit_eqI) (auto simp: bit_simps dest: bit_imp_le_length)

text \<open>Each byte order is a cell of two registers, each macro a cell at its index.\<close>

lemma two_registersE:
  assumes "2 \<le> length xs"
  obtains r0 r1 rest where "xs = r0 # r1 # rest"
  using two_registers [OF assms] by blast

interpretation abcd: placed_cell modbus_set_float_abcd modbus_get_float_abcd "\<lambda>a. 2 \<le> length a" 0 2
  by unfold_locales (auto simp: float_defs Let_def nth_Cons' elim!: two_registersE)

interpretation dcba: placed_cell modbus_set_float_dcba modbus_get_float_dcba "\<lambda>a. 2 \<le> length a" 0 2
  by unfold_locales (auto simp: float_defs Let_def nth_Cons' elim!: two_registersE)

interpretation badc: placed_cell modbus_set_float_badc modbus_get_float_badc "\<lambda>a. 2 \<le> length a" 0 2
  by unfold_locales (auto simp: float_defs Let_def nth_Cons' elim!: two_registersE)

interpretation cdab: placed_cell modbus_set_float_cdab modbus_get_float_cdab "\<lambda>a. 2 \<le> length a" 0 2
  by unfold_locales (auto simp: float_defs Let_def nth_Cons' elim!: two_registersE)

interpretation float: placed_cell modbus_set_float modbus_get_float "\<lambda>a. 2 \<le> length a" 0 2
  unfolding modbus_set_float_def [abs_def] modbus_get_float_def [abs_def] by unfold_locales

lemmas macro_defs =
  MODBUS_SET_INT64_TO_INT16_def MODBUS_GET_INT64_FROM_INT16_def MODBUS_SET_INT32_TO_INT16_def
  MODBUS_GET_INT32_FROM_INT16_def MODBUS_SET_INT16_TO_INT8_def MODBUS_GET_INT16_FROM_INT8_def

text \<open>The words of a number, put together from the entries of the table.\<close>

lemma words_of_u64:
  fixes w0 w1 w2 w3 :: u16
  defines "v \<equiv> push_bit 48 (ucast w0) OR push_bit 32 (ucast w1) OR push_bit 16 (ucast w2) OR ucast w3 :: 64 word"
  shows "ucast (drop_bit 48 v) = w0" "ucast (drop_bit 32 v) = w1" "ucast (drop_bit 16 v) = w2" "ucast v = w3"
  unfolding v_def by (rule bit_eqI, auto simp: bit_simps dest: bit_imp_le_length)+

lemma words_of_u32:
  fixes w0 w1 :: u16
  defines "v \<equiv> push_bit 16 (ucast w0) OR ucast w1 :: u32"
  shows "ucast (drop_bit 16 v) = w0" "ucast v = w1"
  unfolding v_def by (rule bit_eqI, auto simp: bit_simps dest: bit_imp_le_length)+

lemma bytes_of_u16:
  fixes b0 b1 :: byte
  defines "v \<equiv> push_bit 8 (ucast b0) OR ucast b1 :: u16"
  shows "ucast (drop_bit 8 v) = b0" "ucast v = b1"
  unfolding v_def by (rule bit_eqI, auto simp: bit_simps dest: bit_imp_le_length)+

lemma four_entriesE:
  assumes "i + 4 \<le> length tab"
  obtains pre w0 w1 w2 w3 post where "tab = pre @ w0 # w1 # w2 # w3 # post" and "i = length pre"
proof -
  have "4 \<le> length (drop i tab)" using assms by simp
  then obtain w0 w1 w2 w3 post where "drop i tab = w0 # w1 # w2 # w3 # post"
    by (auto simp: numeral_nat Suc_le_length_iff simp del: length_drop)
  then have "tab = take i tab @ w0 # w1 # w2 # w3 # post" by (metis append_take_drop_id)
  moreover have "i = length (take i tab)" using assms by simp
  ultimately show thesis by (rule that)
qed

lemma int64_in_place:
  fixes pre :: "u16 list"
  defines "i \<equiv> length pre"
  shows "MODBUS_SET_INT64_TO_INT16 (pre @ w0 # w1 # w2 # w3 # post) i v =
      Done (pre @ ucast (drop_bit 48 v) # ucast (drop_bit 32 v) # ucast (drop_bit 16 v) # ucast v # post)"
    and "MODBUS_GET_INT64_FROM_INT16 (pre @ w0 # w1 # w2 # w3 # post) i =
      Done (push_bit 48 (ucast w0) OR push_bit 32 (ucast w1) OR push_bit 16 (ucast w2) OR ucast w3)"
  by (simp_all add: macro_defs i_def nth_append list_update_append numeral_nat)

interpretation int64: placed_cell "\<lambda>v tab. MODBUS_SET_INT64_TO_INT16 tab i v" "\<lambda>tab. MODBUS_GET_INT64_FROM_INT16 tab i"
    "\<lambda>tab. i + 4 \<le> length tab" i "i + 4" for i
proof unfold_locales
  fix a a' :: "u16 list" and v :: "64 word" and k
  assume fits: "i + 4 \<le> length a"
  then show "a' ! k = a ! k" if "MODBUS_SET_INT64_TO_INT16 a i v = Done a'" "k < i \<or> i + 4 \<le> k"
    using that by (elim four_entriesE) (auto simp: int64_in_place nth_append nth_Cons')
qed (elim four_entriesE, auto simp: int64_in_place u64_of_words words_of_u64 simp del: drop_bit_or)+

interpretation int32: placed_cell "\<lambda>v tab. MODBUS_SET_INT32_TO_INT16 tab i v" "\<lambda>tab. MODBUS_GET_INT32_FROM_INT16 tab i"
    "\<lambda>tab. i + 2 \<le> length tab" i "i + 2" for i
  by unfold_locales (auto simp: macro_defs u32_of_words words_of_u32 list_update_swap [of "Suc i"] simp del: drop_bit_or)

interpretation int16: placed_cell "\<lambda>v tab. MODBUS_SET_INT16_TO_INT8 tab i v" "\<lambda>tab. MODBUS_GET_INT16_FROM_INT8 tab i"
    "\<lambda>tab. i + 2 \<le> length tab" i "i + 2" for i
  by unfold_locales (auto simp: macro_defs u16_of_bytes bytes_of_u16 list_update_swap [of "Suc i"] simp del: drop_bit_or)

text \<open>Eight entries that hold a byte as bits are a cell, too.\<close>

lemma unpack_byte_of_bits:
  assumes "length bs = 8" and "set bs \<subseteq> {0, 1}"
  shows "unpack_bits 8 [byte_of_bits bs] = bs"
proof (rule nth_equalityI)
  fix k
  assume "k < length (unpack_bits 8 [byte_of_bits bs])"
  then have k: "k < 8" by simp
  then have "bs ! k \<in> {0, 1}" using assms by (metis nth_mem subsetD)
  moreover have "unpack_bits 8 [byte_of_bits bs] ! k = bit_byte (bs ! k = 1)"
    using k bit_byte_of_bits [OF assms(2), of k] assms(1) by (simp add: unpack_bits_def)
  ultimately show "unpack_bits 8 [byte_of_bits bs] ! k = bs ! k" by (auto simp: bit_byte_def)
qed (simp add: assms)

interpretation byte_bits: placed_cell "\<lambda>v a. modbus_set_bits_from_byte a (int k) v" "\<lambda>a. modbus_get_byte_from_bits a (int k) 8"
    "\<lambda>a. k + 8 \<le> length a \<and> length a < 2 ^ 32 \<and> set (take 8 (drop k a)) \<subseteq> {0, 1}" k "k + 8" for k
proof unfold_locales
  fix a a' :: "byte list" and v u :: byte and i
  assume fits: "k + 8 \<le> length a \<and> length a < 2 ^ 32 \<and> set (take 8 (drop k a)) \<subseteq> {0, 1}"
  note set = set_bits_from_byte_value [OF conjunct1 [OF fits]]
  show "\<exists>a'. modbus_set_bits_from_byte a (int k) v = Done a' \<and> length a' = length a \<and>
      (k + 8 \<le> length a' \<and> length a' < 2 ^ 32 \<and> set (take 8 (drop k a')) \<subseteq> {0, 1})"
    using fits set_unpack_bits [of 8 "[v]"] by (simp add: set)
  show "\<exists>v. modbus_get_byte_from_bits a (int k) 8 = Done v" using fits by (simp add: get_byte_from_bits_value)
  show "modbus_get_byte_from_bits a' (int k) 8 = Done v" if "modbus_set_bits_from_byte a (int k) v = Done a'"
    using that fits by (auto simp: set get_byte_from_bits_value byte_of_unpack_bits)
  show "modbus_set_bits_from_byte a (int k) v = Done a" if "modbus_get_byte_from_bits a (int k) 8 = Done v"
  proof -
    have "v = byte_of_bits (take 8 (drop k a))" using that fits by (simp add: get_byte_from_bits_value)
    moreover have "length (take 8 (drop k a)) = 8" using fits by auto
    ultimately have "unpack_bits 8 [v] = take 8 (drop k a)" using fits unpack_byte_of_bits by blast
    moreover have "drop (k + 8) a = drop 8 (drop k a)" by (simp add: add.commute)
    ultimately show ?thesis by (simp only: set append_take_drop_id)
  qed
  show "modbus_set_bits_from_byte a' (int k) u = modbus_set_bits_from_byte a (int k) u" if "modbus_set_bits_from_byte a (int k) v = Done a'"
    using that fits by (auto simp: set set_bits_from_byte_value)
  show "a' ! i = a ! i" if "modbus_set_bits_from_byte a (int k) v = Done a'" "i < k \<or> k + 8 \<le> i"
    using that fits by (auto simp: set nth_append)
qed

text \<open>The round trips of the floats and of the integers.\<close>

lemmas float_roundtrips =
  abcd.store_then_load dcba.store_then_load badc.store_then_load cdab.store_then_load float.store_then_load

lemmas float_registers_roundtrips =
  abcd.load_then_store dcba.load_then_store badc.load_then_store cdab.load_then_store float.load_then_store

lemmas macro_roundtrips = int64.store_then_load int32.store_then_load int16.store_then_load

section \<open>strlcpy\<close>

text \<open>
  Copying a NUL-terminated string of the array \<open>src\<close> into \<open>dest\<close>; \<open>d\<close>, \<open>s\<close>
  are the offsets of the two pointers and \<open>n\<close> the remaining count. The first loop ends at the NUL
  or with a count of zero, the second walks to the NUL.
\<close>

fun strlcpy_copy :: "nat \<Rightarrow> byte list \<Rightarrow> byte list \<Rightarrow> nat \<Rightarrow> (byte list \<times> nat \<times> nat) outcome" where
  "strlcpy_copy 0 dest src i = Done (dest, i, 0)"
| "strlcpy_copy (Suc n) dest src i =
     obind (rd src i) (\<lambda>c. obind (wr dest i c) (\<lambda>dest.
       if c = 0 then Done (dest, Suc i, Suc n) else strlcpy_copy n dest src (Suc i)))"

function strlcpy_skip :: "byte list \<Rightarrow> nat \<Rightarrow> nat outcome" where
  "strlcpy_skip src s =
     (if s < length src then (if src ! s \<noteq> 0 then strlcpy_skip src (Suc s) else Done (Suc s)) else Fault)"
  by pat_completeness auto
termination by (relation "measure (\<lambda>(src, s). length src - s)") auto

declare strlcpy_skip.simps [simp del]

definition strlcpy :: "byte list \<Rightarrow> byte list \<Rightarrow> nat \<Rightarrow> (nat \<times> byte list) outcome" where
  "strlcpy dest src dest_size =
     obind (if dest_size > 1 then strlcpy_copy (dest_size - 1) dest src 0 else Done (dest, 0, 0))
       (\<lambda>(dest, i, n).
         if n = 0 then
           obind (if dest_size \<noteq> 0 then wr dest i 0 else Done dest) (\<lambda>dest.
           obind (strlcpy_skip src i) (\<lambda>s. Done (s - 1, dest)))
         else Done (i - 1, dest))"

lemma strlcpy_copy_nul:
  "length cs < n \<Longrightarrow> 0 \<notin> set cs \<Longrightarrow> i + length cs < length dest \<Longrightarrow> take (length cs) (drop i src) = cs \<Longrightarrow>
   i + length cs < length src \<Longrightarrow> src ! (i + length cs) = 0 \<Longrightarrow>
   strlcpy_copy n dest src i =
     Done (take i dest @ cs @ 0 # drop (Suc (i + length cs)) dest, Suc (i + length cs), n - length cs)"
proof (induction cs arbitrary: n dest i)
  case Nil
  then obtain m where "n = Suc m" by (cases n) auto
  with Nil show ?case by (simp add: upd_conv_take_nth_drop)
next
  case (Cons c cs)
  then obtain m where n: "n = Suc m" by (cases n) auto
  from Cons.prems have i: "i < length dest" "i < length src" by simp_all
  then have d: "drop i src = src ! i # drop (Suc i) src" by (simp add: Cons_nth_drop_Suc)
  with Cons.prems have c: "src ! i = c" "take (length cs) (drop (Suc i) src) = cs" "c \<noteq> 0" by auto
  have t: "take (Suc i) (dest[i := c]) = take i dest @ [c]" using i(1) by (rule take_Suc_update)
  have "strlcpy_copy m (dest[i := c]) src (Suc i) =
     Done (take (Suc i) (dest[i := c]) @ cs @ 0 # drop (Suc (Suc i + length cs)) (dest[i := c]),
       Suc (Suc i + length cs), m - length cs)"
    using Cons.prems c n by (intro Cons.IH) simp_all
  with n i c t show ?case by simp
qed

lemma strlcpy_copy_full:
  "n \<le> length cs \<Longrightarrow> 0 \<notin> set cs \<Longrightarrow> i + n \<le> length dest \<Longrightarrow> take (length cs) (drop i src) = cs \<Longrightarrow>
   i + length cs < length src \<Longrightarrow>
   strlcpy_copy n dest src i = Done (take i dest @ take n cs @ drop (i + n) dest, i + n, 0)"
proof (induction n arbitrary: cs dest i)
  case 0
  then show ?case by simp
next
  case (Suc n)
  then obtain c cs' where cs: "cs = c # cs'" by (cases cs) auto
  from Suc.prems have i: "i < length dest" "i < length src" by simp_all
  then have d: "drop i src = src ! i # drop (Suc i) src" by (simp add: Cons_nth_drop_Suc)
  with Suc.prems cs have c: "src ! i = c" "take (length cs') (drop (Suc i) src) = cs'" "c \<noteq> 0" by auto
  have t: "take (Suc i) (dest[i := c]) = take i dest @ [c]" using i(1) by (rule take_Suc_update)
  have "strlcpy_copy n (dest[i := c]) src (Suc i) =
     Done (take (Suc i) (dest[i := c]) @ take n cs' @ drop (Suc i + n) (dest[i := c]), Suc i + n, 0)"
    using Suc.prems c cs by (intro Suc.IH) simp_all
  with cs i c t show ?case by simp
qed

lemma strlcpy_skip_nul:
  "0 \<notin> set cs \<Longrightarrow> take (length cs) (drop i src) = cs \<Longrightarrow> i + length cs < length src \<Longrightarrow>
   src ! (i + length cs) = 0 \<Longrightarrow> strlcpy_skip src i = Done (Suc (i + length cs))"
proof (induction cs arbitrary: i)
  case Nil
  then show ?case by (simp add: strlcpy_skip.simps [of src i])
next
  case (Cons c cs)
  then have "drop i src = src ! i # drop (Suc i) src" by (simp add: Cons_nth_drop_Suc)
  with Cons have "src ! i = c" "take (length cs) (drop (Suc i) src) = cs" "c \<noteq> 0" by auto
  with Cons show ?case by (simp add: strlcpy_skip.simps [of src i])
qed

text \<open>The result: at most \<open>dest_size - 1\<close> characters, a NUL, and the length of the source.\<close>

lemma strlcpy_result:
  assumes src: "src = cs @ 0 # junk" and nz: "0 \<notin> set cs"
    and fits: "dest_size \<le> length dest" and pos: "0 < dest_size"
  shows "strlcpy dest src dest_size =
    Done (length cs, let k = min (length cs) (dest_size - 1) in take k cs @ 0 # drop (Suc k) dest)"
proof (cases "length cs < dest_size - 1")
  case True
  then have "strlcpy_copy (dest_size - 1) dest src 0 =
      Done (take 0 dest @ cs @ 0 # drop (Suc (0 + length cs)) dest, Suc (0 + length cs), dest_size - 1 - length cs)"
    using src nz fits by (intro strlcpy_copy_nul) (auto simp: nth_append)
  moreover have "1 < dest_size" "\<not> dest_size \<le> Suc (length cs)" using True by linarith+
  ultimately show ?thesis using True by (simp add: strlcpy_def min_def)
next
  case False
  have copy: "(if dest_size > 1 then strlcpy_copy (dest_size - 1) dest src 0 else Done (dest, 0, 0)) =
      Done (take (dest_size - 1) cs @ drop (dest_size - 1) dest, dest_size - 1, 0)"
  proof (cases "dest_size > 1")
    case True
    have "strlcpy_copy (dest_size - 1) dest src 0 =
        Done (take 0 dest @ take (dest_size - 1) cs @ drop (0 + (dest_size - 1)) dest, 0 + (dest_size - 1), 0)"
      using src nz fits False by (intro strlcpy_copy_full) auto
    with True show ?thesis by simp
  next
    case False
    with pos have "dest_size = 1" by simp
    then show ?thesis by simp
  qed
  have "strlcpy_skip src (dest_size - 1) = Done (Suc (dest_size - 1 + length (drop (dest_size - 1) cs)))"
    using src nz False by (intro strlcpy_skip_nul) (auto simp: nth_append dest: in_set_dropD)
  with copy False fits pos show ?thesis
    by (simp add: strlcpy_def wr_def list_update_append min_def drop_update_swap upd_conv_take_nth_drop)
qed

section \<open>Summary\<close>

text \<open>A value stored by a macro is read back at every index inside the table.\<close>

theorem integer_macros_roundtrip:
  assumes "i + 4 \<le> length regs" and "k + 2 \<le> length bytes"
  shows "obind (MODBUS_SET_INT64_TO_INT16 regs i v64) (\<lambda>regs. MODBUS_GET_INT64_FROM_INT16 regs i) = Done v64 \<and>
    obind (MODBUS_SET_INT32_TO_INT16 regs i v32) (\<lambda>regs. MODBUS_GET_INT32_FROM_INT16 regs i) = Done v32 \<and>
    obind (MODBUS_SET_INT16_TO_INT8 bytes k v16) (\<lambda>bytes. MODBUS_GET_INT16_FROM_INT8 bytes k) = Done v16"
  using assms by (simp add: macro_roundtrips)

theorem integer_macros_roundtrip_witness:
  "obind (MODBUS_SET_INT32_TO_INT16 [0, 0, 0, 0] 0 0xDEADBEEF) (\<lambda>regs. MODBUS_GET_INT32_FROM_INT16 regs 0) = Done 0xDEADBEEF"
  using integer_macros_roundtrip [of 0 "[0, 0, 0, 0]" 0 "[0, 0]" 0 "0xDEADBEEF" 0] by (simp del: One_nat_def)

text \<open>\<open>strlcpy\<close> copies at most \<open>dest_size - 1\<close> characters, terminates the copy and returns the length of the source.\<close>

theorem strlcpy_truncates_and_terminates:
  assumes "0 \<notin> set cs" and "dest_size \<le> length dest" and "0 < dest_size"
  shows "strlcpy dest (cs @ 0 # junk) dest_size =
    Done (length cs, let k = min (length cs) (dest_size - 1) in take k cs @ 0 # drop (Suc k) dest)"
  using assms by (intro strlcpy_result) simp_all

theorem strlcpy_truncates_and_terminates_witness:
  "strlcpy [9, 9, 9, 9] [72, 101, 108, 108, 111, 0, 33] 3 = Done (5, [72, 101, 0, 9])"
  using strlcpy_truncates_and_terminates [of "[72, 101, 108, 108, 111]" 3 "[9, 9, 9, 9]" "[33]"]
  by (simp add: min_def)

end
