(* ===== verification/Mb_Mapping.thy ===== *)
theory Mb_Mapping
  imports Mb_Context
begin

text \<open>
  The register file of a server, \<open>modbus_mapping_t\<close>, and its construction and release in modbus.c.
  A table is a list, and the NULL pointer of a table of dimension zero the empty list. The heap
  keeps the blocks that are live, by what they hold, and a script of the results of \<open>malloc\<close>
  (\<open>True\<close> is a failure, an exhausted script means success), so that leaks can be stated.
\<close>

record mapping =
  mp_nb_bits :: int
  mp_start_bits :: int
  mp_nb_input_bits :: int
  mp_start_input_bits :: int
  mp_nb_input_registers :: int
  mp_start_input_registers :: int
  mp_nb_registers :: int
  mp_start_registers :: int
  mp_tab_bits :: "byte list"
  mp_tab_input_bits :: "byte list"
  mp_tab_input_registers :: "u16 list"
  mp_tab_registers :: "u16 list"

datatype block =
    Blk_mapping | Blk_bits | Blk_input_bits | Blk_registers | Blk_input_registers
  | Blk_ctx | Blk_backend_data | Blk_device | Blk_node | Blk_service

record heap =
  hp_oom :: "bool list"
  hp_live :: "block list"

definition malloc :: "block \<Rightarrow> heap \<times> world \<Rightarrow> bool \<times> heap \<times> world" where
  "malloc blk st =
     (case st of (h, w) \<Rightarrow>
       if hp_oom h \<noteq> [] \<and> hd (hp_oom h) then (False, h\<lparr>hp_oom := tl (hp_oom h)\<rparr>, set_errno ENOMEM w)
       else (True, h\<lparr>hp_oom := tl (hp_oom h), hp_live := blk # hp_live h\<rparr>, w))"

definition free :: "block \<Rightarrow> heap \<times> world \<Rightarrow> heap \<times> world" where
  "free blk st = (case st of (h, w) \<Rightarrow> (h\<lparr>hp_live := remove1 blk (hp_live h)\<rparr>, w))"

text \<open>\<open>free\<close> of a table: nothing happens when the pointer is NULL.\<close>

definition free_table :: "block \<Rightarrow> 'a list \<Rightarrow> heap \<times> world \<Rightarrow> heap \<times> world" where
  "free_table blk tab st = (if tab = [] then st else free blk st)"

text \<open>\<open>malloc\<close> and \<open>memset\<close> of one table, NULL when its dimension is zero.\<close>

definition new_table :: "block \<Rightarrow> u32 \<Rightarrow> heap \<times> world \<Rightarrow> 'a::zero list option \<times> heap \<times> world" where
  "new_table blk nb st =
     (if nb = 0 then (Some [], st)
      else (case malloc blk st of
              (ok, st) \<Rightarrow> (if ok then Some (replicate (unat nb) 0) else None, st)))"

definition MODBUS_MAX_TABLE_SIZE :: u32 where [simp]: "MODBUS_MAX_TABLE_SIZE = 65536"

definition modbus_mapping_new_start_address ::
    "u32 \<Rightarrow> u32 \<Rightarrow> u32 \<Rightarrow> u32 \<Rightarrow> u32 \<Rightarrow> u32 \<Rightarrow> u32 \<Rightarrow> u32 \<Rightarrow> heap \<times> world \<Rightarrow> mapping option \<times> heap \<times> world" where
  "modbus_mapping_new_start_address start_bits nb_bits start_input_bits nb_input_bits
     start_registers nb_registers start_input_registers nb_input_registers st =
     (if nb_bits > MODBUS_MAX_TABLE_SIZE \<or> nb_input_bits > MODBUS_MAX_TABLE_SIZE \<or>
         nb_registers > MODBUS_MAX_TABLE_SIZE \<or> nb_input_registers > MODBUS_MAX_TABLE_SIZE
      then (None, apsnd (set_errno EINVAL) st)
      else case malloc Blk_mapping st of (ok, st) \<Rightarrow>
      if \<not> ok then (None, st)
      else case new_table Blk_bits nb_bits st of
        (None, st) \<Rightarrow> (None, free Blk_mapping st)
      | (Some tab_bits, st) \<Rightarrow>
      (case new_table Blk_input_bits nb_input_bits st of
        (None, st) \<Rightarrow> (None, free Blk_mapping (free_table Blk_bits tab_bits st))
      | (Some tab_input_bits, st) \<Rightarrow>
      (case new_table Blk_registers nb_registers st of
        (None, st) \<Rightarrow>
          (None, free Blk_mapping (free_table Blk_bits tab_bits
             (free_table Blk_input_bits tab_input_bits st)))
      | (Some tab_registers, st) \<Rightarrow>
      (case new_table Blk_input_registers nb_input_registers st of
        (None, st) \<Rightarrow>
          (None, free Blk_mapping (free_table Blk_bits tab_bits
             (free_table Blk_input_bits tab_input_bits (free_table Blk_registers tab_registers st))))
      | (Some tab_input_registers, st) \<Rightarrow>
          (Some \<lparr>mp_nb_bits = uint nb_bits, mp_start_bits = sint start_bits,
                 mp_nb_input_bits = uint nb_input_bits, mp_start_input_bits = sint start_input_bits,
                 mp_nb_input_registers = uint nb_input_registers,
                 mp_start_input_registers = sint start_input_registers,
                 mp_nb_registers = uint nb_registers, mp_start_registers = sint start_registers,
                 mp_tab_bits = tab_bits, mp_tab_input_bits = tab_input_bits,
                 mp_tab_input_registers = tab_input_registers, mp_tab_registers = tab_registers\<rparr>, st)))))"

definition modbus_mapping_new ::
    "int \<Rightarrow> int \<Rightarrow> int \<Rightarrow> int \<Rightarrow> heap \<times> world \<Rightarrow> mapping option \<times> heap \<times> world" where
  "modbus_mapping_new nb_bits nb_input_bits nb_registers nb_input_registers st =
     (if nb_bits < 0 \<or> nb_input_bits < 0 \<or> nb_registers < 0 \<or> nb_input_registers < 0
      then (None, apsnd (set_errno EINVAL) st)
      else modbus_mapping_new_start_address 0 (word_of_int nb_bits) 0 (word_of_int nb_input_bits)
             0 (word_of_int nb_registers) 0 (word_of_int nb_input_registers) st)"

definition modbus_mapping_free :: "mapping option \<Rightarrow> heap \<times> world \<Rightarrow> heap \<times> world" where
  "modbus_mapping_free mb_mapping st =
     (case mb_mapping of
        None \<Rightarrow> st
      | Some m \<Rightarrow>
          free Blk_mapping (free_table Blk_bits (mp_tab_bits m)
            (free_table Blk_input_bits (mp_tab_input_bits m)
              (free_table Blk_registers (mp_tab_registers m)
                (free_table Blk_input_registers (mp_tab_input_registers m) st)))))"

section \<open>Well-formed mappings\<close>

text \<open>
  The dimensions are those of the tables and fit the address space, and a bit is stored as 0 or 1.
  The start addresses are not restricted here: \<open>start_fits\<close> says that the range check of a request
  (an address and a number of 16 bits) against a table that starts there stays within \<open>int\<close>.
  \<open>mapping_new_addressable\<close> shows that every start address below \<open>2 ^ 31\<close> is one of these; from
  \<open>2 ^ 31\<close> on, the \<open>unsigned int\<close> of the caller becomes a negative \<open>int\<close>, and near \<open>- 2 ^ 31\<close> the
  check overflows.
\<close>

definition wf_mapping :: "mapping \<Rightarrow> bool" where
  "wf_mapping m \<longleftrightarrow>
     mp_nb_bits m = int (length (mp_tab_bits m)) \<and> mp_nb_bits m \<le> 65536 \<and>
     mp_nb_input_bits m = int (length (mp_tab_input_bits m)) \<and> mp_nb_input_bits m \<le> 65536 \<and>
     mp_nb_input_registers m = int (length (mp_tab_input_registers m)) \<and> mp_nb_input_registers m \<le> 65536 \<and>
     mp_nb_registers m = int (length (mp_tab_registers m)) \<and> mp_nb_registers m \<le> 65536"

definition start_fits :: "int \<Rightarrow> bool" where
  "start_fits start \<longleftrightarrow> start < 2 ^ 31 \<and> 65535 - start + 65535 < 2 ^ 31"

definition addressable :: "mapping \<Rightarrow> bool" where
  "addressable m \<longleftrightarrow> start_fits (mp_start_bits m) \<and> start_fits (mp_start_input_bits m) \<and>
     start_fits (mp_start_registers m) \<and> start_fits (mp_start_input_registers m)"

definition bits_01 :: "mapping \<Rightarrow> bool" where
  "bits_01 m \<longleftrightarrow> list_all (\<lambda>b. b = 0 \<or> b = 1) (mp_tab_bits m) \<and> list_all (\<lambda>b. b = 0 \<or> b = 1) (mp_tab_input_bits m)"

lemma malloc_cases:
  obtains (ok) "malloc blk st = (True, (fst st)\<lparr>hp_oom := tl (hp_oom (fst st)), hp_live := blk # hp_live (fst st)\<rparr>, snd st)"
  | (oom) "malloc blk st = (False, (fst st)\<lparr>hp_oom := tl (hp_oom (fst st))\<rparr>, set_errno ENOMEM (snd st))"
  by (cases st; cases "hp_oom (fst st) \<noteq> [] \<and> hd (hp_oom (fst st))") (auto simp: malloc_def)

text \<open>What one table costs: nothing on failure, its block on success.\<close>

lemma new_table_live:
  "new_table blk nb st = (r, st') \<Longrightarrow>
   hp_live (fst st') = (case r of Some tab \<Rightarrow> (if tab = [] then [] else [blk]) | None \<Rightarrow> []) @ hp_live (fst st)"
  by (rule malloc_cases [of blk st])
     (auto simp: new_table_def unat_eq_zero split: if_splits)

lemma new_table_result:
  "new_table blk nb st = (Some tab, st') \<Longrightarrow> tab = replicate (unat nb) 0"
  by (auto simp: new_table_def split: if_splits prod.splits)

lemma new_table_fails:
  "new_table blk nb st = (None, st') \<Longrightarrow> w_errno (snd st') = ENOMEM"
  by (rule malloc_cases [of blk st]) (auto simp: new_table_def split: if_splits)

lemma free_errno [simp]: "snd (free blk st) = snd st" "snd (free_table blk tab st) = snd st"
  by (auto simp: free_table_def free_def split: prod.splits)

lemma free_live [simp]: "hp_live (fst (free blk st)) = remove1 blk (hp_live (fst st))"
  by (auto simp: free_def split: prod.splits)

lemma free_table_live [simp]:
  "hp_live (fst (free_table blk tab st)) = (if tab = [] then hp_live (fst st) else remove1 blk (hp_live (fst st)))"
  by (simp add: free_table_def)

text \<open>
  The cases of the construction, with everything it leaves behind: the result and the blocks.
\<close>

lemma mapping_new_cases:
  assumes "modbus_mapping_new_start_address sb nb si ni sr nr sir nir st = (r, st')"
  shows "(r = None \<and> hp_live (fst st') = hp_live (fst st)) \<or>
    (\<exists>m. r = Some m \<and>
      m = \<lparr>mp_nb_bits = uint nb, mp_start_bits = sint sb,
           mp_nb_input_bits = uint ni, mp_start_input_bits = sint si,
           mp_nb_input_registers = uint nir, mp_start_input_registers = sint sir,
           mp_nb_registers = uint nr, mp_start_registers = sint sr,
           mp_tab_bits = replicate (unat nb) 0, mp_tab_input_bits = replicate (unat ni) 0,
           mp_tab_input_registers = replicate (unat nir) 0, mp_tab_registers = replicate (unat nr) 0\<rparr> \<and>
      nb \<le> 65536 \<and> ni \<le> 65536 \<and> nr \<le> 65536 \<and> nir \<le> 65536 \<and>
      hp_live (fst st') =
        (if nir = 0 then [] else [Blk_input_registers]) @ (if nr = 0 then [] else [Blk_registers]) @
        (if ni = 0 then [] else [Blk_input_bits]) @ (if nb = 0 then [] else [Blk_bits]) @
        Blk_mapping # hp_live (fst st))"
proof (cases "nb > 65536 \<or> ni > 65536 \<or> nr > 65536 \<or> nir > 65536")
  case True
  with assms show ?thesis by (auto simp: modbus_mapping_new_start_address_def)
next
  case False
  note def = modbus_mapping_new_start_address_def
  obtain ok st1 where m: "malloc Blk_mapping st = (ok, st1)" by (rule prod.exhaust)
  show ?thesis
  proof (cases ok)
    case no: False
    with m have "hp_live (fst st1) = hp_live (fst st)"
      by (cases st) (auto simp: malloc_def split: if_splits)
    with assms False m no show ?thesis by (auto simp: def)
  next
    case True
    with m have live: "hp_live (fst st1) = Blk_mapping # hp_live (fst st)"
      by (cases st) (auto simp: malloc_def split: if_splits)
    obtain t1 st2 where t1: "(new_table Blk_bits nb st1 :: byte list option \<times> _) = (t1, st2)" by (rule prod.exhaust)
    obtain t2 st3 where t2: "(new_table Blk_input_bits ni st2 :: byte list option \<times> _) = (t2, st3)" by (rule prod.exhaust)
    obtain t3 st4 where t3: "(new_table Blk_registers nr st3 :: u16 list option \<times> _) = (t3, st4)" by (rule prod.exhaust)
    obtain t4 st5 where t4: "(new_table Blk_input_registers nir st4 :: u16 list option \<times> _) = (t4, st5)" by (rule prod.exhaust)
    have empty: "(replicate (unat x) (0 :: 'a :: zero) = []) = (x = 0)" for x :: u32
      by (simp add: unat_eq_zero)
    note lives = new_table_live [OF t1] new_table_live [OF t2] new_table_live [OF t3] new_table_live [OF t4]
    have range: "nb \<le> 65536" "ni \<le> 65536" "nr \<le> 65536" "nir \<le> 65536"
      using False by (auto simp: not_less)
    from False have guard: "(nb > MODBUS_MAX_TABLE_SIZE \<or> ni > MODBUS_MAX_TABLE_SIZE \<or>
        nr > MODBUS_MAX_TABLE_SIZE \<or> nir > MODBUS_MAX_TABLE_SIZE) = False" by simp
    note eval = def guard m True t1 t2 t3 t4 if_False if_True not_True_eq_False prod.case option.case
    consider "t1 = None" | a where "t1 = Some a" "t2 = None"
      | a b where "t1 = Some a" "t2 = Some b" "t3 = None"
      | a b c where "t1 = Some a" "t2 = Some b" "t3 = Some c" "t4 = None"
      | a b c d where "t1 = Some a" "t2 = Some b" "t3 = Some c" "t4 = Some d"
      by (cases t1; cases t2; cases t3; cases t4) auto
    then show ?thesis
    proof cases
      case 1
      with assms have "r = None \<and> st' = free Blk_mapping st2" by (simp only: eval prod.inject simp_thms)
      with 1 live lives(1) show ?thesis by simp
    next
      case 2
      with assms have "r = None \<and> st' = free Blk_mapping (free_table Blk_bits a st3)"
        by (simp only: eval prod.inject simp_thms)
      with 2 live lives(1,2) show ?thesis by simp
    next
      case 3
      with assms have "r = None \<and> st' = free Blk_mapping (free_table Blk_bits a (free_table Blk_input_bits b st4))"
        by (simp only: eval prod.inject simp_thms)
      with 3 live lives(1-3) show ?thesis by simp
    next
      case 4
      with assms have "r = None \<and> st' = free Blk_mapping (free_table Blk_bits a
          (free_table Blk_input_bits b (free_table Blk_registers c st5)))"
        by (simp only: eval prod.inject simp_thms)
      with 4 live lives show ?thesis by simp
    next
      case 5
      with t1 t2 t3 t4 have tabs: "a = replicate (unat nb) 0" "b = replicate (unat ni) 0"
        "c = replicate (unat nr) 0" "d = replicate (unat nir) 0"
        by (auto dest: new_table_result)
      have live': "hp_live (fst st5) =
        (if nir = 0 then [] else [Blk_input_registers]) @ (if nr = 0 then [] else [Blk_registers]) @
        (if ni = 0 then [] else [Blk_input_bits]) @ (if nb = 0 then [] else [Blk_bits]) @
        Blk_mapping # hp_live (fst st)"
      proof -
        have "(a = []) = (nb = 0)" "(b = []) = (ni = 0)" "(c = []) = (nr = 0)" "(d = []) = (nir = 0)"
          unfolding tabs by (simp_all only: empty)
        with lives live 5 show ?thesis by simp
      qed
      have "(r, st') = (Some \<lparr>mp_nb_bits = uint nb, mp_start_bits = sint sb,
           mp_nb_input_bits = uint ni, mp_start_input_bits = sint si,
           mp_nb_input_registers = uint nir, mp_start_input_registers = sint sir,
           mp_nb_registers = uint nr, mp_start_registers = sint sr,
           mp_tab_bits = a, mp_tab_input_bits = b, mp_tab_input_registers = d, mp_tab_registers = c\<rparr>, st5)"
        using assms 5 by (simp only: eval)
      with live' tabs range show ?thesis by simp
    qed
  qed
qed

lemma mapping_new_wf:
  assumes "modbus_mapping_new_start_address sb nb si ni sr nr sir nir st = (Some m, st')"
  shows "wf_mapping m \<and> bits_01 m"
  using mapping_new_cases [OF assms]
  by (auto simp: wf_mapping_def bits_01_def list_all_iff word_le_def)

text \<open>When no allocation fails, a mapping with valid dimensions is returned.\<close>

lemma malloc_succeeds: "hp_oom (fst st) = [] \<Longrightarrow> \<exists>st'. malloc blk st = (True, st') \<and> hp_oom (fst st') = []"
  by (cases st) (simp add: malloc_def)

lemma new_table_succeeds:
  assumes "hp_oom (fst st) = []"
  shows "\<exists>tab st'. new_table blk nb st = (Some tab, st') \<and> hp_oom (fst st') = []"
  using malloc_succeeds [OF assms, of blk] assms by (cases st) (auto simp: new_table_def)

lemma mapping_new_succeeds:
  assumes "hp_oom (fst st) = []" and "nb \<le> 65536" "ni \<le> 65536" "nr \<le> 65536" "nir \<le> 65536"
  shows "\<exists>m st'. modbus_mapping_new_start_address sb nb si ni sr nr sir nir st = (Some m, st')"
proof -
  from malloc_succeeds [OF assms(1)] obtain st1 where 1: "malloc Blk_mapping st = (True, st1)" and o1: "hp_oom (fst st1) = []" by blast
  from new_table_succeeds [OF o1] obtain t1 st2 where
    2: "new_table Blk_bits nb st1 = (Some (t1 :: byte list), st2)" and o2: "hp_oom (fst st2) = []" by blast
  from new_table_succeeds [OF o2] obtain t2 st3 where
    3: "new_table Blk_input_bits ni st2 = (Some (t2 :: byte list), st3)" and o3: "hp_oom (fst st3) = []" by blast
  from new_table_succeeds [OF o3] obtain t3 st4 where
    4: "new_table Blk_registers nr st3 = (Some (t3 :: u16 list), st4)" and o4: "hp_oom (fst st4) = []" by blast
  from new_table_succeeds [OF o4] obtain t4 st5 where
    5: "new_table Blk_input_registers nir st4 = (Some (t4 :: u16 list), st5)" by blast
  from assms(2-) 1 2 3 4 5 show ?thesis by (simp add: modbus_mapping_new_start_address_def not_less [symmetric])
qed

lemma start_fits_nonneg: "0 \<le> start \<Longrightarrow> start < 2 ^ 31 \<Longrightarrow> start_fits start"
  by (simp add: start_fits_def)

lemma start_fits_sint: "start < 2 ^ 31 \<Longrightarrow> start_fits (sint (start :: u32))"
proof -
  assume "start < 2 ^ 31"
  then have "uint start < 2 ^ 31" by (simp add: word_less_def)
  moreover have "- (2 ^ 31) \<le> uint start" by (rule order_trans [of _ 0]) simp_all
  ultimately have "sint start = uint start" by (simp add: sint_uint signed_take_bit_int_eq_self_iff)
  with \<open>uint start < 2 ^ 31\<close> show ?thesis by (simp add: start_fits_nonneg)
qed

lemma mapping_new_addressable:
  assumes "modbus_mapping_new_start_address sb nb si ni sr nr sir nir st = (Some m, st')"
    and "sb < 2 ^ 31" "si < 2 ^ 31" "sr < 2 ^ 31" "sir < 2 ^ 31"
  shows "addressable m"
  using mapping_new_cases [OF assms(1)] assms(2-) by (auto simp: addressable_def start_fits_sint)

end
