(* ===== verification/Mb_Reply.thy ===== *)
theory Mb_Reply
  imports Mb_Confirm Mb_Data Mb_Mapping
begin

text \<open>
  The server: \<open>modbus_reply\<close> and its helpers (modbus.c), one definition per case of its \<open>switch\<close>.
  A handler takes the stack buffer \<open>rsp\<close> of the function and returns the length of the response,
  the buffer, the mapping and the world. The stack buffer is an argument: its initial contents are
  arbitrary.
\<close>

type_synonym reply = "(nat \<times> byte list \<times> mapping \<times> world) outcome"

section \<open>Helpers\<close>

definition response_io_status :: "byte list \<Rightarrow> int \<Rightarrow> int \<Rightarrow> byte list \<Rightarrow> nat \<Rightarrow> (nat \<times> byte list) outcome" where
  "response_io_status tab_io_status address nb rsp offset =
     obind (ofor [0..<nat nb]
       (\<lambda>i (shift, one_byte :: int, offset, rsp).
          obind (rdi tab_io_status (address + int i)) (\<lambda>b.
          let one_byte = one_byte OR push_bit shift (uint b) in
          if shift = 7 then
            obind (wr rsp offset (word_of_int one_byte)) (\<lambda>rsp. Done (0, 0, offset + 1, rsp))
          else Done (shift + 1, one_byte, offset, rsp)))
       (0, 0, offset, rsp))
     (\<lambda>(shift, one_byte, offset, rsp).
       if shift \<noteq> (0 :: nat) then
         obind (wr rsp offset (word_of_int one_byte)) (\<lambda>rsp. Done (offset + 1, rsp))
       else Done (offset, rsp))"

definition response_exception ::
    "modbus \<Rightarrow> sft \<Rightarrow> int \<Rightarrow> byte list \<Rightarrow> bool \<Rightarrow> world \<Rightarrow> (nat \<times> byte list \<times> world) outcome" where
  "response_exception ctx sft exception_code rsp to_flush w =
     (let w = (if to_flush then snd (be_flush ctx (sleep_response_timeout ctx w)) else w);
          sft = sft\<lparr>sft_function := sft_function sft + 0x80\<rparr> in
      obind (be_build_response_basis ctx sft rsp) (\<lambda>(rsp_length, rsp).
      obind (wr rsp rsp_length (word_of_int exception_code)) (\<lambda>rsp.
        Done (rsp_length + 1, rsp, w))))"

definition exception_reply :: "modbus \<Rightarrow> sft \<Rightarrow> int \<Rightarrow> bool \<Rightarrow> byte list \<Rightarrow> mapping \<Rightarrow> world \<Rightarrow> reply" where
  "exception_reply ctx sft exception_code to_flush rsp m w =
     obind (response_exception ctx sft exception_code rsp to_flush w) (\<lambda>(n, rsp, w). Done (n, rsp, m, w))"

text \<open>
  \<open>mapping_address < 0 || (mapping_address + nb) > nb_max\<close>: the sum is an \<open>int\<close>, computed only when
  the index is not negative. The index is the difference of the address and the start of the table,
  an \<open>int\<close> as well: both overflow for the extreme start addresses a caller may choose.
\<close>

definition out_of_range :: "int \<Rightarrow> int \<Rightarrow> int \<Rightarrow> bool outcome" where
  "out_of_range mapping_address nb nb_max =
     (if mapping_address < 0 then Done True
      else obind (c_int (mapping_address + nb)) (\<lambda>end_address. Done (end_address > nb_max)))"

text \<open>The loops that copy registers from and to a message.\<close>

definition put_registers :: "u16 list \<Rightarrow> int \<Rightarrow> int \<Rightarrow> byte list \<Rightarrow> nat \<Rightarrow> (nat \<times> byte list) outcome" where
  "put_registers tab mapping_address nb rsp rsp_length =
     ofor [0..<nat nb]
       (\<lambda>i (rsp_length, rsp). obind (rdi tab (mapping_address + int i)) (\<lambda>r. push_all rsp rsp_length [hi8 r, lo8 r]))
       (rsp_length, rsp)"

definition take_registers :: "u16 list \<Rightarrow> int \<Rightarrow> int \<Rightarrow> byte list \<Rightarrow> nat \<Rightarrow> u16 list outcome" where
  "take_registers tab mapping_address nb req j =
     ofor [0..<nat nb]
       (\<lambda>i tab. obind (rd16 req (j + 2 * i)) (\<lambda>v. wri tab (mapping_address + int i) (word_of_int v)))
       tab"

section \<open>Handlers\<close>

definition reply_read_bits ::
    "modbus \<Rightarrow> sft \<Rightarrow> int \<Rightarrow> int \<Rightarrow> byte list \<Rightarrow> mapping \<Rightarrow> byte list \<Rightarrow> world \<Rightarrow> reply" where
  "reply_read_bits ctx sft function address req m rsp w =
     (let offset = header_length ctx;
          is_input = (function = MODBUS_FC_READ_DISCRETE_INPUTS);
          start_bits = (if is_input then mp_start_input_bits m else mp_start_bits m);
          nb_bits = (if is_input then mp_nb_input_bits m else mp_nb_bits m);
          tab_bits = (if is_input then mp_tab_input_bits m else mp_tab_bits m) in
      obind (rd16 req (offset + 3)) (\<lambda>nb.
      obind (c_int (address - start_bits)) (\<lambda>mapping_address.
      if nb < 1 \<or> MODBUS_MAX_READ_BITS < nb then
        exception_reply ctx sft MODBUS_EXCEPTION_ILLEGAL_DATA_VALUE True rsp m w
      else obind (out_of_range mapping_address nb nb_bits) (\<lambda>outside.
      if outside then
        exception_reply ctx sft MODBUS_EXCEPTION_ILLEGAL_DATA_ADDRESS False rsp m w
      else
        obind (be_build_response_basis ctx sft rsp) (\<lambda>(n, rsp).
        obind (wr rsp n (word_of_int (nb div 8 + (if nb mod 8 \<noteq> 0 then 1 else 0)))) (\<lambda>rsp.
        obind (response_io_status tab_bits mapping_address nb rsp (n + 1)) (\<lambda>(n, rsp).
          Done (n, rsp, m, w))))))))"

definition reply_read_registers ::
    "modbus \<Rightarrow> sft \<Rightarrow> int \<Rightarrow> int \<Rightarrow> byte list \<Rightarrow> mapping \<Rightarrow> byte list \<Rightarrow> world \<Rightarrow> reply" where
  "reply_read_registers ctx sft function address req m rsp w =
     (let offset = header_length ctx;
          is_input = (function = MODBUS_FC_READ_INPUT_REGISTERS);
          start_registers = (if is_input then mp_start_input_registers m else mp_start_registers m);
          nb_registers = (if is_input then mp_nb_input_registers m else mp_nb_registers m);
          tab_registers = (if is_input then mp_tab_input_registers m else mp_tab_registers m) in
      obind (rd16 req (offset + 3)) (\<lambda>nb.
      obind (c_int (address - start_registers)) (\<lambda>mapping_address.
      if nb < 1 \<or> MODBUS_MAX_READ_REGISTERS < nb then
        exception_reply ctx sft MODBUS_EXCEPTION_ILLEGAL_DATA_VALUE True rsp m w
      else obind (out_of_range mapping_address nb nb_registers) (\<lambda>outside.
      if outside then
        exception_reply ctx sft MODBUS_EXCEPTION_ILLEGAL_DATA_ADDRESS False rsp m w
      else
        obind (be_build_response_basis ctx sft rsp) (\<lambda>(n, rsp).
        obind (wr rsp n (word_of_int (push_bit 1 nb))) (\<lambda>rsp.
        obind (put_registers tab_registers mapping_address nb rsp (n + 1)) (\<lambda>(n, rsp).
          Done (n, rsp, m, w))))))))"

definition reply_write_single_coil ::
    "modbus \<Rightarrow> sft \<Rightarrow> int \<Rightarrow> byte list \<Rightarrow> int \<Rightarrow> mapping \<Rightarrow> byte list \<Rightarrow> world \<Rightarrow> reply" where
  "reply_write_single_coil ctx sft address req req_length m rsp w =
     (let offset = header_length ctx in
      obind (c_int (address - mp_start_bits m)) (\<lambda>mapping_address.
      if mapping_address < 0 \<or> mapping_address \<ge> mp_nb_bits m then
        exception_reply ctx sft MODBUS_EXCEPTION_ILLEGAL_DATA_ADDRESS False rsp m w
      else obind (compute_response_length_from_request ctx req) (\<lambda>rsp_length.
      if rsp_length \<noteq> Some req_length then
        exception_reply ctx sft MODBUS_EXCEPTION_ILLEGAL_DATA_VALUE False rsp m w
      else
        let rsp_length = nat (req_length - int (checksum_length ctx)) in
        obind (rd16 req (offset + 3)) (\<lambda>data.
        if data = 0xFF00 \<or> data = 0 then
          obind (wri (mp_tab_bits m) mapping_address (if data \<noteq> 0 then 1 else 0)) (\<lambda>tab.
          obind (memcpy rsp 0 req 0 rsp_length) (\<lambda>rsp.
            Done (rsp_length, rsp, m\<lparr>mp_tab_bits := tab\<rparr>, w)))
        else exception_reply ctx sft MODBUS_EXCEPTION_ILLEGAL_DATA_VALUE False rsp m w))))"

definition reply_write_single_register ::
    "modbus \<Rightarrow> sft \<Rightarrow> int \<Rightarrow> byte list \<Rightarrow> int \<Rightarrow> mapping \<Rightarrow> byte list \<Rightarrow> world \<Rightarrow> reply" where
  "reply_write_single_register ctx sft address req req_length m rsp w =
     (let offset = header_length ctx in
      obind (c_int (address - mp_start_registers m)) (\<lambda>mapping_address.
      if mapping_address < 0 \<or> mapping_address \<ge> mp_nb_registers m then
        exception_reply ctx sft MODBUS_EXCEPTION_ILLEGAL_DATA_ADDRESS False rsp m w
      else obind (compute_response_length_from_request ctx req) (\<lambda>rsp_length.
      if rsp_length \<noteq> Some req_length then
        exception_reply ctx sft MODBUS_EXCEPTION_ILLEGAL_DATA_VALUE False rsp m w
      else
        obind (rd16 req (offset + 3)) (\<lambda>data.
        obind (wri (mp_tab_registers m) mapping_address (word_of_int data)) (\<lambda>tab.
        let rsp_length = nat (req_length - int (checksum_length ctx)) in
        obind (memcpy rsp 0 req 0 rsp_length) (\<lambda>rsp.
          Done (rsp_length, rsp, m\<lparr>mp_tab_registers := tab\<rparr>, w)))))))"

definition reply_write_multiple_coils ::
    "modbus \<Rightarrow> sft \<Rightarrow> int \<Rightarrow> byte list \<Rightarrow> mapping \<Rightarrow> byte list \<Rightarrow> world \<Rightarrow> reply" where
  "reply_write_multiple_coils ctx sft address req m rsp w =
     (let offset = header_length ctx in
      obind (rd16 req (offset + 3)) (\<lambda>nb.
      obind (rd req (offset + 5)) (\<lambda>nb_bits.
      obind (c_int (address - mp_start_bits m)) (\<lambda>mapping_address.
      if nb < 1 \<or> MODBUS_MAX_WRITE_BITS < nb \<or> uint nb_bits * 8 < nb then
        exception_reply ctx sft MODBUS_EXCEPTION_ILLEGAL_DATA_VALUE True rsp m w
      else obind (out_of_range mapping_address nb (mp_nb_bits m)) (\<lambda>outside.
      if outside then
        exception_reply ctx sft MODBUS_EXCEPTION_ILLEGAL_DATA_ADDRESS False rsp m w
      else
        obind (modbus_set_bits_from_bytes (mp_tab_bits m) mapping_address (nat nb) (drop (offset + 6) req)) (\<lambda>tab.
        obind (be_build_response_basis ctx sft rsp) (\<lambda>(n, rsp).
        obind (memcpy rsp n req n 4) (\<lambda>rsp.
          Done (n + 4, rsp, m\<lparr>mp_tab_bits := tab\<rparr>, w)))))))))"

definition reply_write_multiple_registers ::
    "modbus \<Rightarrow> sft \<Rightarrow> int \<Rightarrow> byte list \<Rightarrow> mapping \<Rightarrow> byte list \<Rightarrow> world \<Rightarrow> reply" where
  "reply_write_multiple_registers ctx sft address req m rsp w =
     (let offset = header_length ctx in
      obind (rd16 req (offset + 3)) (\<lambda>nb.
      obind (rd req (offset + 5)) (\<lambda>nb_bytes.
      obind (c_int (address - mp_start_registers m)) (\<lambda>mapping_address.
      if nb < 1 \<or> MODBUS_MAX_WRITE_REGISTERS < nb \<or> uint nb_bytes \<noteq> nb * 2 then
        exception_reply ctx sft MODBUS_EXCEPTION_ILLEGAL_DATA_VALUE True rsp m w
      else obind (out_of_range mapping_address nb (mp_nb_registers m)) (\<lambda>outside.
      if outside then
        exception_reply ctx sft MODBUS_EXCEPTION_ILLEGAL_DATA_ADDRESS False rsp m w
      else
        obind (take_registers (mp_tab_registers m) mapping_address nb req (offset + 6)) (\<lambda>tab.
        obind (be_build_response_basis ctx sft rsp) (\<lambda>(n, rsp).
        obind (memcpy rsp n req n 4) (\<lambda>rsp.
          Done (n + 4, rsp, m\<lparr>mp_tab_registers := tab\<rparr>, w)))))))))"

definition LIBMODBUS_VERSION_STRING :: string where
  "LIBMODBUS_VERSION_STRING = ''3.2.0''"

definition reply_report_slave_id ::
    "modbus \<Rightarrow> sft \<Rightarrow> mapping \<Rightarrow> byte list \<Rightarrow> world \<Rightarrow> reply" where
  "reply_report_slave_id ctx sft m rsp w =
     obind (be_build_response_basis ctx sft rsp) (\<lambda>(n, rsp).
     let byte_count_pos = n; n = n + 1 in
     obind (push_all rsp n [word_of_int REPORT_SLAVE_ID, 0xFF]) (\<lambda>(n, rsp).
     let str_len = 3 + length LIBMODBUS_VERSION_STRING in
     obind (memcpy rsp n (map of_char (''LMB'' @ LIBMODBUS_VERSION_STRING)) 0 str_len) (\<lambda>rsp.
     let n = n + str_len in
     obind (wr rsp byte_count_pos (word_of_int (int n - int byte_count_pos - 1))) (\<lambda>rsp.
       Done (n, rsp, m, w)))))"

definition reply_mask_write_register ::
    "modbus \<Rightarrow> sft \<Rightarrow> int \<Rightarrow> byte list \<Rightarrow> int \<Rightarrow> mapping \<Rightarrow> byte list \<Rightarrow> world \<Rightarrow> reply" where
  "reply_mask_write_register ctx sft address req req_length m rsp w =
     (let offset = header_length ctx in
      obind (c_int (address - mp_start_registers m)) (\<lambda>mapping_address.
      if mapping_address < 0 \<or> mapping_address \<ge> mp_nb_registers m then
        exception_reply ctx sft MODBUS_EXCEPTION_ILLEGAL_DATA_ADDRESS False rsp m w
      else
        obind (rd16 req (offset + 3)) (\<lambda>v_and. obind (rd16 req (offset + 5)) (\<lambda>v_or.
        obind (compute_response_length_from_request ctx req) (\<lambda>rsp_length.
        if rsp_length \<noteq> Some req_length then
          exception_reply ctx sft MODBUS_EXCEPTION_ILLEGAL_DATA_VALUE False rsp m w
        else
          obind (rdi (mp_tab_registers m) mapping_address) (\<lambda>data.
          let a = (word_of_int v_and :: u16); b = word_of_int v_or;
              data = (data AND a) OR (b AND NOT a) in
          obind (wri (mp_tab_registers m) mapping_address data) (\<lambda>tab.
          let rsp_length = nat (req_length - int (checksum_length ctx)) in
          obind (memcpy rsp 0 req 0 rsp_length) (\<lambda>rsp.
            Done (rsp_length, rsp, m\<lparr>mp_tab_registers := tab\<rparr>, w)))))))))"

definition reply_write_and_read_registers ::
    "modbus \<Rightarrow> sft \<Rightarrow> int \<Rightarrow> byte list \<Rightarrow> mapping \<Rightarrow> byte list \<Rightarrow> world \<Rightarrow> reply" where
  "reply_write_and_read_registers ctx sft address req m rsp w =
     (let offset = header_length ctx in
      obind (rd16 req (offset + 3)) (\<lambda>nb. obind (rd16 req (offset + 5)) (\<lambda>address_write.
      obind (rd16 req (offset + 7)) (\<lambda>nb_write. obind (rd req (offset + 9)) (\<lambda>nb_write_bytes.
      obind (c_int (address - mp_start_registers m)) (\<lambda>mapping_address.
      obind (c_int (address_write - mp_start_registers m)) (\<lambda>mapping_address_write.
      if nb_write < 1 \<or> MODBUS_MAX_WR_WRITE_REGISTERS < nb_write \<or> nb < 1 \<or> MODBUS_MAX_WR_READ_REGISTERS < nb \<or>
         uint nb_write_bytes \<noteq> nb_write * 2 then
        exception_reply ctx sft MODBUS_EXCEPTION_ILLEGAL_DATA_VALUE True rsp m w
      else
        obind (out_of_range mapping_address nb (mp_nb_registers m)) (\<lambda>outside.
        obind (if outside then Done True
               else out_of_range mapping_address_write nb_write (mp_nb_registers m)) (\<lambda>outside.
      if outside then
        exception_reply ctx sft MODBUS_EXCEPTION_ILLEGAL_DATA_ADDRESS False rsp m w
      else
        obind (be_build_response_basis ctx sft rsp) (\<lambda>(n, rsp).
        obind (wr rsp n (word_of_int (push_bit 1 nb))) (\<lambda>rsp.
        obind (take_registers (mp_tab_registers m) mapping_address_write nb_write req (offset + 10)) (\<lambda>tab.
        obind (put_registers tab mapping_address nb rsp (n + 1)) (\<lambda>(n, rsp).
          Done (n, rsp, m\<lparr>mp_tab_registers := tab\<rparr>, w))))))))))))))"

section \<open>The reply\<close>

definition reply_dispatch ::
    "modbus \<Rightarrow> sft \<Rightarrow> int \<Rightarrow> int \<Rightarrow> byte list \<Rightarrow> int \<Rightarrow> mapping \<Rightarrow> byte list \<Rightarrow> world \<Rightarrow> reply" where
  "reply_dispatch ctx sft function address req req_length m rsp w =
     (if function = MODBUS_FC_READ_COILS \<or> function = MODBUS_FC_READ_DISCRETE_INPUTS then
        reply_read_bits ctx sft function address req m rsp w
      else if function = MODBUS_FC_READ_HOLDING_REGISTERS \<or> function = MODBUS_FC_READ_INPUT_REGISTERS then
        reply_read_registers ctx sft function address req m rsp w
      else if function = MODBUS_FC_WRITE_SINGLE_COIL then
        reply_write_single_coil ctx sft address req req_length m rsp w
      else if function = MODBUS_FC_WRITE_SINGLE_REGISTER then
        reply_write_single_register ctx sft address req req_length m rsp w
      else if function = MODBUS_FC_WRITE_MULTIPLE_COILS then
        reply_write_multiple_coils ctx sft address req m rsp w
      else if function = MODBUS_FC_WRITE_MULTIPLE_REGISTERS then
        reply_write_multiple_registers ctx sft address req m rsp w
      else if function = MODBUS_FC_REPORT_SLAVE_ID then
        reply_report_slave_id ctx sft m rsp w
      else if function = MODBUS_FC_READ_EXCEPTION_STATUS then
        exception_reply ctx sft MODBUS_EXCEPTION_ILLEGAL_FUNCTION True rsp m w
      else if function = MODBUS_FC_MASK_WRITE_REGISTER then
        reply_mask_write_register ctx sft address req req_length m rsp w
      else if function = MODBUS_FC_WRITE_AND_READ_REGISTERS then
        reply_write_and_read_registers ctx sft address req m rsp w
      else exception_reply ctx sft MODBUS_EXCEPTION_ILLEGAL_FUNCTION True rsp m w)"

definition broadcast_silent :: "modbus \<Rightarrow> int \<Rightarrow> bool" where
  "broadcast_silent ctx slave \<longleftrightarrow>
     be_type ctx = BACKEND_TYPE_RTU \<and> slave = MODBUS_BROADCAST_ADDRESS \<and>
     mb_quirks ctx AND MODBUS_QUIRK_REPLY_TO_BROADCAST = 0"

text \<open>The part of \<open>modbus_reply\<close> behind the checks of its pointers, up to the response.\<close>

definition reply_response :: "modbus \<Rightarrow> byte list \<Rightarrow> int \<Rightarrow> mapping \<Rightarrow> byte list \<Rightarrow> world \<Rightarrow> reply" where
  "reply_response ctx req req_length m rsp w =
     (let offset = header_length ctx in
      obind (rd req (offset - 1)) (\<lambda>slave. obind (rd req offset) (\<lambda>f. let function = uint f in
      obind (if req_length \<ge> int (offset + 3) then rd16 req (offset + 1) else Done 0) (\<lambda>address.
      obind (be_get_response_tid ctx req) (\<lambda>t_id.
      let sft = \<lparr>sft_slave = uint slave, sft_function = function, sft_t_id = t_id\<rparr>;
          meta_length = compute_meta_length_after_function function MSG_INDICATION in
      obind (if req_length \<ge> int (offset + 1 + meta_length)
             then compute_data_length_after_meta ctx req MSG_INDICATION else Done 0) (\<lambda>data_length.
      if req_length < int (offset + 1 + meta_length + data_length) then
        exception_reply ctx sft MODBUS_EXCEPTION_ILLEGAL_DATA_VALUE True rsp m w
      else reply_dispatch ctx sft function address req req_length m rsp w))))))"

definition modbus_reply ::
    "modbus option \<Rightarrow> byte list option \<Rightarrow> int \<Rightarrow> mapping option \<Rightarrow> byte list \<Rightarrow> world \<Rightarrow>
     (int \<times> modbus option \<times> mapping option \<times> world) outcome" where
  "modbus_reply ctx req req_length mb_mapping rsp w =
     (case (ctx, req, mb_mapping) of
        (Some c, Some req, Some m) \<Rightarrow>
          if req_length < int (header_length c + 1) then Done (-1, ctx, mb_mapping, set_errno EMBBADDATA w)
          else
            obind (reply_response c req req_length m rsp w) (\<lambda>(rsp_length, rsp, m, w).
            obind (rd req (header_length c - 1)) (\<lambda>slave.
            if broadcast_silent c (uint slave) then Done (0, ctx, Some m, w)
            else obind (send_msg c rsp rsp_length w) (\<lambda>(rc, c, rsp, w). Done (rc, Some c, Some m, w))))
      | _ \<Rightarrow> Done (-1, ctx, mb_mapping, set_errno EINVAL w))"

definition modbus_reply_exception ::
    "modbus option \<Rightarrow> byte list option \<Rightarrow> u32 \<Rightarrow> byte list \<Rightarrow> world \<Rightarrow> (int \<times> modbus option \<times> world) outcome" where
  "modbus_reply_exception ctx req exception_code rsp w =
     (case (ctx, req) of
        (Some c, Some req) \<Rightarrow>
          let offset = header_length c in
          obind (rd req (offset - 1)) (\<lambda>slave. obind (rd req offset) (\<lambda>function.
          obind (be_get_response_tid c req) (\<lambda>t_id.
          let sft = \<lparr>sft_slave = uint slave, sft_function = uint function + 0x80, sft_t_id = t_id\<rparr> in
          obind (be_build_response_basis c sft rsp) (\<lambda>(rsp_length, rsp).
          if uint exception_code < MODBUS_EXCEPTION_MAX then
            obind (wr rsp rsp_length (ucast exception_code)) (\<lambda>rsp.
            obind (send_msg c rsp (rsp_length + 1) w) (\<lambda>(rc, c, rsp, w). Done (rc, Some c, w)))
          else Done (-1, ctx, set_errno EINVAL w)))))
      | _ \<Rightarrow> Done (-1, ctx, set_errno EINVAL w))"

end
