(* ===== verification/Mb_Server.thy ===== *)
theory Mb_Server
  imports Mb_Reply
begin

text \<open>
  What the server answers. \<open>serve\<close> is the contract of the protocol: the answer to a request and the
  new contents of the mapping, in terms of the tables. The lemmas show that every handler of
  modbus.c builds the answer of the contract, never reads or writes outside an array, and that the
  previous contents of its stack buffer do not reach the wire.
\<close>

section \<open>Bits of a table as bytes of a message\<close>

fun pack_bits :: "byte list \<Rightarrow> byte list" where
  "pack_bits [] = []"
| "pack_bits (b # bs) = byte_of_bits (take 8 (b # bs)) # pack_bits (drop 7 bs)"

lemma pack_bits_unfold: "bs \<noteq> [] \<Longrightarrow> pack_bits bs = byte_of_bits (take 8 bs) # pack_bits (drop 8 bs)"
  by (cases bs) simp_all

lemma pack_bits_append: "8 dvd length xs \<Longrightarrow> pack_bits (xs @ ys) = pack_bits xs @ pack_bits ys"
proof (induction xs rule: pack_bits.induct)
  case (2 b bs)
  then have "7 \<le> length bs" using dvd_imp_le [of 8 "Suc (length bs)"] by simp
  moreover from this 2 have "8 dvd length (drop 7 bs)" using dvd_minus_self [of 8 "length (b # bs)"] by auto
  ultimately show ?case using 2 by simp
qed simp

lemma length_pack_bits: "length (pack_bits bs) = (length bs + 7) div 8"
proof (induction bs rule: pack_bits.induct)
  case (2 b bs)
  show ?case
  proof (cases "7 \<le> length bs")
    case True
    then have "(Suc (length bs) + 7) div 8 = Suc ((length bs - 7 + 7) div 8)" by simp
    with 2 show ?thesis by simp
  next
    case False
    with 2 show ?thesis by simp
  qed
qed simp

lemma bit_pack_bits:
  assumes "set bs \<subseteq> {0, 1}" and "k < length bs"
  shows "bit (pack_bits bs ! (k div 8)) (k mod 8) \<longleftrightarrow> bs ! k = 1"
  using assms
proof (induction bs arbitrary: k rule: pack_bits.induct)
  case (2 b bs)
  show ?case
  proof (cases "k < 8")
    case True
    have "set (take 8 (b # bs)) \<subseteq> {0, 1}" using "2.prems"(1) set_take_subset [of 8 "b # bs"] by auto
    from bit_byte_of_bits [OF this, of k] True "2.prems"(2) show ?thesis
      by (auto simp: less_Suc_eq_le simp del: take_Cons_numeral)
  next
    case False
    then obtain j where k: "k = 8 + j" using le_Suc_ex [of 8 k] by auto
    have "set (drop 7 bs) \<subseteq> {0, 1}" using "2.prems"(1) set_drop_subset [of 7 bs] by auto
    moreover have "j < length (drop 7 bs)" using "2.prems"(2) k by simp
    ultimately have "bit (pack_bits (drop 7 bs) ! (j div 8)) (j mod 8) \<longleftrightarrow> drop 7 bs ! j = 1" by (rule "2.IH")
    moreover have "(8 + j) div 8 = Suc (j div 8)" "(8 + j) mod 8 = j mod 8" by simp_all
    moreover have "(b # bs) ! (8 + j) = drop 7 bs ! j" using k "2.prems"(2) by (simp add: nth_Cons')
    ultimately show ?thesis unfolding k by (simp only: pack_bits.simps nth_Cons_Suc)
  qed
qed simp

text \<open>Packing the bits of a table and unpacking them gives the table back.\<close>

lemma unpack_pack_bits:
  assumes "set bs \<subseteq> {0, 1}" and "n = length bs"
  shows "unpack_bits n (pack_bits bs) = bs"
proof (rule nth_equalityI)
  fix k
  assume "k < length (unpack_bits n (pack_bits bs))"
  then have "k < length bs" using assms(2) by simp
  moreover from this have "bs ! k \<in> {0, 1}" using assms(1) nth_mem by blast
  ultimately show "unpack_bits n (pack_bits bs) ! k = bs ! k"
    using assms by (auto simp: unpack_bits_def bit_pack_bits bit_byte_def)
qed (simp add: assms)

text \<open>The accumulator \<open>one_byte\<close> of \<open>response_io_status\<close> is an \<open>int\<close>, stored as a byte.\<close>

fun bits_value :: "byte list \<Rightarrow> int" where
  "bits_value [] = 0"
| "bits_value (b # bs) = uint b OR push_bit 1 (bits_value bs)"

lemma bits_value_append: "bits_value (bs @ [b]) = bits_value bs OR push_bit (length bs) (uint b)"
  by (induction bs) (simp_all add: push_bit_or push_bit_push_bit or.assoc)

lemma word_of_bits_value: "word_of_int (bits_value bs) = byte_of_bits bs"
proof (rule bit_eqI)
  fix n
  assume "possible_bit TYPE(byte) n"
  then have "n < 8" by (simp add: possible_bit_word)
  have "bit (bits_value bs) n \<longleftrightarrow> bit (byte_of_bits bs) n" using \<open>n < 8\<close>
  proof (induction bs arbitrary: n)
    case (Cons b bs)
    have "bit (bits_value (b # bs)) n \<longleftrightarrow> bit b n \<or> 1 \<le> n \<and> bit (bits_value bs) (n - 1)"
      using Cons.prems by (simp only: bits_value.simps bit_or_iff bit_push_bit_iff bit_uint_iff) simp
    moreover have "bit (byte_of_bits (b # bs)) n \<longleftrightarrow> bit b n \<or> 1 \<le> n \<and> bit (byte_of_bits bs) (n - 1)"
      using Cons.prems by (simp only: byte_of_bits.simps bit_or_iff bit_push_bit_iff) (simp add: possible_bit_word)
    ultimately show ?case using Cons.IH [of "n - 1"] Cons.prems by simp
  qed simp
  with \<open>n < 8\<close> show "bit (word_of_int (bits_value bs) :: byte) n \<longleftrightarrow> bit (byte_of_bits bs) n"
    by (simp add: bit_word_of_int_iff)
qed

lemma ceil_8: "(n + 7) div 8 = (if n mod 8 = 0 then n div 8 else Suc (n div 8))" for n :: nat
proof -
  define q r where "q = n div 8" and "r = n mod 8"
  then have n: "n = 8 * q + r" "r < 8" by simp_all
  show ?thesis
  proof (cases "r = 0")
    case True
    with n have "8 * q \<le> n + 7" "n + 7 < 8 * Suc q" by simp_all
    then have "(n + 7) div 8 = q" by (rule div_nat_eqI)
    with True show ?thesis by (simp add: q_def r_def)
  next
    case False
    with n have "8 * Suc q \<le> n + 7" "n + 7 < 8 * Suc (Suc q)" by simp_all
    then have "(n + 7) div 8 = Suc q" by (rule div_nat_eqI)
    with False show ?thesis by (simp add: q_def r_def)
  qed
qed

text \<open>The whole of \<open>response_io_status\<close>: the bits of the table, packed, and nothing else.\<close>

lemma response_io_status_value:
  assumes a: "a + n \<le> length tab" and room: "off + (n + 7) div 8 \<le> length rsp"
  shows "response_io_status tab (int a) (int n) rsp off =
    Done (off + (n + 7) div 8,
          take off rsp @ pack_bits (take n (drop a tab)) @ drop (off + (n + 7) div 8) rsp)"
proof -
  define bits where "bits = take n (drop a tab)"
  have len: "length bits = n" using a by (simp add: bits_def)
  have bit_at: "bits ! i = tab ! (a + i)" if "i < n" for i using a that by (simp add: bits_def)
  let ?q = "\<lambda>i. 8 * (i div 8)"
  let ?s = "\<lambda>i. (i mod 8, bits_value (drop (?q i) (take i bits)), off + i div 8,
                 take off rsp @ pack_bits (take (?q i) bits) @ drop (off + i div 8) rsp)"
  let ?body = "\<lambda>i (shift, one_byte :: int, offset, rsp).
          obind (rdi tab (int a + int i)) (\<lambda>b.
          let one_byte = one_byte OR push_bit shift (uint b) in
          if shift = 7 then
            obind (wr rsp offset (word_of_int one_byte)) (\<lambda>rsp. Done (0, 0, offset + 1, rsp))
          else Done (shift + 1, one_byte, offset, rsp))"
  have packed: "length (pack_bits (take (?q i) bits)) = i div 8" if "i \<le> n" for i
    using that len by (simp add: length_pack_bits)
  have "ofor [0..<n] ?body (0, 0, off, rsp) = Done (?s n)"
  proof (rule ofor_upt_state)
    fix i
    assume i: "i < n"
    have rdv: "rdi tab (int a + int i) = Done (tab ! (a + i))"
      using i a by (simp add: rdi_def flip: of_nat_add)
    have qle: "?q i \<le> i" by simp
    have nxt: "take (Suc i) bits = take i bits @ [tab ! (a + i)]"
      using i len by (simp add: take_Suc_conv_app_nth bit_at)
    have cur: "length (drop (?q i) (take i bits)) = i mod 8"
      using i len by (simp add: minus_mult_div_eq_mod)
    have acc: "bits_value (drop (?q i) (take (Suc i) bits)) =
        bits_value (drop (?q i) (take i bits)) OR push_bit (i mod 8) (uint (tab ! (a + i)))"
      using qle i len unfolding nxt by (simp add: bits_value_append cur [symmetric])
    show "?body i (?s i) = Done (?s (Suc i))"
    proof (cases "i mod 8 = 7")
      case False
      then have "Suc i div 8 = i div 8" "Suc i mod 8 = Suc (i mod 8)" by (simp_all add: mod_Suc div_Suc)
      with False rdv acc show ?thesis by (simp add: Let_def)
    next
      case True
      then have full: "8 * Suc (i div 8) = Suc i" using mult_div_mod_eq [of 8 i] by simp
      have suc: "Suc i div 8 = Suc (i div 8)" "Suc i mod 8 = 0" using True by (simp_all add: mod_Suc div_Suc)
      have "8 + 8 * (i div 8) = Suc i" using full by (simp only: mult_Suc_right)
      then have tk: "take (8 + 8 * (i div 8)) bits = take (Suc i) bits" by (simp only:)
      have in_room: "off + i div 8 < length rsp" using i room by linarith
      have "take (Suc i) bits = take (?q i) bits @ drop (?q i) (take (Suc i) bits)"
        using append_take_drop_id [of "?q i" "take (Suc i) bits"] qle by (simp add: min_absorb1)
      moreover have "length (drop (?q i) (take (Suc i) bits)) = 8" using full i len by simp
      ultimately have pk: "pack_bits (take (Suc i) bits) =
          pack_bits (take (?q i) bits) @ [byte_of_bits (drop (?q i) (take (Suc i) bits))]"
        using pack_bits_append [of "take (?q i) bits" "drop (?q i) (take (Suc i) bits)"] i len
        by (auto simp: pack_bits_unfold)
      have "wr (take off rsp @ pack_bits (take (?q i) bits) @ drop (off + i div 8) rsp) (off + i div 8)
              (byte_of_bits (drop (?q i) (take (Suc i) bits))) =
            Done (take off rsp @ pack_bits (take (Suc i) bits) @ drop (off + Suc (i div 8)) rsp)"
        using in_room packed [of i] i unfolding pk
        by (simp add: wr_def list_update_append Cons_nth_drop_Suc [symmetric])
      with True rdv acc suc show ?thesis
        by (simp add: Let_def word_of_bits_value [symmetric] tk)
    qed
  qed simp_all
  then have loop: "ofor [0..<nat (int n)] ?body (0, 0, off, rsp) = Done (?s n)" by simp
  have take_n: "take n bits = bits" using len by simp
  note loop = loop [unfolded take_n]
  show ?thesis
  proof (cases "n mod 8 = 0")
    case True
    then have "?q n = n" "(n + 7) div 8 = n div 8" by (auto simp: ceil_8)
    with loop True take_n show ?thesis by (simp add: response_io_status_def bits_def [symmetric])
  next
    case False
    then have up: "(n + 7) div 8 = Suc (n div 8)" by (simp add: ceil_8)
    have "length (drop (?q n) bits) = n mod 8" using len by (simp add: minus_mult_div_eq_mod)
    then have last: "drop (?q n) bits \<noteq> []" "length (drop (?q n) bits) \<le> 8"
      using False by (metis list.size(3), simp)
    have "pack_bits bits = pack_bits (take (?q n) bits) @ [byte_of_bits (drop (?q n) bits)]"
      using pack_bits_append [of "take (?q n) bits" "drop (?q n) bits"] last len
      by (simp add: pack_bits_unfold del: take_take)
    then have "wr (take off rsp @ pack_bits (take (?q n) bits) @ drop (off + n div 8) rsp) (off + n div 8)
              (byte_of_bits (drop (?q n) bits)) =
            Done (take off rsp @ pack_bits bits @ drop (off + Suc (n div 8)) rsp)"
      using room packed [of n] up
      by (simp add: wr_def list_update_append Cons_nth_drop_Suc [symmetric])
    with loop False up show ?thesis
      by (simp add: response_io_status_def word_of_bits_value bits_def [symmetric])
  qed
qed

section \<open>Registers of a table as bytes of a message\<close>

lemma put_registers_value:
  assumes a: "a + n \<le> length tab" and room: "off + 2 * n \<le> length rsp"
  shows "put_registers tab (int a) (int n) rsp off =
    Done (off + 2 * n, take off rsp @ bytes_of_regs (take n (drop a tab)) @ drop (off + 2 * n) rsp)"
proof -
  define regs where "regs = take n (drop a tab)"
  have len: "length regs = n" using a by (simp add: regs_def)
  let ?s = "\<lambda>i. (off + 2 * i, take off rsp @ bytes_of_regs (take i regs) @ drop (off + 2 * i) rsp)"
  have "ofor [0..<n] (\<lambda>i (k, rsp). obind (rdi tab (int a + int i)) (\<lambda>r. push_all rsp k [hi8 r, lo8 r])) (off, rsp) = Done (?s n)"
  proof (rule ofor_upt_state)
    fix i
    assume i: "i < n"
    have rdv: "rdi tab (int a + int i) = Done (regs ! i)"
      using i a by (simp add: rdi_def regs_def flip: of_nat_add)
    have nxt: "take (Suc i) regs = take i regs @ [regs ! i]" using i len by (simp add: take_Suc_conv_app_nth)
    let ?r = "take off rsp @ bytes_of_regs (take i regs) @ drop (off + 2 * i) rsp"
    have pos: "off + 2 * i = length (take off rsp @ bytes_of_regs (take i regs))" using i len room by simp
    have "take (off + 2 * i) ?r = take off rsp @ bytes_of_regs (take i regs)"
      by (subst (1) pos) (simp only: append_assoc [symmetric] take_length_append)
    moreover have "drop (off + 2 * i + 2) ?r = drop (off + 2 * Suc i) rsp"
    proof -
      have "off + 2 * i + 2 = off + 2 * Suc i" by simp
      then show ?thesis
        using drop_behind [OF pos [symmetric], of "off + 2 * Suc i" rsp] by (simp only: append_assoc)
    qed
    ultimately have "push_all ?r (off + 2 * i) [hi8 (regs ! i), lo8 (regs ! i)] =
        Done (off + 2 * i + 2, (take off rsp @ bytes_of_regs (take i regs)) @ [hi8 (regs ! i), lo8 (regs ! i)] @ drop (off + 2 * Suc i) rsp)"
      using push_all_fits [of "off + 2 * i" "[hi8 (regs ! i), lo8 (regs ! i)]" ?r] i len room
      by (simp add: numeral_2_eq_2 del: push_all.simps)
    then show "(\<lambda>(k, rsp). obind (rdi tab (int a + int i)) (\<lambda>r. push_all rsp k [hi8 r, lo8 r])) (?s i) = Done (?s (Suc i))"
      by (simp add: rdv nxt bytes_of_regs_append del: push_all.simps)
  qed simp_all
  then show ?thesis using len by (simp add: put_registers_def regs_def)
qed

lemma take_registers_value:
  assumes a: "a + n \<le> length tab" and room: "j + 2 * n \<le> length req"
  shows "take_registers tab (int a) (int n) req j =
    Done (take a tab @ take n (regs_of_bytes (drop j req)) @ drop (a + n) tab)"
proof -
  define regs where "regs = regs_of_bytes (drop j req)"
  have len: "n \<le> length regs" using room by (simp add: regs_def)
  let ?s = "\<lambda>i. take a tab @ take i regs @ drop (a + i) tab"
  have "ofor [0..<n] (\<lambda>i tab. obind (rd16 req (j + 2 * i)) (\<lambda>v. wri tab (int a + int i) (word_of_int v))) tab = Done (?s n)"
  proof (rule ofor_upt_state)
    fix i
    assume i: "i < n"
    have v: "rd16 req (j + 2 * i) = Done (be16 (req ! (j + 2 * i)) (req ! (j + 2 * i + 1)))"
      by (rule rd16_value) (use i room in auto)
    have reg: "word_of_int (be16 (req ! (j + 2 * i)) (req ! (j + 2 * i + 1))) = regs ! i"
      using i room nth_regs_of_bytes [of i "drop j req"] by (simp add: regs_def add.assoc)
    have nxt: "take (Suc i) regs = take i regs @ [regs ! i]" using i len by (simp add: take_Suc_conv_app_nth)
    have "drop (a + i) tab = tab ! (a + i) # drop (a + Suc i) tab" using i a by (simp add: Cons_nth_drop_Suc)
    then have "wri (?s i) (int a + int i) (regs ! i) = Done (?s (Suc i))"
      using i a len by (simp add: wri_def wr_def list_update_append nxt flip: of_nat_add)
    then show "obind (rd16 req (j + 2 * i)) (\<lambda>v. wri (?s i) (int a + int i) (word_of_int v)) = Done (?s (Suc i))"
      by (simp only: v obind.simps reg)
  qed simp_all
  then show ?thesis by (simp add: take_registers_def regs_def)
qed

section \<open>The contract\<close>

text \<open>
  The answer to a PDU, as the protocol defines it: \<open>f\<close> is the function code, \<open>p\<close> the bytes
  after it, \<open>exact\<close> says that the request has the canonical length. \<open>Answer body m\<close> is a normal
  response with the bytes after its function code and the new mapping; \<open>Refuse code flush\<close> an
  exception, with the flag for the input to be discarded.
\<close>

datatype answer = Answer "byte list" mapping | Refuse int bool

definition arg :: "byte list \<Rightarrow> nat \<Rightarrow> int" where
  "arg p i = be16 (p ! i) (p ! (i + 1))"

definition in_table :: "int \<Rightarrow> 'a list \<Rightarrow> int \<Rightarrow> int \<Rightarrow> bool" where
  "in_table start tab address nb \<longleftrightarrow> start \<le> address \<and> address + nb \<le> start + int (length tab)"

definition slice :: "int \<Rightarrow> 'a list \<Rightarrow> int \<Rightarrow> int \<Rightarrow> 'a list" where
  "slice start tab address nb = take (nat nb) (drop (nat (address - start)) tab)"

definition overwrite :: "int \<Rightarrow> 'a list \<Rightarrow> int \<Rightarrow> 'a list \<Rightarrow> 'a list" where
  "overwrite start tab address xs =
     (let i = nat (address - start) in take i tab @ xs @ drop (i + length xs) tab)"

definition serve_bits :: "int \<Rightarrow> byte list \<Rightarrow> mapping \<Rightarrow> int \<Rightarrow> int \<Rightarrow> answer" where
  "serve_bits start tab m address nb =
     (if nb < 1 \<or> 2000 < nb then Refuse 3 True
      else if \<not> in_table start tab address nb then Refuse 2 False
      else Answer (word_of_int ((nb + 7) div 8) # pack_bits (slice start tab address nb)) m)"

definition serve_registers :: "int \<Rightarrow> u16 list \<Rightarrow> mapping \<Rightarrow> int \<Rightarrow> int \<Rightarrow> answer" where
  "serve_registers start tab m address nb =
     (if nb < 1 \<or> 125 < nb then Refuse 3 True
      else if \<not> in_table start tab address nb then Refuse 2 False
      else Answer (word_of_int (2 * nb) # bytes_of_regs (slice start tab address nb)) m)"

definition serve_write_coil :: "mapping \<Rightarrow> bool \<Rightarrow> byte list \<Rightarrow> answer" where
  "serve_write_coil m exact p =
     (if \<not> in_table (mp_start_bits m) (mp_tab_bits m) (arg p 0) 1 then Refuse 2 False
      else if \<not> exact then Refuse 3 False
      else if arg p 2 = 0xFF00 \<or> arg p 2 = 0 then
        Answer (take 4 p) (m\<lparr>mp_tab_bits :=
          overwrite (mp_start_bits m) (mp_tab_bits m) (arg p 0) [if arg p 2 \<noteq> 0 then 1 else 0]\<rparr>)
      else Refuse 3 False)"

definition serve_write_register :: "mapping \<Rightarrow> bool \<Rightarrow> byte list \<Rightarrow> answer" where
  "serve_write_register m exact p =
     (if \<not> in_table (mp_start_registers m) (mp_tab_registers m) (arg p 0) 1 then Refuse 2 False
      else if \<not> exact then Refuse 3 False
      else Answer (take 4 p) (m\<lparr>mp_tab_registers :=
          overwrite (mp_start_registers m) (mp_tab_registers m) (arg p 0) [word_of_int (arg p 2)]\<rparr>))"

definition serve_write_coils :: "mapping \<Rightarrow> byte list \<Rightarrow> answer" where
  "serve_write_coils m p =
     (let nb = arg p 2 in
      if nb < 1 \<or> 1968 < nb \<or> uint (p ! 4) * 8 < nb then Refuse 3 True
      else if \<not> in_table (mp_start_bits m) (mp_tab_bits m) (arg p 0) nb then Refuse 2 False
      else Answer (take 4 p) (m\<lparr>mp_tab_bits :=
        overwrite (mp_start_bits m) (mp_tab_bits m) (arg p 0) (unpack_bits (nat nb) (drop 5 p))\<rparr>))"

definition serve_write_registers :: "mapping \<Rightarrow> byte list \<Rightarrow> answer" where
  "serve_write_registers m p =
     (let nb = arg p 2 in
      if nb < 1 \<or> 123 < nb \<or> uint (p ! 4) \<noteq> nb * 2 then Refuse 3 True
      else if \<not> in_table (mp_start_registers m) (mp_tab_registers m) (arg p 0) nb then Refuse 2 False
      else Answer (take 4 p) (m\<lparr>mp_tab_registers :=
        overwrite (mp_start_registers m) (mp_tab_registers m) (arg p 0) (take (nat nb) (regs_of_bytes (drop 5 p)))\<rparr>))"

definition slave_id_body :: "byte list" where
  "slave_id_body = [10, 180, 0xFF, 76, 77, 66, 51, 46, 50, 46, 48]"

definition serve_mask_write :: "mapping \<Rightarrow> bool \<Rightarrow> byte list \<Rightarrow> answer" where
  "serve_mask_write m exact p =
     (if \<not> in_table (mp_start_registers m) (mp_tab_registers m) (arg p 0) 1 then Refuse 2 False
      else if \<not> exact then Refuse 3 False
      else let old = mp_tab_registers m ! nat (arg p 0 - mp_start_registers m);
               a = word_of_int (arg p 2); b = word_of_int (arg p 4) in
        Answer (take 6 p) (m\<lparr>mp_tab_registers :=
          overwrite (mp_start_registers m) (mp_tab_registers m) (arg p 0) [(old AND a) OR (b AND NOT a)]\<rparr>))"

definition serve_write_read :: "mapping \<Rightarrow> byte list \<Rightarrow> answer" where
  "serve_write_read m p =
     (let nb = arg p 2; nb_write = arg p 6; start = mp_start_registers m; tab = mp_tab_registers m in
      if nb_write < 1 \<or> 121 < nb_write \<or> nb < 1 \<or> 125 < nb \<or> uint (p ! 8) \<noteq> nb_write * 2 then Refuse 3 True
      else if \<not> in_table start tab (arg p 0) nb \<or> \<not> in_table start tab (arg p 4) nb_write then Refuse 2 False
      else let tab' = overwrite start tab (arg p 4) (take (nat nb_write) (regs_of_bytes (drop 9 p))) in
        Answer (word_of_int (2 * nb) # bytes_of_regs (slice start tab' (arg p 0) nb)) (m\<lparr>mp_tab_registers := tab'\<rparr>))"

definition serve :: "mapping \<Rightarrow> bool \<Rightarrow> int \<Rightarrow> byte list \<Rightarrow> answer" where
  "serve m exact f p =
     (if f = 1 then serve_bits (mp_start_bits m) (mp_tab_bits m) m (arg p 0) (arg p 2)
      else if f = 2 then serve_bits (mp_start_input_bits m) (mp_tab_input_bits m) m (arg p 0) (arg p 2)
      else if f = 3 then serve_registers (mp_start_registers m) (mp_tab_registers m) m (arg p 0) (arg p 2)
      else if f = 4 then serve_registers (mp_start_input_registers m) (mp_tab_input_registers m) m (arg p 0) (arg p 2)
      else if f = 5 then serve_write_coil m exact p
      else if f = 6 then serve_write_register m exact p
      else if f = 15 then serve_write_coils m p
      else if f = 16 then serve_write_registers m p
      else if f = 17 then Answer slave_id_body m
      else if f = 22 then serve_mask_write m exact p
      else if f = 23 then serve_write_read m p
      else Refuse 1 True)"

section \<open>Responses in the stack buffer\<close>

text \<open>
  The buffer holds a response: its length, its body, and, when the request has a canonical header,
  the header that the backend builds for \<open>sft\<close>.
\<close>

definition holds_pdu :: "modbus \<Rightarrow> bool \<Rightarrow> sft \<Rightarrow> byte list \<Rightarrow> nat \<Rightarrow> byte list \<Rightarrow> bool" where
  "holds_pdu ctx canonical sft body n rsp \<longleftrightarrow>
     length rsp = 260 \<and> n = header_length ctx + 1 + length body \<and> n + checksum_length ctx \<le> 260 \<and>
     drop (header_length ctx + 1) (take n rsp) = body \<and>
     (canonical \<longrightarrow> (\<exists>r0 r1. header_length ctx + 1 \<le> length r0 \<and>
        be_build_response_basis ctx sft r0 = Done (header_length ctx + 1, r1) \<and>
        take (header_length ctx + 1) rsp = take (header_length ctx + 1) r1))"

definition exception_sft :: "sft \<Rightarrow> sft" where
  "exception_sft sft = sft\<lparr>sft_function := sft_function sft + 128\<rparr>"

definition flushed :: "modbus \<Rightarrow> bool \<Rightarrow> world \<Rightarrow> world" where
  "flushed ctx to_flush w = (if to_flush then snd (be_flush ctx (sleep_response_timeout ctx w)) else w)"

definition answers :: "modbus \<Rightarrow> bool \<Rightarrow> sft \<Rightarrow> mapping \<Rightarrow> world \<Rightarrow> answer \<Rightarrow> reply \<Rightarrow> bool" where
  "answers ctx canonical sft m w ans r =
     (case ans of
        Answer body m' \<Rightarrow> (\<exists>n rsp. r = Done (n, rsp, m', w) \<and> holds_pdu ctx canonical sft body n rsp)
      | Refuse code to_flush \<Rightarrow>
          (\<exists>n rsp. r = Done (n, rsp, m, flushed ctx to_flush w) \<and>
             holds_pdu ctx canonical (exception_sft sft) [word_of_int code] n rsp))"

lemma basis_260:
  assumes "length rsp = 260"
  obtains rsp1 where "be_build_response_basis ctx sft rsp = Done (header_length ctx + 1, rsp1)" and "length rsp1 = 260"
proof -
  have "header_length ctx + 1 \<le> length rsp" using assms header_checksum_bounds(2) [of ctx] by linarith
  with be.basis_fits [OF this, of sft] assms that show thesis by auto
qed

lemma holds_pdu_intro:
  assumes "be_build_response_basis ctx sft rsp = Done (header_length ctx + 1, rsp1)" and "length rsp = 260" and "length rsp1 = 260"
    and "header_length ctx + 1 + length body + checksum_length ctx \<le> 260"
  shows "holds_pdu ctx canonical sft body (header_length ctx + 1 + length body)
    (take (header_length ctx + 1) rsp1 @ body @ drop (header_length ctx + 1 + length body) rsp1)"
proof -
  have "take (header_length ctx + 1) (take (header_length ctx + 1) rsp1 @ body @ drop (header_length ctx + 1 + length body) rsp1) =
      take (header_length ctx + 1) rsp1" using assms by simp
  moreover have "header_length ctx + 1 \<le> length rsp" using assms header_checksum_bounds(2) [of ctx] by linarith
  ultimately have "\<exists>r0 r1. header_length ctx + 1 \<le> length r0 \<and>
        be_build_response_basis ctx sft r0 = Done (header_length ctx + 1, r1) \<and>
        take (header_length ctx + 1) (take (header_length ctx + 1) rsp1 @ body @ drop (header_length ctx + 1 + length body) rsp1) =
        take (header_length ctx + 1) r1"
    using assms(1) by blast
  moreover have "drop (header_length ctx + 1) (take (header_length ctx + 1 + length body)
      (take (header_length ctx + 1) rsp1 @ body @ drop (header_length ctx + 1 + length body) rsp1)) = body"
    using assms by simp
  ultimately show ?thesis
    unfolding holds_pdu_def using assms by (intro conjI impI) simp_all
qed

lemma exception_reply_answers:
  assumes "length rsp = 260"
  shows "answers ctx canonical sft m w (Refuse code to_flush) (exception_reply ctx sft code to_flush rsp m w)"
proof -
  from assms obtain rsp1 where b: "be_build_response_basis ctx (exception_sft sft) rsp = Done (header_length ctx + 1, rsp1)"
    and len: "length rsp1 = 260" by (rule basis_260)
  have h: "header_length ctx + 1 + 1 + checksum_length ctx \<le> 260" using header_checksum_bounds(4) [of ctx] by linarith
  then have "exception_reply ctx sft code to_flush rsp m w =
      Done (header_length ctx + 1 + 1, rsp1[header_length ctx + 1 := word_of_int code], m, flushed ctx to_flush w)"
    using b len by (simp add: exception_reply_def response_exception_def exception_sft_def flushed_def Let_def)
  moreover have "rsp1[header_length ctx + 1 := word_of_int code] =
      take (header_length ctx + 1) rsp1 @ [word_of_int code] @ drop (header_length ctx + 1 + 1) rsp1"
    using h len by (simp add: upd_conv_take_nth_drop)
  ultimately show ?thesis
    using holds_pdu_intro [OF b assms len, of "[word_of_int code]" canonical] h by (simp add: answers_def)
qed

section \<open>The handlers build the answers\<close>

text \<open>
  An address and a number of a request are 16-bit values: against a table whose start address
  fits, neither the index nor its range check overflows.
\<close>

lemma arg_bounds: "0 \<le> arg p i" "arg p i < 65536"
  by (simp_all add: arg_def)

lemma c_int_arg: "start_fits start \<Longrightarrow> c_int (arg p i - start) = Done (arg p i - start)"
  using arg_bounds [of p i] by (intro c_int_fits) (simp_all add: start_fits_def)

lemma out_of_range_arg:
  assumes "start_fits start"
  shows "out_of_range (arg p i - start) (arg p j) (int (length tab)) = Done (\<not> in_table start tab (arg p i) (arg p j))"
proof -
  have "c_int (arg p i - start + arg p j) = Done (arg p i - start + arg p j)" if "0 \<le> arg p i - start"
    using assms that arg_bounds [of p i] arg_bounds [of p j] by (intro c_int_fits) (simp_all add: start_fits_def)
  then show ?thesis by (auto simp: out_of_range_def in_table_def)
qed

lemmas address_checks = c_int_arg out_of_range_arg

text \<open>The start of a table that a request may read or write is one of these.\<close>

lemma in_table_fits:
  assumes "in_table start tab (arg p i) nb" and "0 \<le> nb" and "length tab \<le> 65536"
  shows "start_fits start"
  using assms arg_bounds [of p i] by (auto simp: in_table_def start_fits_def)

text \<open>
  Outside of them the check does overflow: coils that start at 2147484296, which is - 2147483000 as
  an \<open>int\<close>, and a request for 1968 of them from address 0 on.
\<close>

lemma extreme_start_overflows:
  "sint (2147484296 :: u32) = - 2147483000 \<and> c_int (0 - sint (2147484296 :: u32)) = Done 2147483000 \<and>
   out_of_range 2147483000 1968 nb_bits = Fault"
  by (simp add: c_int_def out_of_range_def)

lemma rd16_arg:
  assumes "k = header_length ctx + 1 + i" and "k + 1 < length req"
  shows "rd16 req k = Done (arg (drop (header_length ctx + 1) req) i)"
proof -
  have "rd16 req k = Done (be16 (req ! k) (req ! (k + 1)))" by (rule rd16_value) (use assms in auto)
  with assms show ?thesis by (simp add: arg_def)
qed

lemma rd_payload:
  "k = header_length ctx + 1 + i \<Longrightarrow> k < length req \<Longrightarrow> rd req k = Done (drop (header_length ctx + 1) req ! i)"
  by simp

lemma append_after_byte:
  assumes "k + 1 + length xs \<le> length a"
  shows "take (k + 1) (a[k := x]) @ xs @ drop (k + 1 + length xs) (a[k := x]) =
         take k a @ (x # xs) @ drop (k + length (x # xs)) a"
proof -
  have "take (k + 1) (a[k := x]) = take k a @ [x]" using assms take_Suc_update [of k a x] by simp
  then show ?thesis by simp
qed

lemma in_table_nat:
  assumes "in_table start tab address nb" and "0 \<le> nb"
  obtains a n where "address - start = int a" and "nb = int n" and "a + n \<le> length tab"
proof
  show "address - start = int (nat (address - start))" "nb = int (nat nb)" using assms by (auto simp: in_table_def)
  show "nat (address - start) + nat nb \<le> length tab" using assms by (auto simp: in_table_def)
qed

lemma serve_bits_answers:
  assumes len: "length rsp = 260"
  shows "answers ctx canonical sft m w (serve_bits start tab m address nb)
    (if nb < 1 \<or> MODBUS_MAX_READ_BITS < nb then
        exception_reply ctx sft MODBUS_EXCEPTION_ILLEGAL_DATA_VALUE True rsp m w
      else if \<not> in_table start tab address nb then
        exception_reply ctx sft MODBUS_EXCEPTION_ILLEGAL_DATA_ADDRESS False rsp m w
      else
        obind (be_build_response_basis ctx sft rsp) (\<lambda>(n, rsp).
        obind (wr rsp n (word_of_int (nb div 8 + (if nb mod 8 \<noteq> 0 then 1 else 0)))) (\<lambda>rsp.
        obind (response_io_status tab (address - start) nb rsp (n + 1)) (\<lambda>(n, rsp). Done (n, rsp, m, w)))))"
proof (cases "nb < 1 \<or> 2000 < nb \<or> \<not> in_table start tab address nb")
  case True
  then show ?thesis
    using exception_reply_answers [OF len] by (auto simp: serve_bits_def)
next
  case False
  then obtain a n where a: "address - start = int a" and n: "nb = int n" and fits: "a + n \<le> length tab"
    by (auto elim: in_table_nat)
  from False n have small: "n \<le> 2000" by auto
  from len obtain rsp1 where b: "be_build_response_basis ctx sft rsp = Done (header_length ctx + 1, rsp1)"
    and len1: "length rsp1 = 260" by (rule basis_260)
  let ?h = "header_length ctx" and ?p = "pack_bits (take n (drop a tab))" and ?c = "word_of_int ((nb + 7) div 8)"
  have lp: "length ?p = (n + 7) div 8" using fits by (simp add: length_pack_bits)
  have room: "?h + 1 + length (?c # ?p) + checksum_length ctx \<le> 260"
  proof -
    have "(n + 7) div 8 \<le> 2007 div 8" using small by (intro div_le_mono) simp
    moreover have "length (?c # ?p) = 1 + (n + 7) div 8" using lp by simp
    ultimately show ?thesis using header_checksum_bounds(4) [of ctx] by linarith
  qed
  have io: "response_io_status tab (int a) (int n) (rsp1[?h + 1 := ?c]) (?h + 1 + 1) =
      Done (?h + 1 + 1 + (n + 7) div 8,
        take (?h + 1 + 1) (rsp1[?h + 1 := ?c]) @ ?p @ drop (?h + 1 + 1 + (n + 7) div 8) (rsp1[?h + 1 := ?c]))"
    by (rule response_io_status_value) (use fits room lp len1 in auto)
  have buf: "take (?h + 1 + 1) (rsp1[?h + 1 := ?c]) @ ?p @ drop (?h + 1 + 1 + (n + 7) div 8) (rsp1[?h + 1 := ?c]) =
      take (?h + 1) rsp1 @ (?c # ?p) @ drop (?h + 1 + length (?c # ?p)) rsp1"
    using append_after_byte [of "?h + 1" ?p rsp1 ?c] room lp len1 by simp
  have n': "?h + 1 + 1 + (n + 7) div 8 = ?h + 1 + length (?c # ?p)" using lp by simp
  have "wr rsp1 (?h + 1) ?c = Done (rsp1[?h + 1 := ?c])" using room len1 by simp
  then show ?thesis
    using False a n b io [unfolded buf, unfolded n'] holds_pdu_intro [OF b len len1 room, of canonical]
    by (simp only: serve_bits_def answers_def bit_bytes slice_def nat_int obind.simps prod.case
          answer.case MODBUS_MAX_READ_BITS_def if_False de_Morgan_disj not_not simp_thms) auto
qed

lemma serve_registers_answers:
  assumes len: "length rsp = 260"
  shows "answers ctx canonical sft m w (serve_registers start tab m address nb)
    (if nb < 1 \<or> MODBUS_MAX_READ_REGISTERS < nb then
        exception_reply ctx sft MODBUS_EXCEPTION_ILLEGAL_DATA_VALUE True rsp m w
      else if \<not> in_table start tab address nb then
        exception_reply ctx sft MODBUS_EXCEPTION_ILLEGAL_DATA_ADDRESS False rsp m w
      else
        obind (be_build_response_basis ctx sft rsp) (\<lambda>(n, rsp).
        obind (wr rsp n (word_of_int (push_bit 1 nb))) (\<lambda>rsp.
        obind (put_registers tab (address - start) nb rsp (n + 1)) (\<lambda>(n, rsp). Done (n, rsp, m, w)))))"
proof (cases "nb < 1 \<or> 125 < nb \<or> \<not> in_table start tab address nb")
  case True
  then show ?thesis
    using exception_reply_answers [OF len] by (auto simp: serve_registers_def)
next
  case False
  then obtain a n where a: "address - start = int a" and n: "nb = int n" and fits: "a + n \<le> length tab"
    by (auto elim: in_table_nat)
  from False n have small: "n \<le> 125" by auto
  from len obtain rsp1 where b: "be_build_response_basis ctx sft rsp = Done (header_length ctx + 1, rsp1)"
    and len1: "length rsp1 = 260" by (rule basis_260)
  let ?h = "header_length ctx" and ?p = "bytes_of_regs (take n (drop a tab))" and ?c = "word_of_int (push_bit 1 nb) :: byte"
  have lp: "length ?p = 2 * n" using fits by simp
  have lcp: "length (?c # ?p) = 1 + 2 * n" using lp by simp
  have room: "?h + 1 + length (?c # ?p) + checksum_length ctx \<le> 260"
    unfolding lcp using small header_checksum_bounds(4) [of ctx] by linarith
  have put: "put_registers tab (int a) (int n) (rsp1[?h + 1 := ?c]) (?h + 1 + 1) =
      Done (?h + 1 + 1 + 2 * n,
        take (?h + 1 + 1) (rsp1[?h + 1 := ?c]) @ ?p @ drop (?h + 1 + 1 + 2 * n) (rsp1[?h + 1 := ?c]))"
    by (rule put_registers_value) (use fits room lcp len1 in auto)
  have buf: "take (?h + 1 + 1) (rsp1[?h + 1 := ?c]) @ ?p @ drop (?h + 1 + 1 + 2 * n) (rsp1[?h + 1 := ?c]) =
      take (?h + 1) rsp1 @ (?c # ?p) @ drop (?h + 1 + length (?c # ?p)) rsp1"
    using append_after_byte [of "?h + 1" ?p rsp1 ?c] room lp len1 by simp
  have n': "?h + 1 + 1 + 2 * n = ?h + 1 + length (?c # ?p)" using lp by simp
  have "wr rsp1 (?h + 1) ?c = Done (rsp1[?h + 1 := ?c])" using room len1 by simp
  moreover have "word_of_int (2 * nb) = ?c" by (simp add: push_bit_eq_mult mult.commute)
  ultimately show ?thesis
    using False a n b put [unfolded buf, unfolded n'] holds_pdu_intro [OF b len len1 room, of canonical]
    by (simp only: serve_registers_def answers_def slice_def nat_int obind.simps prod.case
          answer.case MODBUS_MAX_READ_REGISTERS_def if_False de_Morgan_disj not_not simp_thms) auto
qed

text \<open>The identity of a request, and the requests whose header a response repeats.\<close>

definition sft_of :: "modbus \<Rightarrow> byte list \<Rightarrow> sft" where
  "sft_of ctx req =
     \<lparr>sft_slave = uint (req ! (header_length ctx - 1)), sft_function = uint (req ! header_length ctx),
      sft_t_id = (if is_rtu ctx then 0 else be16 (req ! 0) (req ! 1))\<rparr>"

definition canonical_header :: "modbus \<Rightarrow> byte list \<Rightarrow> bool" where
  "canonical_header ctx req \<longleftrightarrow> is_rtu ctx \<or> req ! 2 = 0 \<and> req ! 3 = 0"

lemma canonical_basis:
  assumes "canonical_header ctx req" and len: "header_length ctx + 1 \<le> length req"
  shows "\<exists>r1. be_build_response_basis ctx (sft_of ctx req) req = Done (header_length ctx + 1, r1) \<and>
    take (header_length ctx + 1) req = take (header_length ctx + 1) r1"
proof (cases "is_rtu ctx")
  case True
  then obtain r0 r1 rest where "req = r0 # r1 # rest"
    using len backend_lengths(1) [OF True] by (auto simp: numeral_nat Suc_le_length_iff)
  with True show ?thesis
    using rtu_basis_value [of req "sft_of ctx req"]
    by (simp add: backend_lengths be_build_response_basis_def sft_of_def numeral_2_eq_2)
next
  case False
  have "8 \<le> length req" using len backend_lengths(2) [OF False] by simp
  then obtain r0 r1 r2 r3 r4 r5 r6 r7 rest where req: "req = [r0, r1, r2, r3, r4, r5, r6, r7] @ rest"
    by (auto simp: numeral_nat Suc_le_length_iff)
  with False assms show ?thesis
    using tcp_basis_value [of req "sft_of ctx req"]
    by (simp add: backend_lengths be_build_response_basis_def sft_of_def canonical_header_def)
qed

text \<open>A response that repeats the beginning of the request.\<close>

lemma echo_holds_pdu:
  assumes len: "length rsp = 260" and k: "k = header_length ctx + 1 + l" and fits: "k \<le> length req" and small: "l \<le> 6"
  shows "memcpy rsp 0 req 0 k = Done (take k req @ drop k rsp) \<and>
    holds_pdu ctx (canonical_header ctx req) (sft_of ctx req) (take l (drop (header_length ctx + 1) req)) k (take k req @ drop k rsp)"
proof -
  let ?h = "header_length ctx"
  have room: "k + checksum_length ctx \<le> 260" using k small header_checksum_bounds(4) [of ctx] by linarith
  then have "memcpy rsp 0 req 0 k = Done (take k req @ drop k rsp)" using len fits by simp
  moreover have body: "drop (?h + 1) (take k (take k req @ drop k rsp)) = take l (drop (?h + 1) req)"
    using k fits by (simp add: drop_take)
  moreover have "length (take l (drop (?h + 1) req)) = l" using k fits by simp
  moreover have "take (?h + 1) (take k req @ drop k rsp) = take (?h + 1) req" using k fits by simp
  moreover have "length (take k req @ drop k rsp) = 260" using len room fits by simp
  moreover have "?h + 1 \<le> length req" using k fits by linarith
  ultimately show ?thesis
    unfolding holds_pdu_def using canonical_basis [of ctx req] k room by metis
qed

text \<open>A response that repeats the address and the number of the request behind a fresh header.\<close>

lemma copy_holds_pdu:
  assumes b: "be_build_response_basis ctx sft rsp = Done (header_length ctx + 1, rsp1)" and len: "length rsp = 260" "length rsp1 = 260"
    and fits: "header_length ctx + 5 \<le> length req"
  shows "\<exists>rsp2. memcpy rsp1 (header_length ctx + 1) req (header_length ctx + 1) 4 = Done rsp2 \<and>
    holds_pdu ctx canonical sft (take 4 (drop (header_length ctx + 1) req)) (header_length ctx + 1 + 4) rsp2"
proof -
  let ?h = "header_length ctx" and ?b = "take 4 (drop (header_length ctx + 1) req)"
  have lb: "length ?b = 4" using fits by simp
  have room: "?h + 1 + length ?b + checksum_length ctx \<le> 260" unfolding lb using header_checksum_bounds(4) [of ctx] by linarith
  have "memcpy rsp1 (?h + 1) req (?h + 1) 4 = Done (take (?h + 1) rsp1 @ ?b @ drop (?h + 1 + 4) rsp1)"
    by (rule memcpy_Done) (use fits room lb len in linarith)+
  with holds_pdu_intro [OF b len room, of canonical] lb show ?thesis by simp
qed

end
