(* ===== verification/Mb_Answers.thy ===== *)
theory Mb_Answers
  imports Mb_Server
begin

text \<open>
  Every handler of \<open>modbus_reply\<close> builds the answer of the contract, and so does the function as a
  whole: from the bytes of a request and a well-formed mapping, \<open>serve_request\<close> says which frame is
  sent and what the mapping becomes.
\<close>

section \<open>The handlers\<close>

abbreviation payload :: "modbus \<Rightarrow> byte list \<Rightarrow> byte list" where
  "payload ctx req \<equiv> drop (header_length ctx + 1) req"

lemma payload_args:
  assumes "header_length ctx + 5 \<le> length req"
  shows "rd16 req (header_length ctx + 1) = Done (arg (payload ctx req) 0)"
    and "rd16 req (header_length ctx + 3) = Done (arg (payload ctx req) 2)"
proof -
  show "rd16 req (header_length ctx + 1) = Done (arg (payload ctx req) 0)"
    by (rule rd16_arg, simp) (use assms in linarith)
  show "rd16 req (header_length ctx + 3) = Done (arg (payload ctx req) 2)"
    by (rule rd16_arg, simp) (use assms in linarith)
qed

lemma payload_args_5: "header_length ctx + 7 \<le> length req \<Longrightarrow> rd16 req (header_length ctx + 5) = Done (arg (payload ctx req) 4)"
  by (rule rd16_arg) simp_all

lemma payload_args_7: "header_length ctx + 9 \<le> length req \<Longrightarrow> rd16 req (header_length ctx + 7) = Done (arg (payload ctx req) 6)"
  by (rule rd16_arg) simp_all

text \<open>The start address of the table that a function addresses, zero for a function without one.\<close>

definition served_start :: "int \<Rightarrow> mapping \<Rightarrow> int" where
  "served_start f m =
     (if f = 1 \<or> f = 5 \<or> f = 15 then mp_start_bits m
      else if f = 2 then mp_start_input_bits m
      else if f = 4 then mp_start_input_registers m
      else if f = 3 \<or> f = 6 \<or> f = 16 \<or> f = 22 \<or> f = 23 then mp_start_registers m
      else 0)"

lemma addressable_start: "addressable m \<Longrightarrow> start_fits (served_start f m)"
  by (simp add: addressable_def served_start_def start_fits_def)

lemma reply_read_bits_answers:
  assumes wf: "wf_mapping m" and len: "length rsp = 260" and req: "header_length ctx + 5 \<le> length req"
    and f: "f = 1 \<or> f = 2"
    and start: "start_fits (served_start f m)"
  shows "answers ctx canonical sft m w (serve m exact f (payload ctx req))
    (reply_read_bits ctx sft f (arg (payload ctx req) 0) req m rsp w)"
proof -
  have nb: "mp_nb_bits m = int (length (mp_tab_bits m))" "mp_nb_input_bits m = int (length (mp_tab_input_bits m))"
    using wf by (simp_all add: wf_mapping_def)
  let ?a = "arg (payload ctx req) 0" and ?nb = "arg (payload ctx req) 2"
  note bits = serve_bits_answers [OF len, of ctx canonical sft m w _ _ ?a ?nb]
  from f show ?thesis
  proof
    assume f: "f = 1"
    then have start: "start_fits (mp_start_bits m)" using start by (simp add: served_start_def)
    have "(1 = MODBUS_FC_READ_DISCRETE_INPUTS) = False" "serve m exact 1 (payload ctx req) = serve_bits (mp_start_bits m) (mp_tab_bits m) m ?a ?nb"
      by (simp_all add: serve_def)
    then show ?thesis
      using bits [of "mp_start_bits m" "mp_tab_bits m"]
      by (simp only: f reply_read_bits_def payload_args [OF req] address_checks [OF start] nb Let_def obind.simps if_True if_False)
  next
    assume f: "f = 2"
    then have start: "start_fits (mp_start_input_bits m)" using start by (simp add: served_start_def)
    have "(2 = MODBUS_FC_READ_DISCRETE_INPUTS) = True" "serve m exact 2 (payload ctx req) = serve_bits (mp_start_input_bits m) (mp_tab_input_bits m) m ?a ?nb"
      by (simp_all add: serve_def)
    then show ?thesis
      using bits [of "mp_start_input_bits m" "mp_tab_input_bits m"]
      by (simp only: f reply_read_bits_def payload_args [OF req] address_checks [OF start] nb Let_def obind.simps if_True if_False)
  qed
qed

lemma reply_read_registers_answers:
  assumes wf: "wf_mapping m" and len: "length rsp = 260" and req: "header_length ctx + 5 \<le> length req"
    and f: "f = 3 \<or> f = 4"
    and start: "start_fits (served_start f m)"
  shows "answers ctx canonical sft m w (serve m exact f (payload ctx req))
    (reply_read_registers ctx sft f (arg (payload ctx req) 0) req m rsp w)"
proof -
  have nb: "mp_nb_registers m = int (length (mp_tab_registers m))" "mp_nb_input_registers m = int (length (mp_tab_input_registers m))"
    using wf by (simp_all add: wf_mapping_def)
  let ?a = "arg (payload ctx req) 0" and ?nb = "arg (payload ctx req) 2"
  note regs = serve_registers_answers [OF len, of ctx canonical sft m w _ _ ?a ?nb]
  from f show ?thesis
  proof
    assume f: "f = 3"
    then have start: "start_fits (mp_start_registers m)" using start by (simp add: served_start_def)
    have "(3 = MODBUS_FC_READ_INPUT_REGISTERS) = False" "serve m exact 3 (payload ctx req) = serve_registers (mp_start_registers m) (mp_tab_registers m) m ?a ?nb"
      by (simp_all add: serve_def)
    then show ?thesis
      using regs [of "mp_start_registers m" "mp_tab_registers m"]
      by (simp only: f reply_read_registers_def payload_args [OF req] address_checks [OF start] nb Let_def obind.simps if_True if_False)
  next
    assume f: "f = 4"
    then have start: "start_fits (mp_start_input_registers m)" using start by (simp add: served_start_def)
    have "(4 = MODBUS_FC_READ_INPUT_REGISTERS) = True" "serve m exact 4 (payload ctx req) = serve_registers (mp_start_input_registers m) (mp_tab_input_registers m) m ?a ?nb"
      by (simp_all add: serve_def)
    then show ?thesis
      using regs [of "mp_start_input_registers m" "mp_tab_input_registers m"]
      by (simp only: f reply_read_registers_def payload_args [OF req] address_checks [OF start] nb Let_def obind.simps if_True if_False)
  qed
qed

lemma overwrite_int:
  "address - start = int a \<Longrightarrow> overwrite start tab address xs = take a tab @ xs @ drop (a + length xs) tab"
  by (simp add: overwrite_def Let_def)

text \<open>One cell of a table.\<close>

lemma overwrite_one:
  "in_table start tab address 1 \<Longrightarrow> overwrite start tab address [x] = tab[nat (address - start) := x]"
  by (auto simp: overwrite_def in_table_def upd_conv_take_nth_drop Let_def)

lemma in_table_one:
  "\<not> in_table start tab address 1 \<longleftrightarrow> address - start < 0 \<or> address - start \<ge> int (length tab)"
  by (auto simp: in_table_def)

text \<open>The length at which a request that is repeated by its response is accepted.\<close>

definition echo_length :: "modbus \<Rightarrow> int \<Rightarrow> int" where
  "echo_length ctx f = int (header_length ctx + (if f = 22 then 7 else 5) + checksum_length ctx)"

lemma echo_length_value:
  assumes "f = uint (req ! header_length ctx)" and "header_length ctx < length req" and "f = 5 \<or> f = 6 \<or> f = 22"
  shows "compute_response_length_from_request ctx req = Done (Some (echo_length ctx f))"
  using assms by (auto simp: compute_response_length_from_request_def echo_length_def Let_def)

lemma reply_write_single_coil_answers:
  assumes wf: "wf_mapping m" and len: "length rsp = 260" and req: "header_length ctx + 5 \<le> length req"
    and f: "uint (req ! header_length ctx) = 5"
    and start: "start_fits (mp_start_bits m)"
  shows "answers ctx (canonical_header ctx req) (sft_of ctx req) m w
      (serve m (n = echo_length ctx 5) 5 (payload ctx req))
    (reply_write_single_coil ctx (sft_of ctx req) (arg (payload ctx req) 0) req n m rsp w)"
proof -
  let ?p = "payload ctx req" and ?h = "header_length ctx"
  have nb: "mp_nb_bits m = int (length (mp_tab_bits m))" using wf by (simp add: wf_mapping_def)
  have el: "compute_response_length_from_request ctx req = Done (Some (echo_length ctx 5))"
    by (rule echo_length_value) (use f req in auto)
  have k: "nat (echo_length ctx 5 - int (checksum_length ctx)) = ?h + 1 + 4" by (simp add: echo_length_def)
  note echo = echo_holds_pdu [OF len refl, of ctx 4 req]
  have copy: "memcpy rsp 0 req 0 (?h + 1 + 4) = Done (take (?h + 1 + 4) req @ drop (?h + 1 + 4) rsp)"
    and holds: "holds_pdu ctx (canonical_header ctx req) (sft_of ctx req) (take 4 ?p) (?h + 1 + 4)
      (take (?h + 1 + 4) req @ drop (?h + 1 + 4) rsp)"
    using echo req by simp_all
  show ?thesis
  proof (cases "in_table (mp_start_bits m) (mp_tab_bits m) (arg ?p 0) 1 \<and> n = echo_length ctx 5 \<and> (arg ?p 2 = 0xFF00 \<or> arg ?p 2 = 0)")
    case False
    then show ?thesis
      using exception_reply_answers [OF len]
      by (auto simp: reply_write_single_coil_def serve_def serve_write_coil_def nb el in_table_one payload_args [OF req] address_checks [OF start] Let_def)
  next
    case True
    then have i: "0 \<le> arg ?p 0 - mp_start_bits m" "nat (arg ?p 0 - mp_start_bits m) < length (mp_tab_bits m)"
      by (auto simp: in_table_def)
    with True have "reply_write_single_coil ctx (sft_of ctx req) (arg ?p 0) req n m rsp w =
        Done (?h + 1 + 4, take (?h + 1 + 4) req @ drop (?h + 1 + 4) rsp,
          m\<lparr>mp_tab_bits := overwrite (mp_start_bits m) (mp_tab_bits m) (arg ?p 0) [if arg ?p 2 \<noteq> 0 then 1 else 0]\<rparr>, w)"
      by (simp only: reply_write_single_coil_def Let_def nb el payload_args [OF req] address_checks [OF start] obind.simps k copy overwrite_one) auto
    with True holds show ?thesis
      by (simp add: answers_def serve_def serve_write_coil_def)
  qed
qed


lemma reply_write_single_register_answers:
  assumes wf: "wf_mapping m" and len: "length rsp = 260" and req: "header_length ctx + 5 \<le> length req"
    and f: "uint (req ! header_length ctx) = 6"
    and start: "start_fits (mp_start_registers m)"
  shows "answers ctx (canonical_header ctx req) (sft_of ctx req) m w
      (serve m (n = echo_length ctx 6) 6 (payload ctx req))
    (reply_write_single_register ctx (sft_of ctx req) (arg (payload ctx req) 0) req n m rsp w)"
proof -
  let ?p = "payload ctx req" and ?h = "header_length ctx"
  have nb: "mp_nb_registers m = int (length (mp_tab_registers m))" using wf by (simp add: wf_mapping_def)
  have el: "compute_response_length_from_request ctx req = Done (Some (echo_length ctx 6))"
    by (rule echo_length_value) (use f req in auto)
  have k: "nat (echo_length ctx 6 - int (checksum_length ctx)) = ?h + 1 + 4" by (simp add: echo_length_def)
  note echo = echo_holds_pdu [OF len refl, of ctx 4 req]
  have copy: "memcpy rsp 0 req 0 (?h + 1 + 4) = Done (take (?h + 1 + 4) req @ drop (?h + 1 + 4) rsp)"
    and holds: "holds_pdu ctx (canonical_header ctx req) (sft_of ctx req) (take 4 ?p) (?h + 1 + 4)
      (take (?h + 1 + 4) req @ drop (?h + 1 + 4) rsp)"
    using echo req by simp_all
  show ?thesis
  proof (cases "in_table (mp_start_registers m) (mp_tab_registers m) (arg ?p 0) 1 \<and> n = echo_length ctx 6")
    case False
    then show ?thesis
      using exception_reply_answers [OF len]
      by (auto simp: reply_write_single_register_def serve_def serve_write_register_def nb el in_table_one payload_args [OF req] address_checks [OF start] Let_def)
  next
    case True
    then have i: "0 \<le> arg ?p 0 - mp_start_registers m" "nat (arg ?p 0 - mp_start_registers m) < length (mp_tab_registers m)"
      by (auto simp: in_table_def)
    with True have "reply_write_single_register ctx (sft_of ctx req) (arg ?p 0) req n m rsp w =
        Done (?h + 1 + 4, take (?h + 1 + 4) req @ drop (?h + 1 + 4) rsp,
          m\<lparr>mp_tab_registers := overwrite (mp_start_registers m) (mp_tab_registers m) (arg ?p 0) [word_of_int (arg ?p 2)]\<rparr>, w)"
      by (simp only: reply_write_single_register_def Let_def nb el payload_args [OF req] address_checks [OF start] obind.simps k copy overwrite_one) auto
    with True holds show ?thesis
      by (simp add: answers_def serve_def serve_write_register_def)
  qed
qed

lemma reply_mask_write_register_answers:
  assumes wf: "wf_mapping m" and len: "length rsp = 260" and req: "header_length ctx + 7 \<le> length req"
    and f: "uint (req ! header_length ctx) = 22"
    and start: "start_fits (mp_start_registers m)"
  shows "answers ctx (canonical_header ctx req) (sft_of ctx req) m w
      (serve m (n = echo_length ctx 22) 22 (payload ctx req))
    (reply_mask_write_register ctx (sft_of ctx req) (arg (payload ctx req) 0) req n m rsp w)"
proof -
  let ?p = "payload ctx req" and ?h = "header_length ctx"
  have req5: "?h + 5 \<le> length req" using req by linarith
  have nb: "mp_nb_registers m = int (length (mp_tab_registers m))" using wf by (simp add: wf_mapping_def)
  have el: "compute_response_length_from_request ctx req = Done (Some (echo_length ctx 22))"
    by (rule echo_length_value) (use f req in auto)
  have k: "nat (echo_length ctx 22 - int (checksum_length ctx)) = ?h + 1 + 6" by (simp add: echo_length_def)
  note echo = echo_holds_pdu [OF len refl, of ctx 6 req]
  have copy: "memcpy rsp 0 req 0 (?h + 1 + 6) = Done (take (?h + 1 + 6) req @ drop (?h + 1 + 6) rsp)"
    and holds: "holds_pdu ctx (canonical_header ctx req) (sft_of ctx req) (take 6 ?p) (?h + 1 + 6)
      (take (?h + 1 + 6) req @ drop (?h + 1 + 6) rsp)"
    using echo req by simp_all
  note args = payload_args [OF req5] payload_args_5 [OF req]
  show ?thesis
  proof (cases "in_table (mp_start_registers m) (mp_tab_registers m) (arg ?p 0) 1 \<and> n = echo_length ctx 22")
    case False
    then show ?thesis
      using exception_reply_answers [OF len]
      by (auto simp: reply_mask_write_register_def serve_def serve_mask_write_def nb el in_table_one args address_checks [OF start] Let_def)
  next
    case True
    then have i: "0 \<le> arg ?p 0 - mp_start_registers m" "nat (arg ?p 0 - mp_start_registers m) < length (mp_tab_registers m)"
      by (auto simp: in_table_def)
    with True have "reply_mask_write_register ctx (sft_of ctx req) (arg ?p 0) req n m rsp w =
        Done (?h + 1 + 6, take (?h + 1 + 6) req @ drop (?h + 1 + 6) rsp,
          m\<lparr>mp_tab_registers := overwrite (mp_start_registers m) (mp_tab_registers m) (arg ?p 0)
            [(mp_tab_registers m ! nat (arg ?p 0 - mp_start_registers m) AND word_of_int (arg ?p 2)) OR
             (word_of_int (arg ?p 4) AND NOT (word_of_int (arg ?p 2)))]\<rparr>, w)"
      by (simp only: reply_mask_write_register_def Let_def nb el args address_checks [OF start] obind.simps k copy overwrite_one rdi_Done) auto
    with True holds show ?thesis
      by (simp add: answers_def serve_def serve_mask_write_def Let_def)
  qed
qed


lemma serve_eqs:
  "serve m exact 15 p = serve_write_coils m p" "serve m exact 16 p = serve_write_registers m p"
  "serve m exact 17 p = Answer slave_id_body m" "serve m exact 23 p = serve_write_read m p"
  by (simp_all add: serve_def)

lemma reply_write_multiple_coils_answers:
  assumes wf: "wf_mapping m" and len: "length rsp = 260"
    and req: "header_length ctx + 6 + unat (req ! (header_length ctx + 5)) \<le> length req"
    and start: "start_fits (mp_start_bits m)"
  shows "answers ctx canonical sft m w (serve m exact 15 (payload ctx req))
    (reply_write_multiple_coils ctx sft (arg (payload ctx req) 0) req m rsp w)"
proof -
  let ?p = "payload ctx req" and ?h = "header_length ctx"
  define bs where "bs = drop (?h + 6) req"
  have req5: "?h + 5 \<le> length req" and lbs: "unat (req ! (?h + 5)) \<le> length bs" using req by (simp_all add: bs_def)
  have nb: "mp_nb_bits m = int (length (mp_tab_bits m))" "length (mp_tab_bits m) < 2 ^ 32"
    using wf by (simp_all add: wf_mapping_def)
  have count: "rd req (?h + 5) = Done (?p ! 4)" by (rule rd_payload) (use req in simp_all)
  have count_p: "?p ! 4 = req ! (?h + 5)" using req by (simp add: add.commute)
  have data: "drop 5 ?p = bs" by (simp add: bs_def add.commute)
  note args = payload_args [OF req5] count
  show ?thesis
  proof (cases "arg ?p 2 < 1 \<or> 1968 < arg ?p 2 \<or> uint (?p ! 4) * 8 < arg ?p 2 \<or> \<not> in_table (mp_start_bits m) (mp_tab_bits m) (arg ?p 0) (arg ?p 2)")
    case True
    then show ?thesis
      using exception_reply_answers [OF len]
      by (auto simp: reply_write_multiple_coils_def serve_def serve_write_coils_def nb address_checks [OF start] args Let_def)
  next
    case False
    then obtain a n where a: "arg ?p 0 - mp_start_bits m = int a" and n: "arg ?p 2 = int n" and fits: "a + n \<le> length (mp_tab_bits m)"
      by (auto elim: in_table_nat)
    have "int n \<le> 8 * uint (req ! (?h + 5))" using False n count_p by auto
    then have "n \<le> 8 * unat (req ! (?h + 5))" by (simp only: uint_nat [symmetric] flip: of_nat_mult of_nat_le_iff [where 'a = int]) simp
    then have n8: "n \<le> 8 * length bs" using lbs by linarith
    have set: "modbus_set_bits_from_bytes (mp_tab_bits m) (arg ?p 0 - mp_start_bits m) (nat (arg ?p 2)) bs =
        Done (overwrite (mp_start_bits m) (mp_tab_bits m) (arg ?p 0) (unpack_bits (nat (arg ?p 2)) bs))"
      unfolding overwrite_int [OF a] a n nat_int using set_bits_from_bytes_value [OF fits nb(2) n8] by simp
    from len obtain rsp1 where b: "be_build_response_basis ctx sft rsp = Done (?h + 1, rsp1)" and len1: "length rsp1 = 260"
      by (rule basis_260)
    from copy_holds_pdu [OF b len len1 req5, of canonical] obtain rsp2 where
        copy: "memcpy rsp1 (?h + 1) req (?h + 1) 4 = Done rsp2"
      and holds: "holds_pdu ctx canonical sft (take 4 ?p) (?h + 1 + 4) rsp2" by blast
    from False have "reply_write_multiple_coils ctx sft (arg ?p 0) req m rsp w =
        Done (?h + 1 + 4, rsp2, m\<lparr>mp_tab_bits :=
          overwrite (mp_start_bits m) (mp_tab_bits m) (arg ?p 0) (unpack_bits (nat (arg ?p 2)) bs)\<rparr>, w)"
      by (simp only: reply_write_multiple_coils_def Let_def nb(1) args address_checks [OF start] obind.simps prod.case b copy set bs_def [symmetric]) auto
    with False holds show ?thesis
      by (simp only: answers_def serve_eqs serve_write_coils_def Let_def data) auto
  qed
qed

lemma reply_write_multiple_registers_answers:
  assumes wf: "wf_mapping m" and len: "length rsp = 260"
    and req: "header_length ctx + 6 + unat (req ! (header_length ctx + 5)) \<le> length req"
    and start: "start_fits (mp_start_registers m)"
  shows "answers ctx canonical sft m w (serve m exact 16 (payload ctx req))
    (reply_write_multiple_registers ctx sft (arg (payload ctx req) 0) req m rsp w)"
proof -
  let ?p = "payload ctx req" and ?h = "header_length ctx"
  have req5: "?h + 5 \<le> length req" using req by linarith
  have nb: "mp_nb_registers m = int (length (mp_tab_registers m))" using wf by (simp add: wf_mapping_def)
  have count: "rd req (?h + 5) = Done (?p ! 4)" by (rule rd_payload) (use req in simp_all)
  have count_p: "?p ! 4 = req ! (?h + 5)" using req by (simp add: add.commute)
  have data: "drop 5 ?p = drop (?h + 6) req" by (simp add: add.commute)
  note args = payload_args [OF req5] count
  show ?thesis
  proof (cases "arg ?p 2 < 1 \<or> 123 < arg ?p 2 \<or> uint (?p ! 4) \<noteq> arg ?p 2 * 2 \<or> \<not> in_table (mp_start_registers m) (mp_tab_registers m) (arg ?p 0) (arg ?p 2)")
    case True
    then show ?thesis
      using exception_reply_answers [OF len]
      by (auto simp: reply_write_multiple_registers_def serve_def serve_write_registers_def nb address_checks [OF start] args Let_def)
  next
    case False
    then obtain a n where a: "arg ?p 0 - mp_start_registers m = int a" and n: "arg ?p 2 = int n" and fits: "a + n \<le> length (mp_tab_registers m)"
      by (auto elim: in_table_nat)
    have "uint (req ! (?h + 5)) = int (n * 2)" using False n count_p by simp
    then have "unat (req ! (?h + 5)) = n * 2" by (simp only: unat_eq_nat_uint nat_int)
    then have room: "?h + 6 + 2 * n \<le> length req" using req by simp
    then have lr: "n \<le> length (regs_of_bytes (drop (?h + 6) req))" by simp
    have set: "take_registers (mp_tab_registers m) (arg ?p 0 - mp_start_registers m) (arg ?p 2) req (?h + 6) =
        Done (overwrite (mp_start_registers m) (mp_tab_registers m) (arg ?p 0) (take (nat (arg ?p 2)) (regs_of_bytes (drop (?h + 6) req))))"
      unfolding overwrite_int [OF a] a n nat_int using take_registers_value [OF fits room] lr
      by (simp add: min_absorb2 del: length_regs_of_bytes)
    from len obtain rsp1 where b: "be_build_response_basis ctx sft rsp = Done (?h + 1, rsp1)" and len1: "length rsp1 = 260"
      by (rule basis_260)
    from copy_holds_pdu [OF b len len1 req5, of canonical] obtain rsp2 where
        copy: "memcpy rsp1 (?h + 1) req (?h + 1) 4 = Done rsp2"
      and holds: "holds_pdu ctx canonical sft (take 4 ?p) (?h + 1 + 4) rsp2" by blast
    from False have "reply_write_multiple_registers ctx sft (arg ?p 0) req m rsp w =
        Done (?h + 1 + 4, rsp2, m\<lparr>mp_tab_registers :=
          overwrite (mp_start_registers m) (mp_tab_registers m) (arg ?p 0) (take (nat (arg ?p 2)) (regs_of_bytes (drop (?h + 6) req)))\<rparr>, w)"
      by (simp only: reply_write_multiple_registers_def Let_def nb(1) args address_checks [OF start] obind.simps prod.case b copy set) auto
    with False holds show ?thesis
      by (simp only: answers_def serve_eqs serve_write_registers_def Let_def data) auto
  qed
qed


lemma reply_report_slave_id_answers:
  assumes len: "length rsp = 260"
  shows "answers ctx canonical sft m w (serve m exact 17 p) (reply_report_slave_id ctx sft m rsp w)"
proof -
  let ?h = "header_length ctx"
  from len obtain rsp1 where b: "be_build_response_basis ctx sft rsp = Done (?h + 1, rsp1)" and len1: "length rsp1 = 260"
    by (rule basis_260)
  have room: "?h + 1 + length slave_id_body + checksum_length ctx \<le> 260"
    by (simp add: slave_id_body_def header_length_def checksum_length_def)
  have str: "map of_char (''LMB'' @ LIBMODBUS_VERSION_STRING) = ([76, 77, 66, 51, 46, 50, 46, 48] :: byte list)"
    by (simp add: LIBMODBUS_VERSION_STRING_def)
  have n: "3 + length LIBMODBUS_VERSION_STRING = 8" by (simp add: LIBMODBUS_VERSION_STRING_def)
  define k where "k = ?h + 1"
  have k: "k + 11 \<le> length rsp1" using room len1 by (simp add: k_def slave_id_body_def)
  obtain xs b0 b1 b2 ys where rsp1: "rsp1 = xs @ [b0, b1, b2] @ ys" and xs: "length xs = k" and ys: "8 \<le> length ys"
  proof (rule that)
    show "rsp1 = take k rsp1 @ [rsp1 ! k, rsp1 ! Suc k, rsp1 ! Suc (Suc k)] @ drop (Suc (Suc (Suc k))) rsp1"
      using k by (simp add: Cons_nth_drop_Suc)
  qed (use k in simp_all)
  have "push_all rsp1 (k + 1) [word_of_int REPORT_SLAVE_ID, 0xFF] = Done (k + 3, xs @ [b0, 180, 0xFF] @ ys)"
    using xs by (simp add: rsp1 wr_def list_update_append numeral_3_eq_3)
  moreover have "memcpy (xs @ [b0, 180, 0xFF] @ ys) (k + 3) ([76, 77, 66, 51, 46, 50, 46, 48] :: byte list) 0 8 =
      Done (xs @ [b0, 180, 0xFF, 76, 77, 66, 51, 46, 50, 46, 48] @ drop 8 ys)"
    using xs ys by (simp add: memcpy_def)
  moreover have "wr (xs @ [b0, 180, 0xFF, 76, 77, 66, 51, 46, 50, 46, 48] @ drop 8 ys) k
      (word_of_int (int (k + 3 + 8) - int k - 1)) = Done (xs @ slave_id_body @ drop 8 ys)"
  proof -
    have "int (k + 3 + 8) - int k - 1 = 10" by simp
    then show ?thesis
      unfolding slave_id_body_def using xs by (simp only: wr_def) (simp add: list_update_append)
  qed
  ultimately have "reply_report_slave_id ctx sft m rsp w = Done (k + 3 + 8, xs @ slave_id_body @ drop 8 ys, m, w)"
    by (simp only: reply_report_slave_id_def b k_def [symmetric] str n Let_def obind.simps prod.case)
  moreover have "xs @ slave_id_body @ drop 8 ys = take k rsp1 @ slave_id_body @ drop (k + length slave_id_body) rsp1"
    using xs by (simp add: rsp1 slave_id_body_def)
  moreover have "k + 3 + 8 = k + length slave_id_body" by (simp add: slave_id_body_def)
  ultimately show ?thesis
    using holds_pdu_intro [OF b len len1 room, of canonical]
    by (simp only: answers_def serve_eqs k_def) auto
qed

lemma reply_write_and_read_registers_answers:
  assumes wf: "wf_mapping m" and len: "length rsp = 260"
    and req: "header_length ctx + 10 + unat (req ! (header_length ctx + 9)) \<le> length req"
    and start: "start_fits (mp_start_registers m)"
  shows "answers ctx canonical sft m w (serve m exact 23 (payload ctx req))
    (reply_write_and_read_registers ctx sft (arg (payload ctx req) 0) req m rsp w)"
proof -
  let ?p = "payload ctx req" and ?h = "header_length ctx" and ?start = "mp_start_registers m" and ?tab = "mp_tab_registers m"
  have req5: "?h + 5 \<le> length req" "?h + 7 \<le> length req" "?h + 9 \<le> length req" using req by linarith+
  have nb: "mp_nb_registers m = int (length ?tab)" using wf by (simp add: wf_mapping_def)
  have count: "rd req (?h + 9) = Done (?p ! 8)" by (rule rd_payload) (use req in simp_all)
  have count_p: "?p ! 8 = req ! (?h + 9)" using req by (simp add: add.commute)
  have data: "drop 9 ?p = drop (?h + 10) req" by (simp add: add.commute)
  note args = payload_args [OF req5(1)] payload_args_5 [OF req5(2)] payload_args_7 [OF req5(3)] count
  show ?thesis
  proof (cases "arg ?p 6 < 1 \<or> 121 < arg ?p 6 \<or> arg ?p 2 < 1 \<or> 125 < arg ?p 2 \<or> uint (?p ! 8) \<noteq> arg ?p 6 * 2 \<or>
      \<not> in_table ?start ?tab (arg ?p 0) (arg ?p 2) \<or> \<not> in_table ?start ?tab (arg ?p 4) (arg ?p 6)")
    case True
    then show ?thesis
      using exception_reply_answers [OF len]
      by (auto simp: reply_write_and_read_registers_def serve_def serve_write_read_def nb address_checks [OF start] args Let_def)
  next
    case False
    then obtain a n where a: "arg ?p 0 - ?start = int a" and n: "arg ?p 2 = int n" and fits: "a + n \<le> length ?tab"
      by (auto elim: in_table_nat)
    from False obtain aw nw where aw: "arg ?p 4 - ?start = int aw" and nw: "arg ?p 6 = int nw" and fitsw: "aw + nw \<le> length ?tab"
      by (auto elim: in_table_nat)
    have "uint (req ! (?h + 9)) = int (nw * 2)" using False nw count_p by simp
    then have "unat (req ! (?h + 9)) = nw * 2" by (simp only: unat_eq_nat_uint nat_int)
    then have room: "?h + 10 + 2 * nw \<le> length req" using req by simp
    then have lr: "nw \<le> length (regs_of_bytes (drop (?h + 10) req))" by simp
    define tab' where "tab' = overwrite ?start ?tab (arg ?p 4) (take (nat (arg ?p 6)) (regs_of_bytes (drop (?h + 10) req)))"
    have set: "take_registers ?tab (arg ?p 4 - ?start) (arg ?p 6) req (?h + 10) = Done tab'"
      unfolding tab'_def overwrite_int [OF aw] aw nw nat_int using take_registers_value [OF fitsw room] lr
      by (simp add: min_absorb2 del: length_regs_of_bytes)
    have fits': "a + n \<le> length tab'"
      unfolding tab'_def overwrite_int [OF aw] nw nat_int using fits fitsw lr
      by (simp add: min_absorb2 del: length_regs_of_bytes)
    from len obtain rsp1 where b: "be_build_response_basis ctx sft rsp = Done (?h + 1, rsp1)" and len1: "length rsp1 = 260"
      by (rule basis_260)
    define c where "c = (word_of_int (push_bit 1 (arg ?p 2)) :: byte)"
    let ?b = "bytes_of_regs (take n (drop a tab'))"
    have small: "n \<le> 125" using False n by simp
    have lb: "length ?b = 2 * n" using fits' by simp
    have lcb: "length (c # ?b) = 1 + 2 * n" using lb by simp
    have room_rsp: "?h + 1 + length (c # ?b) + checksum_length ctx \<le> 260"
      unfolding lcb using small header_checksum_bounds(4) [of ctx] by linarith
    have put: "put_registers tab' (int a) (int n) (rsp1[?h + 1 := c]) (?h + 1 + 1) =
        Done (?h + 1 + 1 + 2 * n,
          take (?h + 1 + 1) (rsp1[?h + 1 := c]) @ ?b @ drop (?h + 1 + 1 + 2 * n) (rsp1[?h + 1 := c]))"
      by (rule put_registers_value) (use fits' room_rsp lcb len1 in auto)
    have buf: "take (?h + 1 + 1) (rsp1[?h + 1 := c]) @ ?b @ drop (?h + 1 + 1 + 2 * n) (rsp1[?h + 1 := c]) =
        take (?h + 1) rsp1 @ (c # ?b) @ drop (?h + 1 + length (c # ?b)) rsp1"
      using append_after_byte [of "?h + 1" ?b rsp1 c] room_rsp lb len1 by simp
    have n': "?h + 1 + 1 + 2 * n = ?h + 1 + length (c # ?b)" using lb by simp
    have put': "put_registers tab' (arg ?p 0 - ?start) (arg ?p 2) (rsp1[?h + 1 := c]) (?h + 1 + 1) =
        Done (?h + 1 + length (c # ?b), take (?h + 1) rsp1 @ (c # ?b) @ drop (?h + 1 + length (c # ?b)) rsp1)"
      unfolding a n put buf by (simp only: n')
    have w1: "wr rsp1 (?h + 1) c = Done (rsp1[?h + 1 := c])" using room_rsp len1 by simp
    from False have "reply_write_and_read_registers ctx sft (arg ?p 0) req m rsp w =
        Done (?h + 1 + length (c # ?b), take (?h + 1) rsp1 @ (c # ?b) @ drop (?h + 1 + length (c # ?b)) rsp1,
          m\<lparr>mp_tab_registers := tab'\<rparr>, w)"
      by (simp only: reply_write_and_read_registers_def Let_def nb(1) args address_checks [OF start] obind.simps prod.case b c_def [symmetric] w1 set
          put' MODBUS_MAX_WR_WRITE_REGISTERS_def MODBUS_MAX_WR_READ_REGISTERS_def) auto
    moreover have "word_of_int (2 * arg ?p 2) = c" by (simp add: c_def push_bit_eq_mult mult.commute)
    ultimately show ?thesis
      using False holds_pdu_intro [OF b len len1 room_rsp, of canonical]
      by (simp only: answers_def serve_eqs serve_write_read_def Let_def data tab'_def [symmetric] slice_def a n nat_int) auto
  qed
qed


section \<open>The function\<close>

text \<open>
  The answer to a request of \<open>n\<close> bytes: a request shorter than its function code and its count
  announce is refused, any other one is served.
\<close>

definition serve_request :: "modbus \<Rightarrow> byte list \<Rightarrow> nat \<Rightarrow> mapping \<Rightarrow> answer" where
  "serve_request ctx req n m =
     (let f = uint (req ! header_length ctx) in
      if n < header_length ctx + 1 + meta_length ctx MSG_INDICATION req \<or> n < message_length ctx MSG_INDICATION req
      then Refuse 3 True
      else serve m (int n = echo_length ctx f) f (payload ctx req))"

lemma served_function_cases:
  fixes f :: int
  obtains (bits) "f = 1 \<or> f = 2" | (regs) "f = 3 \<or> f = 4" | (coil) "f = 5" | (reg) "f = 6"
  | (coils) "f = 15" | (registers) "f = 16" | (slave_id) "f = 17" | (mask) "f = 22" | (write_read) "f = 23"
  | (other) "f \<notin> {1, 2, 3, 4, 5, 6, 15, 16, 17, 22, 23}"
  by blast

lemma indication_lengths:
  assumes "f = uint (req ! header_length ctx)"
  shows "f \<in> {1, 2, 3, 4, 5, 6} \<Longrightarrow> meta_length ctx MSG_INDICATION req = 4"
    and "f = 22 \<Longrightarrow> meta_length ctx MSG_INDICATION req = 6"
    and "f = 15 \<or> f = 16 \<Longrightarrow> meta_length ctx MSG_INDICATION req = 5 \<and>
           data_length ctx MSG_INDICATION req = unat (req ! (header_length ctx + 5)) + checksum_length ctx"
    and "f = 23 \<Longrightarrow> meta_length ctx MSG_INDICATION req = 9 \<and>
           data_length ctx MSG_INDICATION req = unat (req ! (header_length ctx + 9)) + checksum_length ctx"
  using assms by (auto simp: meta_length_def data_length_def compute_meta_length_after_function_def Let_def)

lemma reply_dispatch_answers:
  assumes wf: "wf_mapping m" and len: "length rsp = 260" and n: "n \<le> length req"
    and whole: "header_length ctx + 1 + meta_length ctx MSG_INDICATION req \<le> n" "message_length ctx MSG_INDICATION req \<le> n"
    and f: "f = uint (req ! header_length ctx)"
    and addr: "header_length ctx + 5 \<le> n \<longrightarrow> address = arg (payload ctx req) 0"
    and start: "start_fits (served_start f m)"
  shows "answers ctx (canonical_header ctx req) (sft_of ctx req) m w
      (serve m (int n = echo_length ctx f) f (payload ctx req))
    (reply_dispatch ctx (sft_of ctx req) f address req (int n) m rsp w)"
proof (cases f rule: served_function_cases)
  case bits
  with indication_lengths(1) [OF f] have "meta_length ctx MSG_INDICATION req = 4" by auto
  with whole n addr have "header_length ctx + 5 \<le> length req" "address = arg (payload ctx req) 0" by simp_all
  with bits reply_read_bits_answers [OF wf len _ bits start] show ?thesis by (simp add: reply_dispatch_def served_start_def)
next
  case regs
  with indication_lengths(1) [OF f] have "meta_length ctx MSG_INDICATION req = 4" by auto
  with whole n addr have "header_length ctx + 5 \<le> length req" "address = arg (payload ctx req) 0" by simp_all
  with regs reply_read_registers_answers [OF wf len _ regs start] show ?thesis by (auto simp: reply_dispatch_def)
next
  case coil
  with indication_lengths(1) [OF f] have "meta_length ctx MSG_INDICATION req = 4" by auto
  with whole n addr have "header_length ctx + 5 \<le> length req" "address = arg (payload ctx req) 0" by simp_all
  with coil start reply_write_single_coil_answers [OF wf len, of ctx req w "int n"] f show ?thesis by (simp add: reply_dispatch_def served_start_def)
next
  case reg
  with indication_lengths(1) [OF f] have "meta_length ctx MSG_INDICATION req = 4" by auto
  with whole n addr have "header_length ctx + 5 \<le> length req" "address = arg (payload ctx req) 0" by simp_all
  with reg start reply_write_single_register_answers [OF wf len, of ctx req w "int n"] f show ?thesis by (simp add: reply_dispatch_def served_start_def)
next
  case coils
  with indication_lengths(3) [OF f] whole n addr have "header_length ctx + 6 + unat (req ! (header_length ctx + 5)) \<le> length req"
    "address = arg (payload ctx req) 0" by (simp_all add: message_length_def)
  with coils start reply_write_multiple_coils_answers [OF wf len] show ?thesis by (simp add: reply_dispatch_def served_start_def)
next
  case registers
  with indication_lengths(3) [OF f] whole n addr have "header_length ctx + 6 + unat (req ! (header_length ctx + 5)) \<le> length req"
    "address = arg (payload ctx req) 0" by (simp_all add: message_length_def)
  with registers start reply_write_multiple_registers_answers [OF wf len] show ?thesis by (simp add: reply_dispatch_def served_start_def)
next
  case slave_id
  with reply_report_slave_id_answers [OF len] show ?thesis by (simp add: reply_dispatch_def served_start_def)
next
  case mask
  with indication_lengths(2) [OF f] whole n addr have "header_length ctx + 7 \<le> length req" "address = arg (payload ctx req) 0"
    by simp_all
  with mask start reply_mask_write_register_answers [OF wf len, of ctx req w "int n"] f show ?thesis by (simp add: reply_dispatch_def served_start_def)
next
  case write_read
  with indication_lengths(4) [OF f] whole n addr have "header_length ctx + 10 + unat (req ! (header_length ctx + 9)) \<le> length req"
    "address = arg (payload ctx req) 0" by (simp_all add: message_length_def)
  with write_read start reply_write_and_read_registers_answers [OF wf len] show ?thesis by (simp add: reply_dispatch_def served_start_def)
next
  case other
  then show ?thesis using exception_reply_answers [OF len, of ctx _ _ m w 1 True]
    by (simp add: reply_dispatch_def serve_def)
qed

lemma response_tid_value:
  "header_length ctx \<le> length req \<Longrightarrow>
   be_get_response_tid ctx req = Done (if is_rtu ctx then 0 else be16 (req ! 0) (req ! 1))"
  using header_checksum_bounds(2) [of ctx]
  by (cases "is_rtu ctx")
     (auto simp: be_get_response_tid_def modbus_rtu_get_response_tid_def modbus_tcp_get_response_tid_def backend_lengths rd_def)

lemma reply_response_answers:
  assumes wf: "wf_mapping m" and len: "length rsp = 260" and n: "header_length ctx + 1 \<le> n" "n \<le> length req"
    and start: "start_fits (served_start (uint (req ! header_length ctx)) m)"
  shows "answers ctx (canonical_header ctx req) (sft_of ctx req) m w (serve_request ctx req n m)
    (reply_response ctx req (int n) m rsp w)"
proof -
  let ?h = "header_length ctx" and ?f = "uint (req ! header_length ctx)" and ?meta = "meta_length ctx MSG_INDICATION req"
  have h: "?h < length req" "?h - 1 < length req" using n by linarith+
  then have rds: "rd req ?h = Done (req ! ?h)" "rd req (?h - 1) = Done (req ! (?h - 1))" by (simp_all only: rd_Done)
  have addr: "(if int n \<ge> int (?h + 3) then rd16 req (?h + 1) else Done 0) =
      Done (if n \<ge> ?h + 3 then arg (payload ctx req) 0 else 0)"
    using rd16_arg [of "?h + 1" ctx 0 req] n by (simp del: of_nat_add)
  have tid: "be_get_response_tid ctx req = Done (if is_rtu ctx then 0 else be16 (req ! 0) (req ! 1))"
    using h by (intro response_tid_value) simp
  have dat: "(if int n \<ge> int (?h + 1 + ?meta) then compute_data_length_after_meta ctx req MSG_INDICATION else Done 0) =
      Done (if n \<ge> ?h + 1 + ?meta then data_length ctx MSG_INDICATION req else 0)"
    using compute_data_length_value [of ctx MSG_INDICATION req] n by (simp del: of_nat_add)
  have eval: "reply_response ctx req (int n) m rsp w =
      (if n < ?h + 1 + ?meta \<or> n < message_length ctx MSG_INDICATION req
       then exception_reply ctx (sft_of ctx req) MODBUS_EXCEPTION_ILLEGAL_DATA_VALUE True rsp m w
       else reply_dispatch ctx (sft_of ctx req) ?f (if n \<ge> ?h + 3 then arg (payload ctx req) 0 else 0) req (int n) m rsp w)"
    unfolding reply_response_def Let_def meta_length_def [symmetric] rds tid obind.simps addr dat sft_of_def [symmetric]
    by (auto simp: message_length_def)
  show ?thesis
  proof (cases "n < ?h + 1 + ?meta \<or> n < message_length ctx MSG_INDICATION req")
    case True
    then show ?thesis
      using exception_reply_answers [OF len] by (simp add: eval serve_request_def Let_def)
  next
    case False
    then show ?thesis
      using reply_dispatch_answers [OF wf len n(2) _ _ refl _ start] by (simp add: eval serve_request_def Let_def)
  qed
qed


text \<open>The frame of an answer, and what the function does with it.\<close>

definition answer_frame :: "modbus \<Rightarrow> byte list \<Rightarrow> answer \<Rightarrow> byte list" where
  "answer_frame ctx req ans =
     (case ans of
        Answer body m \<Rightarrow> be_frame ctx (sft_of ctx req) body
      | Refuse code to_flush \<Rightarrow> be_frame ctx (exception_sft (sft_of ctx req)) [word_of_int code])"

definition answer_mapping :: "mapping \<Rightarrow> answer \<Rightarrow> mapping" where
  "answer_mapping m ans = (case ans of Answer body m' \<Rightarrow> m' | Refuse code to_flush \<Rightarrow> m)"

definition answer_world :: "modbus \<Rightarrow> answer \<Rightarrow> world \<Rightarrow> world" where
  "answer_world ctx ans w = (case ans of Answer body m \<Rightarrow> w | Refuse code to_flush \<Rightarrow> flushed ctx to_flush w)"

lemma holds_pdu_send:
  assumes "holds_pdu ctx True sft body n rsp"
  shows "\<exists>rsp'. send_msg ctx rsp n w = obind (send_frame ctx (be_frame ctx sft body) w) (\<lambda>(rc, ctx, w). Done (rc, ctx, rsp', w))"
proof -
  from assms obtain r0 r1 where fits: "header_length ctx + 1 \<le> length r0"
      and b: "be_build_response_basis ctx sft r0 = Done (header_length ctx + 1, r1)"
      and head: "take (header_length ctx + 1) rsp = take (header_length ctx + 1) r1"
      and n: "header_length ctx + 1 \<le> n" "n + checksum_length ctx \<le> length rsp" "n < 65536"
      and body: "drop (header_length ctx + 1) (take n rsp) = body"
    by (auto simp: holds_pdu_def)
  from send_msg_frame [OF b fits head n] body show ?thesis by auto
qed

text \<open>
  The contract of \<open>modbus_reply\<close>: the mapping becomes what the protocol says and the frame of the
  answer is sent, unless the request was a broadcast on a serial line.
\<close>

lemma modbus_reply_value:
  assumes wf: "wf_mapping m" and len: "length rsp = 260" and n: "header_length ctx + 1 \<le> n" "n \<le> length req"
    and canonical: "canonical_header ctx req"
    and start: "start_fits (served_start (uint (req ! header_length ctx)) m)"
  shows "modbus_reply (Some ctx) (Some req) (int n) (Some m) rsp w =
    (let ans = serve_request ctx req n m in
     if broadcast_silent ctx (uint (req ! (header_length ctx - 1)))
     then Done (0, Some ctx, Some (answer_mapping m ans), answer_world ctx ans w)
     else obind (send_frame ctx (answer_frame ctx req ans) (answer_world ctx ans w))
            (\<lambda>(rc, ctx, w). Done (rc, Some ctx, Some (answer_mapping m ans), w)))"
proof -
  let ?ans = "serve_request ctx req n m"
  have slave: "rd req (header_length ctx - 1) = Done (req ! (header_length ctx - 1))"
    using n by (intro rd_Done) linarith
  have min: "\<not> int n < int (header_length ctx + 1)" using n by simp
  from reply_response_answers [OF wf len n start, of w] canonical
  have "\<exists>k rsp' sft body. reply_response ctx req (int n) m rsp w = Done (k, rsp', answer_mapping m ?ans, answer_world ctx ?ans w) \<and>
      holds_pdu ctx True sft body k rsp' \<and> answer_frame ctx req ?ans = be_frame ctx sft body"
    by (cases ?ans) (auto simp: answers_def answer_mapping_def answer_world_def answer_frame_def)
  then obtain k rsp' sft body where
      r: "reply_response ctx req (int n) m rsp w = Done (k, rsp', answer_mapping m ?ans, answer_world ctx ?ans w)"
    and holds: "holds_pdu ctx True sft body k rsp'" and f: "answer_frame ctx req ?ans = be_frame ctx sft body" by blast
  from holds_pdu_send [OF holds] obtain rsp2 where
      "send_msg ctx rsp' k (answer_world ctx ?ans w) =
        obind (send_frame ctx (answer_frame ctx req ?ans) (answer_world ctx ?ans w)) (\<lambda>(rc, ctx, w). Done (rc, ctx, rsp2, w))"
    unfolding f by blast
  then show ?thesis
    unfolding modbus_reply_def option.case prod.case Let_def
    by (simp only: min if_False r slave obind.simps obind_assoc case_prod_unfold fst_conv snd_conv)
qed

text \<open>
  Whatever the bytes of the request and its claimed length, the function makes no access outside an
  array: the request may be cut short, and its header may not be canonical.
\<close>

lemma send_msg_not_Fault:
  assumes "header_length ctx + 1 \<le> n" and "n + checksum_length ctx \<le> length msg" and "n < 65536"
  shows "send_msg ctx msg n w \<noteq> Fault"
proof -
  have "be_send_msg_pre ctx msg n \<noteq> Fault"
  proof (cases "is_rtu ctx")
    case True
    with assms backend_lengths(1) [OF True] show ?thesis
      by (simp add: be_send_msg_pre_def rtu_send_msg_pre_value)
  next
    case False
    with assms backend_lengths(2) [OF False] show ?thesis
      by (simp add: be_send_msg_pre_def tcp_send_msg_pre_value)
  qed
  then show ?thesis by (auto simp: send_msg_def outcome_iff split: if_splits)
qed

lemma modbus_reply_not_Fault:
  assumes wf: "wf_mapping m" and start: "addressable m" and len: "length rsp = 260" and n: "n \<le> int (length req)"
  shows "modbus_reply (Some ctx) (Some req) n (Some m) rsp w \<noteq> Fault"
proof (cases "n < int (header_length ctx + 1)")
  case True
  then show ?thesis by (simp add: modbus_reply_def)
next
  case False
  then obtain k where k: "n = int k" using nonneg_int_cases [of n] by force
  with False n have kn: "header_length ctx + 1 \<le> k" "k \<le> length req" by simp_all
  from reply_response_answers [OF wf len kn addressable_start [OF start], of w]
  have "\<exists>j rsp' m' w' sft body. reply_response ctx req n m rsp w = Done (j, rsp', m', w') \<and>
      holds_pdu ctx (canonical_header ctx req) sft body j rsp'"
    unfolding k by (auto simp: answers_def split: answer.splits)
  then obtain j rsp' m' w' sft body where r: "reply_response ctx req n m rsp w = Done (j, rsp', m', w')"
    and holds: "holds_pdu ctx (canonical_header ctx req) sft body j rsp'" by blast
  from holds have "header_length ctx + 1 \<le> j" "j + checksum_length ctx \<le> length rsp'" "j < 65536"
    by (auto simp: holds_pdu_def)
  then have "send_msg ctx rsp' j w' \<noteq> Fault" by (rule send_msg_not_Fault)
  moreover have "rd req (header_length ctx - 1) = Done (req ! (header_length ctx - 1))"
    using kn by (intro rd_Done) linarith
  ultimately show ?thesis
    using False by (auto simp: modbus_reply_def r outcome_iff)
qed

section \<open>What the answers keep\<close>

lemma overwrite_length:
  "in_table start tab address (int (length xs)) \<Longrightarrow> length (overwrite start tab address xs) = length tab"
  by (auto simp: overwrite_def in_table_def Let_def)


lemma set_overwrite: "set (overwrite start tab address xs) \<subseteq> set tab \<union> set xs"
  by (auto simp: overwrite_def Let_def dest: in_set_takeD in_set_dropD)

text \<open>
  A served request keeps the mapping well formed, its bits 0 or 1, and everything but the coils and
  the holding registers as it was.
\<close>

definition keeps :: "mapping \<Rightarrow> mapping \<Rightarrow> bool" where
  "keeps m m' \<longleftrightarrow>
     m' = m\<lparr>mp_tab_bits := mp_tab_bits m', mp_tab_registers := mp_tab_registers m'\<rparr> \<and>
     length (mp_tab_bits m') = length (mp_tab_bits m) \<and> length (mp_tab_registers m') = length (mp_tab_registers m) \<and>
     set (mp_tab_bits m') \<subseteq> set (mp_tab_bits m) \<union> {0, 1}"

lemma keeps_refl [simp]: "keeps m m"
  by (simp add: keeps_def) blast

lemma keeps_trans: "keeps m m1 \<Longrightarrow> keeps m1 m2 \<Longrightarrow> keeps m m2"
  by (cases m; cases m1; cases m2) (auto simp: keeps_def)

lemma keeps_wf: "keeps m m' \<Longrightarrow> wf_mapping m \<Longrightarrow> wf_mapping m'"
  by (cases m; cases m') (auto simp: keeps_def wf_mapping_def)

lemma keeps_addressable: "keeps m m' \<Longrightarrow> addressable m \<Longrightarrow> addressable m'"
  by (cases m; cases m') (auto simp: keeps_def addressable_def)

lemma keeps_bits: "keeps m m' \<Longrightarrow> bits_01 m \<Longrightarrow> bits_01 m'"
  by (cases m; cases m') (auto simp: keeps_def bits_01_def list_all_iff subset_iff)

lemma keeps_coils:
  "in_table start (mp_tab_bits m) address (int (length xs)) \<Longrightarrow> set xs \<subseteq> {0, 1} \<Longrightarrow>
   keeps m (m\<lparr>mp_tab_bits := overwrite start (mp_tab_bits m) address xs\<rparr>)"
  using set_overwrite [of start "mp_tab_bits m" address xs] by (auto simp: keeps_def overwrite_length)

lemma keeps_registers:
  "in_table start (mp_tab_registers m) address (int (length xs)) \<Longrightarrow>
   keeps m (m\<lparr>mp_tab_registers := overwrite start (mp_tab_registers m) address xs\<rparr>)"
  by (auto simp: keeps_def overwrite_length)

lemma in_table_shorter: "in_table start tab address nb \<Longrightarrow> nb' \<le> nb \<Longrightarrow> in_table start tab address nb'"
  by (auto simp: in_table_def)

lemma serve_keeps: "keeps m (answer_mapping m (serve m exact f p))"
proof (cases f rule: served_function_cases)
  case bits
  then show ?thesis by (auto simp: serve_def serve_bits_def answer_mapping_def)
next
  case regs
  then show ?thesis by (auto simp: serve_def serve_registers_def answer_mapping_def)
next
  case coil
  then show ?thesis by (auto simp: serve_def serve_write_coil_def answer_mapping_def intro!: keeps_coils)
next
  case reg
  then show ?thesis by (auto simp: serve_def serve_write_register_def answer_mapping_def intro!: keeps_registers)
next
  case coils
  then show ?thesis
    using set_unpack_bits [of "nat (arg p 2)" "drop 5 p"]
    by (auto simp: serve_def serve_write_coils_def Let_def answer_mapping_def intro!: keeps_coils)
next
  case registers
  then show ?thesis
    by (auto simp: serve_def serve_write_registers_def Let_def answer_mapping_def intro!: keeps_registers elim: in_table_shorter)
next
  case slave_id
  then show ?thesis by (simp add: serve_def answer_mapping_def)
next
  case mask
  then show ?thesis by (auto simp: serve_def serve_mask_write_def Let_def answer_mapping_def intro!: keeps_registers)
next
  case write_read
  then show ?thesis
    by (auto simp: serve_def serve_write_read_def Let_def answer_mapping_def intro!: keeps_registers elim: in_table_shorter)
next
  case other
  then show ?thesis by (simp add: serve_def answer_mapping_def)
qed

text \<open>A request that is answered addresses a table whose start address fits.\<close>

lemma serve_fits:
  assumes ans: "serve m exact f p = Answer body m'" and wf: "wf_mapping m"
  shows "start_fits (served_start f m)"
proof -
  have len: "length (mp_tab_bits m) \<le> 65536" "length (mp_tab_input_bits m) \<le> 65536"
    "length (mp_tab_registers m) \<le> 65536" "length (mp_tab_input_registers m) \<le> 65536"
    using wf by (simp_all add: wf_mapping_def)
  have zero: "start_fits 0" by (simp add: start_fits_def)
  show ?thesis
    using ans zero len
    by (auto simp: serve_def serve_bits_def serve_registers_def serve_write_coil_def serve_write_register_def
        serve_write_coils_def serve_write_registers_def serve_mask_write_def serve_write_read_def Let_def served_start_def
        split: if_splits elim!: in_table_fits)
qed

lemma serve_request_fits:
  assumes "serve_request ctx req n m = Answer body m'" and "wf_mapping m"
  shows "start_fits (served_start (uint (req ! header_length ctx)) m)"
  using assms by (auto simp: serve_request_def Let_def split: if_splits intro: serve_fits)

lemma serve_request_keeps: "keeps m (answer_mapping m (serve_request ctx req n m))"
  using serve_keeps by (simp add: serve_request_def Let_def answer_mapping_def)

end
