(* ===== verification/Mb_Client.thy ===== *)
theory Mb_Client
  imports Mb_Answers
begin

text \<open>
  The client functions of modbus.c: each builds a request in a buffer of its stack frame, sends it,
  receives the confirmation in another buffer, checks it and copies the values to the array of the
  caller. The two stack buffers \<open>req\<close> and \<open>rsp\<close> are arguments: their initial contents are arbitrary.
  An array of the caller is a list, and NULL is \<open>None\<close>.
\<close>

section \<open>The exchange\<close>

text \<open>
  What every client function does once its request is built: send it, and when something was sent,
  receive the confirmation and check it against the request.
\<close>

definition exchange ::
    "modbus \<Rightarrow> byte list \<Rightarrow> nat \<Rightarrow> byte list \<Rightarrow> world \<Rightarrow> (int \<times> modbus \<times> byte list \<times> world) outcome" where
  "exchange ctx req req_length rsp w =
     obind (send_msg ctx req req_length w) (\<lambda>(rc, ctx, req, w).
       if rc > 0 then
         obind (modbus_receive_msg ctx rsp MSG_CONFIRMATION w) (\<lambda>(rc, ctx, rsp, w).
           if rc = -1 then Done (-1, ctx, rsp, w)
           else obind (check_confirmation ctx req rsp rc w) (\<lambda>(rc, w). Done (rc, ctx, rsp, w)))
       else Done (rc, ctx, rsp, w))"

text \<open>\<open>for (i = offset; i < offset_end; i++)\<close> of \<open>read_io_status\<close>, with the loop over the bits.\<close>

definition copy_bits :: "byte list \<Rightarrow> nat \<Rightarrow> int \<Rightarrow> int \<Rightarrow> byte list \<Rightarrow> byte list outcome" where
  "copy_bits rsp offset rc nb dest =
     obind (ofor [offset..<offset + nat rc]
       (\<lambda>i (pos, dest).
          obind (rd rsp i) (\<lambda>temp.
            ofor [0..<8]
              (\<lambda>bt (pos, dest).
                 if int pos < nb
                 then obind (wr dest pos (if temp AND push_bit bt 1 \<noteq> 0 then 1 else 0)) (\<lambda>dest. Done (pos + 1, dest))
                 else Done (pos, dest))
              (pos, dest)))
       (0, dest))
     (\<lambda>(pos, dest). Done dest)"

definition copy_registers :: "byte list \<Rightarrow> nat \<Rightarrow> int \<Rightarrow> u16 list \<Rightarrow> u16 list outcome" where
  "copy_registers rsp offset rc dest =
     ofor [0..<nat rc]
       (\<lambda>i dest. obind (rd16 rsp (offset + 2 + 2 * i)) (\<lambda>v. wr dest i (word_of_int v)))
       dest"

section \<open>Reading\<close>

definition read_io_status ::
    "modbus \<Rightarrow> int \<Rightarrow> int \<Rightarrow> int \<Rightarrow> byte list \<Rightarrow> byte list \<Rightarrow> byte list \<Rightarrow> world \<Rightarrow>
     (int \<times> modbus \<times> byte list \<times> world) outcome" where
  "read_io_status ctx function addr nb dest req rsp w =
     obind (be_build_request_basis ctx function addr nb req) (\<lambda>(req_length, ctx, req).
     obind (exchange ctx req req_length rsp w) (\<lambda>(rc, ctx, rsp, w).
       if rc = -1 then Done (-1, ctx, dest, w)
       else obind (copy_bits rsp (header_length ctx + 2) rc nb dest) (\<lambda>dest. Done (rc, ctx, dest, w))))"

definition modbus_read_bits ::
    "modbus option \<Rightarrow> int \<Rightarrow> int \<Rightarrow> byte list option \<Rightarrow> byte list \<Rightarrow> byte list \<Rightarrow> world \<Rightarrow>
     (int \<times> modbus option \<times> byte list option \<times> world) outcome" where
  "modbus_read_bits ctx addr nb dest req rsp w =
     (case (ctx, dest) of
        (Some c, Some d) \<Rightarrow>
          if nb < 1 \<or> nb > MODBUS_MAX_READ_BITS then Done (-1, ctx, dest, set_errno EMBXILVAL w)
          else obind (read_io_status c MODBUS_FC_READ_COILS addr nb d req rsp w) (\<lambda>(rc, c, d, w).
            Done (if rc = -1 then -1 else nb, Some c, Some d, w))
      | _ \<Rightarrow> Done (-1, ctx, dest, set_errno EINVAL w))"

definition modbus_read_input_bits ::
    "modbus option \<Rightarrow> int \<Rightarrow> int \<Rightarrow> byte list option \<Rightarrow> byte list \<Rightarrow> byte list \<Rightarrow> world \<Rightarrow>
     (int \<times> modbus option \<times> byte list option \<times> world) outcome" where
  "modbus_read_input_bits ctx addr nb dest req rsp w =
     (case (ctx, dest) of
        (Some c, Some d) \<Rightarrow>
          if nb < 1 \<or> nb > MODBUS_MAX_READ_BITS then Done (-1, ctx, dest, set_errno EMBXILVAL w)
          else obind (read_io_status c MODBUS_FC_READ_DISCRETE_INPUTS addr nb d req rsp w) (\<lambda>(rc, c, d, w).
            Done (if rc = -1 then -1 else nb, Some c, Some d, w))
      | _ \<Rightarrow> Done (-1, ctx, dest, set_errno EINVAL w))"

definition read_registers ::
    "modbus \<Rightarrow> int \<Rightarrow> int \<Rightarrow> int \<Rightarrow> u16 list \<Rightarrow> byte list \<Rightarrow> byte list \<Rightarrow> world \<Rightarrow>
     (int \<times> modbus \<times> u16 list \<times> world) outcome" where
  "read_registers ctx function addr nb dest req rsp w =
     (if nb > MODBUS_MAX_READ_REGISTERS then Done (-1, ctx, dest, set_errno EMBXILVAL w)
      else
        obind (be_build_request_basis ctx function addr nb req) (\<lambda>(req_length, ctx, req).
        obind (exchange ctx req req_length rsp w) (\<lambda>(rc, ctx, rsp, w).
          if rc = -1 then Done (-1, ctx, dest, w)
          else obind (copy_registers rsp (header_length ctx) rc dest) (\<lambda>dest. Done (rc, ctx, dest, w)))))"

definition modbus_read_registers ::
    "modbus option \<Rightarrow> int \<Rightarrow> int \<Rightarrow> u16 list option \<Rightarrow> byte list \<Rightarrow> byte list \<Rightarrow> world \<Rightarrow>
     (int \<times> modbus option \<times> u16 list option \<times> world) outcome" where
  "modbus_read_registers ctx addr nb dest req rsp w =
     (case (ctx, dest) of
        (Some c, Some d) \<Rightarrow>
          if nb < 1 \<or> nb > MODBUS_MAX_READ_REGISTERS then Done (-1, ctx, dest, set_errno EMBXILVAL w)
          else obind (read_registers c MODBUS_FC_READ_HOLDING_REGISTERS addr nb d req rsp w) (\<lambda>(rc, c, d, w).
            Done (rc, Some c, Some d, w))
      | _ \<Rightarrow> Done (-1, ctx, dest, set_errno EINVAL w))"

definition modbus_read_input_registers ::
    "modbus option \<Rightarrow> int \<Rightarrow> int \<Rightarrow> u16 list option \<Rightarrow> byte list \<Rightarrow> byte list \<Rightarrow> world \<Rightarrow>
     (int \<times> modbus option \<times> u16 list option \<times> world) outcome" where
  "modbus_read_input_registers ctx addr nb dest req rsp w =
     (case (ctx, dest) of
        (Some c, Some d) \<Rightarrow>
          if nb < 1 \<or> nb > MODBUS_MAX_READ_REGISTERS then Done (-1, ctx, dest, set_errno EMBXILVAL w)
          else obind (read_registers c MODBUS_FC_READ_INPUT_REGISTERS addr nb d req rsp w) (\<lambda>(rc, c, d, w).
            Done (rc, Some c, Some d, w))
      | _ \<Rightarrow> Done (-1, ctx, dest, set_errno EINVAL w))"

section \<open>Writing\<close>

definition write_single ::
    "modbus option \<Rightarrow> int \<Rightarrow> int \<Rightarrow> u16 \<Rightarrow> byte list \<Rightarrow> byte list \<Rightarrow> world \<Rightarrow> (int \<times> modbus option \<times> world) outcome" where
  "write_single ctx function addr value req rsp w =
     (case ctx of
        None \<Rightarrow> Done (-1, None, set_errno EINVAL w)
      | Some c \<Rightarrow>
          obind (be_build_request_basis c function addr (uint value) req) (\<lambda>(req_length, c, req).
          obind (exchange c req req_length rsp w) (\<lambda>(rc, c, rsp, w). Done (rc, Some c, w))))"

definition modbus_write_bit ::
    "modbus option \<Rightarrow> int \<Rightarrow> int \<Rightarrow> byte list \<Rightarrow> byte list \<Rightarrow> world \<Rightarrow> (int \<times> modbus option \<times> world) outcome" where
  "modbus_write_bit ctx addr status req rsp w =
     (case ctx of
        None \<Rightarrow> Done (-1, None, set_errno EINVAL w)
      | Some c \<Rightarrow> write_single ctx MODBUS_FC_WRITE_SINGLE_COIL addr (if status \<noteq> 0 then 0xFF00 else 0) req rsp w)"

definition modbus_write_register ::
    "modbus option \<Rightarrow> int \<Rightarrow> u16 \<Rightarrow> byte list \<Rightarrow> byte list \<Rightarrow> world \<Rightarrow> (int \<times> modbus option \<times> world) outcome" where
  "modbus_write_register ctx addr value req rsp w =
     (case ctx of
        None \<Rightarrow> Done (-1, None, set_errno EINVAL w)
      | Some c \<Rightarrow> write_single ctx MODBUS_FC_WRITE_SINGLE_REGISTER addr value req rsp w)"

text \<open>
  The inner loop of \<open>modbus_write_bits\<close>: \<open>while ((bit & 0xFF) && (bit_check++ < nb))\<close>, over the eight
  bits of the byte at \<open>k\<close>.
\<close>

fun write_bits_byte ::
    "nat list \<Rightarrow> int \<Rightarrow> byte list \<Rightarrow> nat \<Rightarrow> int \<times> nat \<times> byte list \<Rightarrow> (int \<times> nat \<times> byte list) outcome" where
  "write_bits_byte [] nb src k (bit_check, pos, req) = Done (bit_check, pos, req)"
| "write_bits_byte (bt # bts) nb src k (bit_check, pos, req) =
     (if bit_check < nb then
        obind (rd src pos) (\<lambda>s. obind (rd req k) (\<lambda>b.
        obind (wr req k (if s \<noteq> 0 then b OR push_bit bt 1 else b AND NOT (push_bit bt 1))) (\<lambda>req.
          write_bits_byte bts nb src k (bit_check + 1, pos + 1, req))))
      else Done (bit_check + 1, pos, req))"

definition write_bits_body :: "int \<Rightarrow> int \<Rightarrow> byte list \<Rightarrow> nat \<Rightarrow> byte list \<Rightarrow> (nat \<times> byte list) outcome" where
  "write_bits_body byte_count nb src req_length req =
     obind (ofor [0..<nat byte_count]
       (\<lambda>i (req_length, bit_check, pos, req).
          obind (wr req req_length 0) (\<lambda>req.
          obind (write_bits_byte [0..<8] nb src req_length (bit_check, pos, req)) (\<lambda>(bit_check, pos, req).
            Done (req_length + 1, bit_check, pos, req))))
       (req_length, 0, 0, req))
     (\<lambda>(req_length, bit_check, pos, req). Done (req_length, req))"

definition modbus_write_bits ::
    "modbus option \<Rightarrow> int \<Rightarrow> int \<Rightarrow> byte list option \<Rightarrow> byte list \<Rightarrow> byte list \<Rightarrow> world \<Rightarrow>
     (int \<times> modbus option \<times> world) outcome" where
  "modbus_write_bits ctx addr nb src req rsp w =
     (case (ctx, src) of
        (Some c, Some src) \<Rightarrow>
          if nb < 1 \<or> nb > MODBUS_MAX_WRITE_BITS then Done (-1, ctx, set_errno EMBXILVAL w)
          else
            obind (be_build_request_basis c MODBUS_FC_WRITE_MULTIPLE_COILS addr nb req) (\<lambda>(req_length, c, req).
            let byte_count = nb div 8 + (if nb mod 8 \<noteq> 0 then 1 else 0) in
            obind (wr req req_length (word_of_int byte_count)) (\<lambda>req.
            obind (write_bits_body byte_count nb src (req_length + 1) req) (\<lambda>(req_length, req).
            obind (exchange c req req_length rsp w) (\<lambda>(rc, c, rsp, w). Done (rc, Some c, w)))))
      | _ \<Rightarrow> Done (-1, ctx, set_errno EINVAL w))"

text \<open>The loop that appends registers to a request.\<close>

definition push_registers :: "u16 list \<Rightarrow> int \<Rightarrow> nat \<Rightarrow> byte list \<Rightarrow> (nat \<times> byte list) outcome" where
  "push_registers src nb req_length req =
     ofor [0..<nat nb]
       (\<lambda>i (req_length, req). obind (rd src i) (\<lambda>r. push_all req req_length [hi8 r, lo8 r]))
       (req_length, req)"

definition modbus_write_registers ::
    "modbus option \<Rightarrow> int \<Rightarrow> int \<Rightarrow> u16 list option \<Rightarrow> byte list \<Rightarrow> byte list \<Rightarrow> world \<Rightarrow>
     (int \<times> modbus option \<times> world) outcome" where
  "modbus_write_registers ctx addr nb src req rsp w =
     (case (ctx, src) of
        (Some c, Some src) \<Rightarrow>
          if nb < 1 \<or> nb > MODBUS_MAX_WRITE_REGISTERS then Done (-1, ctx, set_errno EMBXILVAL w)
          else
            obind (be_build_request_basis c MODBUS_FC_WRITE_MULTIPLE_REGISTERS addr nb req) (\<lambda>(req_length, c, req).
            obind (wr req req_length (word_of_int (nb * 2))) (\<lambda>req.
            obind (push_registers src nb (req_length + 1) req) (\<lambda>(req_length, req).
            obind (exchange c req req_length rsp w) (\<lambda>(rc, c, rsp, w). Done (rc, Some c, w)))))
      | _ \<Rightarrow> Done (-1, ctx, set_errno EINVAL w))"

definition modbus_mask_write_register ::
    "modbus option \<Rightarrow> int \<Rightarrow> u16 \<Rightarrow> u16 \<Rightarrow> byte list \<Rightarrow> byte list \<Rightarrow> world \<Rightarrow> (int \<times> modbus option \<times> world) outcome" where
  "modbus_mask_write_register ctx addr and_mask or_mask req rsp w =
     (case ctx of
        None \<Rightarrow> Done (-1, None, set_errno EINVAL w)
      | Some c \<Rightarrow>
          obind (be_build_request_basis c MODBUS_FC_MASK_WRITE_REGISTER addr 0 req) (\<lambda>(req_length, c, req).
          obind (push_all req (req_length - 2) [hi8 and_mask, lo8 and_mask, hi8 or_mask, lo8 or_mask]) (\<lambda>(req_length, req).
          obind (exchange c req req_length rsp w) (\<lambda>(rc, c, rsp, w). Done (rc, Some c, w)))))"

definition modbus_write_and_read_registers ::
    "modbus option \<Rightarrow> int \<Rightarrow> int \<Rightarrow> u16 list option \<Rightarrow> int \<Rightarrow> int \<Rightarrow> u16 list option \<Rightarrow> byte list \<Rightarrow> byte list \<Rightarrow> world \<Rightarrow>
     (int \<times> modbus option \<times> u16 list option \<times> world) outcome" where
  "modbus_write_and_read_registers ctx write_addr write_nb src read_addr read_nb dest req rsp w =
     (case (ctx, src, dest) of
        (Some c, Some src, Some d) \<Rightarrow>
          if write_nb < 1 \<or> read_nb < 1 then Done (-1, ctx, dest, set_errno EINVAL w)
          else if write_nb > MODBUS_MAX_WR_WRITE_REGISTERS then Done (-1, ctx, dest, set_errno EMBXILVAL w)
          else if read_nb > MODBUS_MAX_WR_READ_REGISTERS then Done (-1, ctx, dest, set_errno EMBXILVAL w)
          else
            obind (be_build_request_basis c MODBUS_FC_WRITE_AND_READ_REGISTERS read_addr read_nb req) (\<lambda>(req_length, c, req).
            obind (push_all req req_length
                     [int_hi8 write_addr, int_lo8 write_addr, int_hi8 write_nb, int_lo8 write_nb,
                      word_of_int (write_nb * 2)]) (\<lambda>(req_length, req).
            obind (push_registers src write_nb req_length req) (\<lambda>(req_length, req).
            obind (exchange c req req_length rsp w) (\<lambda>(rc, c, rsp, w).
              if rc = -1 then Done (-1, Some c, dest, w)
              else obind (copy_registers rsp (header_length c) rc d) (\<lambda>d. Done (rc, Some c, Some d, w))))))
      | _ \<Rightarrow> Done (-1, ctx, dest, set_errno EINVAL w))"

definition modbus_report_slave_id ::
    "modbus option \<Rightarrow> int \<Rightarrow> byte list option \<Rightarrow> byte list \<Rightarrow> byte list \<Rightarrow> world \<Rightarrow>
     (int \<times> modbus option \<times> byte list option \<times> world) outcome" where
  "modbus_report_slave_id ctx max_dest dest req rsp w =
     (case (ctx, dest) of
        (Some c, Some d) \<Rightarrow>
          if max_dest \<le> 0 then Done (-1, ctx, dest, set_errno EINVAL w)
          else
            obind (be_build_request_basis c MODBUS_FC_REPORT_SLAVE_ID 0 0 req) (\<lambda>(req_length, c, req).
            obind (exchange c req (req_length - 4) rsp w) (\<lambda>(rc, c, rsp, w).
              if rc = -1 then Done (-1, Some c, dest, w)
              else
                obind (ofor [0..<nat (min rc max_dest)]
                         (\<lambda>i d. obind (rd rsp (header_length c + 2 + i)) (\<lambda>b. wr d i b)) d) (\<lambda>d.
                  Done (rc, Some c, Some d, w))))
      | _ \<Rightarrow> Done (-1, ctx, dest, set_errno EINVAL w))"

end
