(* ===== verification/Mb_Exchange.thy ===== *)
theory Mb_Exchange
  imports Mb_Client
begin

text \<open>
  What the client functions promise. The request that each of them sends is the frame of its
  arguments, whatever its stack buffers held; the confirmation is checked against it, and no answer
  of the peer, however wrong, makes a function read or write outside an array.
\<close>

section \<open>Requests in a buffer\<close>

text \<open>The buffer holds the header of \<open>sft\<close> and \<open>body\<close>, \<open>n\<close> bytes in all, with room for the checksum.\<close>

definition request_in :: "modbus \<Rightarrow> sft \<Rightarrow> byte list \<Rightarrow> nat \<Rightarrow> byte list \<Rightarrow> bool" where
  "request_in ctx sft body n req \<longleftrightarrow>
     n = header_length ctx + 1 + length body \<and> n + checksum_length ctx \<le> length req \<and> n < 65536 \<and>
     drop (header_length ctx + 1) (take n req) = body \<and>
     (\<exists>r0 r1. header_length ctx + 1 \<le> length r0 \<and>
        be_build_response_basis ctx sft r0 = Done (header_length ctx + 1, r1) \<and>
        take (header_length ctx + 1) req = take (header_length ctx + 1) r1)"

lemma request_ctx_basis [simp]:
  "be_build_response_basis (request_ctx ctx) = be_build_response_basis ctx"
  "max_adu_length (request_ctx ctx) = max_adu_length ctx"
  by (simp_all add: be_build_response_basis_def max_adu_length_def)

lemma request_in_ctx [simp]: "request_in (request_ctx ctx) = request_in ctx"
  by (simp add: request_in_def fun_eq_iff)

text \<open>A slave identifier is needed to build a request on a serial line.\<close>

definition slave_set :: "modbus \<Rightarrow> bool" where
  "slave_set ctx \<longleftrightarrow> (is_rtu ctx \<longrightarrow> mb_slave ctx \<noteq> -1)"

lemma request_basis_holds:
  assumes slave: "slave_set ctx" and room: "header_length ctx + 5 + checksum_length ctx \<le> length req"
  obtains req1 where
    "be_build_request_basis ctx function addr nb req = Done (header_length ctx + 5, request_ctx ctx, req1)"
    and "length req1 = length req"
    and "request_in ctx (request_sft ctx function) [int_hi8 addr, int_lo8 addr, int_hi8 nb, int_lo8 nb] (header_length ctx + 5) req1"
proof -
  let ?h = "header_length ctx" and ?b = "[int_hi8 addr, int_lo8 addr, int_hi8 nb, int_lo8 nb]"
  have fits: "?h + 1 \<le> length req" using room by linarith
  from be.basis_fits [OF fits, of "request_sft ctx function"] obtain r1 where
      b: "be_build_response_basis ctx (request_sft ctx function) req = Done (?h + 1, r1)" and len: "length r1 = length req"
    by blast
  let ?r = "take (?h + 1) r1 @ ?b @ drop (?h + 5) r1"
  have n: "?h + 1 + length ?b = ?h + 5" by simp
  have p: "push_all r1 (?h + 1) ?b = Done (?h + 5, ?r)"
    using push_all_fits [of "?h + 1" ?b r1] room len unfolding n by linarith
  have "be_build_request_basis ctx function addr nb req = Done (?h + 5, request_ctx ctx, ?r)"
  proof -
    have "is_rtu ctx \<Longrightarrow> mb_slave ctx \<noteq> -1" using slave by (simp add: slave_set_def)
    from request_basis_eq [OF this] show ?thesis by (simp only: b p obind.simps prod.case)
  qed
  moreover have lr: "length ?r = length req" using len room by simp
  moreover have "request_in ctx (request_sft ctx function) ?b (?h + 5) ?r"
    unfolding request_in_def
  proof (intro conjI)
    show "?h + 5 = ?h + 1 + length ?b" by simp
    show "?h + 5 + checksum_length ctx \<le> length ?r" using lr room by linarith
    show "?h + 5 < 65536" using header_checksum_bounds(2) [of ctx] by linarith
    show "drop (?h + 1) (take (?h + 5) ?r) = ?b" using len room by simp
    show "\<exists>r0 r1'. ?h + 1 \<le> length r0 \<and>
        be_build_response_basis ctx (request_sft ctx function) r0 = Done (?h + 1, r1') \<and>
        take (?h + 1) ?r = take (?h + 1) r1'"
      using fits b len by (intro exI [of _ req] exI [of _ r1]) simp
  qed
  ultimately show ?thesis by (rule that)
qed

lemma request_in_push:
  assumes r: "request_in ctx sft body n req" and room: "n + length xs + checksum_length ctx \<le> length req"
    and small: "n + length xs < 65536"
  obtains req1 where "push_all req n xs = Done (n + length xs, req1)" and "length req1 = length req"
    and "request_in ctx sft (body @ xs) (n + length xs) req1"
proof -
  let ?h = "header_length ctx" and ?r = "take n req @ xs @ drop (n + length xs) req"
  from r have n: "n = ?h + 1 + length body" "n + checksum_length ctx \<le> length req"
      and body: "drop (?h + 1) (take n req) = body" unfolding request_in_def by blast+
  have "push_all req n xs = Done (n + length xs, ?r)" using room by (intro push_all_fits) linarith
  moreover have lr: "length ?r = length req" using room by simp
  moreover have "request_in ctx sft (body @ xs) (n + length xs) ?r"
    unfolding request_in_def
  proof (intro conjI)
    show "n + length xs = ?h + 1 + length (body @ xs)" using n by simp
    show "n + length xs + checksum_length ctx \<le> length ?r" using lr room by linarith
    show "n + length xs < 65536" by (rule small)
    have "take (n + length xs) ?r = take n req @ xs" using room by simp
    then show "drop (?h + 1) (take (n + length xs) ?r) = body @ xs" using body n(1) room by simp
    have "take (?h + 1) ?r = take (?h + 1) req" using n by simp
    then show "\<exists>r0 r1. ?h + 1 \<le> length r0 \<and> be_build_response_basis ctx sft r0 = Done (?h + 1, r1) \<and>
        take (?h + 1) ?r = take (?h + 1) r1"
      using r unfolding request_in_def by (simp only:)
  qed
  ultimately show ?thesis by (rule that)
qed

text \<open>Dropping the last bytes of the request, as the functions without an address or a count do.\<close>

lemma request_in_shorten:
  assumes r: "request_in ctx sft body n req" and k: "k \<le> length body"
  shows "request_in ctx sft (take (length body - k) body) (n - k) req"
proof -
  let ?h = "header_length ctx"
  from r have n: "n = ?h + 1 + length body" "n + checksum_length ctx \<le> length req" "n < 65536"
      and body: "drop (?h + 1) (take n req) = body" unfolding request_in_def by blast+
  have "drop (?h + 1) (take (n - k) req) = take (length body - k) (drop (?h + 1) (take n req))"
    using n k by (simp add: drop_take min_def)
  with r n k show ?thesis unfolding request_in_def body by auto
qed

lemma request_in_send:
  assumes "request_in ctx sft body n req"
  shows "\<exists>req'. length req' = length req \<and> take (n + checksum_length ctx) req' = be_frame ctx sft body \<and>
    send_msg ctx req n w = obind (send_frame ctx (be_frame ctx sft body) w) (\<lambda>(rc, ctx, w). Done (rc, ctx, req', w))"
proof -
  from assms obtain r0 r1 where fits: "header_length ctx + 1 \<le> length r0"
      and b: "be_build_response_basis ctx sft r0 = Done (header_length ctx + 1, r1)"
      and head: "take (header_length ctx + 1) req = take (header_length ctx + 1) r1"
      and n: "header_length ctx + 1 \<le> n" "n + checksum_length ctx \<le> length req" "n < 65536"
      and body: "drop (header_length ctx + 1) (take n req) = body"
    by (auto simp: request_in_def)
  from send_msg_frame [OF b fits head n] body show ?thesis by auto
qed


section \<open>The exchange\<close>

text \<open>
  What a positive result of the exchange says: the confirmation was received whole, in the name of
  the function of the request, and shows the count and the echoes that the request calls for.
\<close>

definition confirmed :: "modbus \<Rightarrow> byte list \<Rightarrow> byte list \<Rightarrow> int \<Rightarrow> bool" where
  "confirmed ctx req rsp rc \<longleftrightarrow>
     rsp ! header_length ctx = req ! header_length ctx \<and> confirmation_ok ctx req rsp \<and>
     rc = confirmation_count ctx rsp \<and> uint (rsp ! header_length ctx) < 128 \<and>
     (\<exists>k \<le> length rsp. complete ctx MSG_CONFIRMATION (take k rsp))"

lemma confirmation_count_nonneg: "0 \<le> confirmation_count ctx rsp"
  by (simp add: confirmation_count_def Let_def)

lemma protocol_flush_frame: "w_tx (protocol_flush ctx w) = w_tx w \<and> w_sent (protocol_flush ctx w) = w_sent w"
proof -
  obtain r w1 where fl: "be_flush ctx (sleep_response_timeout ctx w) = (r, w1)"
    by (cases "be_flush ctx (sleep_response_timeout ctx w)")
  from be_flush_frame [OF fl] fl show ?thesis by (simp add: protocol_flush_def sleep_response_timeout_def)
qed

lemma check_confirmation_result:
  assumes q: "header_length ctx + 5 \<le> length req" and r: "header_length ctx + 5 \<le> length rsp"
  obtains rc w' where "check_confirmation ctx req rsp n w = Done (rc, w')"
    and "w_tx w' = w_tx w" and "w_sent w' = w_sent w"
    and "rc = -1 \<or> rsp ! header_length ctx = req ! header_length ctx \<and> confirmation_ok ctx req rsp \<and>
           rc = confirmation_count ctx rsp \<and> uint (rsp ! header_length ctx) < 128"
proof -
  from compute_response_length_value [OF q] obtain l where l: "compute_response_length_from_request ctx req = Done l" by blast
  have "\<exists>rc w'. check_confirmation ctx req rsp n w = Done (rc, w') \<and> w_tx w' = w_tx w \<and> w_sent w' = w_sent w \<and>
    (rc = -1 \<or> rsp ! header_length ctx = req ! header_length ctx \<and> confirmation_ok ctx req rsp \<and>
           rc = confirmation_count ctx rsp \<and> uint (rsp ! header_length ctx) < 128)"
    using protocol_flush_frame [of ctx]
    unfolding check_confirmation_cases [OF q r l] by (simp add: Let_def)
  with that show thesis by blast
qed

text \<open>
  The exchange for a request in its buffer, in the context that the construction of the request left.
\<close>

lemma exchange_result:
  assumes req: "request_in ctx sft body n req" and q: "header_length ctx + 5 \<le> length req" and len: "length rsp = 260"
  shows "exchange ctx req n rsp w \<noteq> Fault \<and>
    (\<forall>rc ctx' rsp' w'. exchange ctx req n rsp w = Done (rc, ctx', rsp', w') \<longrightarrow>
       relinked ctx ctx' \<and> length rsp' = 260 \<and>
       (rc = -1 \<or> rc = 0 \<or>
        (\<exists>req'. length req' = length req \<and> take (n + checksum_length ctx) req' = be_frame ctx sft body \<and>
           confirmed ctx req' rsp' rc)))"
proof -
  from request_in_send [OF req, of w] obtain req' where q': "length req' = length req"
      "take (n + checksum_length ctx) req' = be_frame ctx sft body"
    and send: "send_msg ctx req n w = obind (send_frame ctx (be_frame ctx sft body) w) (\<lambda>(rc, ctx, w). Done (rc, ctx, req', w))"
    by blast
  show ?thesis
  proof (cases "send_frame ctx (be_frame ctx sft body) w")
    case Fault
    then show ?thesis by simp
  next
    case Pending
    then show ?thesis by (simp add: exchange_def send)
  next
    case (Done s)
    then obtain rc1 ctx1 w1 where snd: "send_frame ctx (be_frame ctx sft body) w = Done (rc1, ctx1, w1)" by (cases s) auto
    from send_frame_result [OF snd] have rel: "relinked ctx ctx1" by simp
    note same = relinked_backend [OF rel]
    show ?thesis
    proof (cases "rc1 > 0")
      case False
      with send_frame_result [OF snd] have "rc1 = -1 \<or> rc1 = 0" by auto
      with False snd rel len show ?thesis by (auto simp: exchange_def send)
    next
      case True
      have room: "max_adu_length ctx1 \<le> length rsp" using len by simp
      show ?thesis
      proof (cases "modbus_receive_msg ctx1 rsp MSG_CONFIRMATION w1")
        case Fault
        with receive_msg_not_Fault [OF room] show ?thesis by simp
      next
        case Pending
        with True snd show ?thesis by (simp add: exchange_def send)
      next
        case (Done r)
        then obtain rc2 ctx2 rsp2 w2 where rcv: "modbus_receive_msg ctx1 rsp MSG_CONFIRMATION w1 = Done (rc2, ctx2, rsp2, w2)"
          by (cases r) auto
        note res = receive_msg_result [OF room rcv]
        show ?thesis
        proof (cases "rc2 = -1")
          case neg: True
          with True snd rcv res rel len show ?thesis
            by (auto simp: exchange_def send intro: relinked_trans)
        next
          case False
          with res have ctx2: "ctx2 = ctx1" and len2: "length rsp2 = 260"
            and whole: "\<exists>k \<le> length rsp2. complete ctx1 MSG_CONFIRMATION (take k rsp2)" using len by auto
          have h: "header_length ctx1 + 5 \<le> length req'" "header_length ctx1 + 5 \<le> length rsp2"
            using q q' same(1) len2 header_checksum_bounds(2) [of ctx] by linarith+
          from check_confirmation_result [OF h, of rc2 w2] obtain rc3 w3 where
              chk: "check_confirmation ctx1 req' rsp2 rc2 w2 = Done (rc3, w3)"
            and ok: "rc3 = -1 \<or> rsp2 ! header_length ctx1 = req' ! header_length ctx1 \<and> confirmation_ok ctx1 req' rsp2 \<and>
               rc3 = confirmation_count ctx1 rsp2 \<and> uint (rsp2 ! header_length ctx1) < 128" by blast
          have ex: "exchange ctx req n rsp w = Done (rc3, ctx1, rsp2, w3)"
            using True False snd rcv chk by (simp add: exchange_def send ctx2)
          have "confirmation_ok ctx1 = confirmation_ok ctx" "confirmation_count ctx1 = confirmation_count ctx"
            by (simp_all add: confirmation_ok_def confirmation_count_def same fun_eq_iff)
          moreover have "complete ctx1 MSG_CONFIRMATION = complete ctx MSG_CONFIRMATION"
            by (simp add: complete_def message_length_def meta_length_def data_length_def same fun_eq_iff)
          ultimately have "rc3 = -1 \<or> confirmed ctx req' rsp2 rc3"
            using ok whole by (simp add: confirmed_def same)
          with ex rel len2 q' show ?thesis by auto
        qed
      qed
    qed
  qed
qed

text \<open>The bytes of a request that the check of the confirmation looks at.\<close>

lemma request_byte:
  assumes "request_in ctx sft body n req" and "take (n + checksum_length ctx) req' = be_frame ctx sft body"
  shows "req' ! header_length ctx = word_of_int (sft_function sft)"
    and "i < length body \<Longrightarrow> req' ! (header_length ctx + 1 + i) = body ! i"
proof -
  from assms(1) have n: "n = header_length ctx + 1 + length body" unfolding request_in_def by blast
  have nth: "req' ! k = be_frame ctx sft body ! k" if "k < n" for k
    using assms(2) that nth_take [of k "n + checksum_length ctx" req'] by simp
  show "req' ! header_length ctx = word_of_int (sft_function sft)"
    using nth [of "header_length ctx"] n be.frame_function [of ctx sft body] by simp
  assume "i < length body"
  with nth [of "header_length ctx + 1 + i"] n be.frame_body_nth [of i body ctx sft]
  show "req' ! (header_length ctx + 1 + i) = body ! i" by simp
qed


section \<open>The loops over the values\<close>

lemma copy_registers_value:
  assumes room: "off + 2 + 2 * n \<le> length rsp" and dest: "n \<le> length dest"
  shows "copy_registers rsp off (int n) dest =
    Done (take n (regs_of_bytes (drop (off + 2) rsp)) @ drop n dest)"
proof -
  define regs where "regs = regs_of_bytes (drop (off + 2) rsp)"
  have len: "n \<le> length regs" using room by (simp add: regs_def)
  let ?s = "\<lambda>i. take i regs @ drop i dest"
  have "ofor [0..<n] (\<lambda>i dest. obind (rd16 rsp (off + 2 + 2 * i)) (\<lambda>v. wr dest i (word_of_int v))) dest = Done (?s n)"
  proof (rule ofor_upt_state)
    fix i
    assume i: "i < n"
    have v: "rd16 rsp (off + 2 + 2 * i) = Done (be16 (rsp ! (off + 2 + 2 * i)) (rsp ! (off + 2 + 2 * i + 1)))"
      by (rule rd16_value) (use i room in auto)
    have reg: "word_of_int (be16 (rsp ! (off + 2 + 2 * i)) (rsp ! (off + 2 + 2 * i + 1))) = regs ! i"
      using i room nth_regs_of_bytes [of i "drop (off + 2) rsp"] by (simp add: regs_def add.assoc)
    have "take (Suc i) regs = take i regs @ [regs ! i]" "drop i dest = dest ! i # drop (Suc i) dest"
      using i len dest by (simp_all add: take_Suc_conv_app_nth Cons_nth_drop_Suc)
    then have "wr (?s i) i (regs ! i) = Done (?s (Suc i))"
      using i len by (simp add: wr_def list_update_append)
    then show "obind (rd16 rsp (off + 2 + 2 * i)) (\<lambda>v. wr (?s i) i (word_of_int v)) = Done (?s (Suc i))"
      by (simp only: v obind.simps reg)
  qed simp_all
  then show ?thesis by (simp add: copy_registers_def regs_def)
qed

text \<open>The bits of \<open>n\<close> bytes, but no more than the caller asked for.\<close>

lemma copy_bits_value:
  assumes room: "off + n \<le> length rsp" and dest: "nb \<le> length dest"
  shows "copy_bits rsp off (int n) (int nb) dest =
    (let k = min (8 * n) nb in Done (unpack_bits k (drop off rsp) @ drop k dest))"
proof -
  define bs where "bs = drop off rsp"
  let ?s = "\<lambda>k. (min k nb, unpack_bits (min k nb) bs @ drop (min k nb) dest)"
  let ?inner = "\<lambda>temp bt (pos, dest). if int pos < int nb
     then obind (wr dest pos (if temp AND push_bit bt 1 \<noteq> 0 then 1 else 0)) (\<lambda>dest. Done (pos + 1, dest))
     else Done (pos, dest)"
  have inner8: "ofor [0..<8] (?inner (rsp ! (off + i))) (?s (8 * i)) = Done (?s (8 * i + 8))" if i: "i < n" for i
  proof (rule ofor_upt_state [where s = "\<lambda>j. ?s (8 * i + j)"])
    fix j :: nat
    assume j: "j < 8"
    show "?inner (rsp ! (off + i)) j (?s (8 * i + j)) = Done (?s (8 * i + Suc j))"
    proof (cases "8 * i + j < nb")
      case False
      then show ?thesis by simp
    next
      case True
      then have "drop (8 * i + j) dest = dest ! (8 * i + j) # drop (Suc (8 * i + j)) dest"
        using dest by (simp add: Cons_nth_drop_Suc)
      moreover have "bs ! i = rsp ! (off + i)" using i room by (simp add: bs_def)
      ultimately show ?thesis
        using True j dest by (simp add: min_def wr_def list_update_append unpack_bits_Suc bit_byte_def)
    qed
  qed simp_all
  have "8 * i + 8 = 8 * Suc i" for i :: nat by simp
  note inner = inner8 [unfolded this]
  have "ofor [off..<off + n] (\<lambda>i (pos, dest). obind (rd rsp i) (\<lambda>temp. ofor [0..<8] (?inner temp) (pos, dest))) (0, dest)
      = Done (?s (8 * (off + n - off)))"
  proof (rule ofor_upt_state [where s = "\<lambda>i. ?s (8 * (i - off))"])
    fix i
    assume i: "off \<le> i" "i < off + n"
    then obtain k where k: "i = off + k" using le_Suc_ex by blast
    show "(case ?s (8 * (i - off)) of (pos, dest) \<Rightarrow> obind (rd rsp i) (\<lambda>temp. ofor [0..<8] (?inner temp) (pos, dest))) =
        Done (?s (8 * (Suc i - off)))"
      using inner [of k] i room by (simp only: k prod.case) (simp add: Suc_diff_le)
  qed (simp_all add: unpack_bits_def)
  then show ?thesis by (simp add: copy_bits_def bs_def Let_def)
qed

lemma ofor_one: "ofor [i] body = body i"
  by (rule ext, rename_tac a, case_tac "body i a") simp_all

text \<open>The loop that appends registers writes their bytes.\<close>

lemma push_registers_eq:
  "n \<le> length src \<Longrightarrow> push_registers src (int n) pos req = push_all req pos (bytes_of_regs (take n src))"
proof -
  have "ofor [0..<n] (\<lambda>i (k, req). obind (rd src i) (\<lambda>r. push_all req k [hi8 r, lo8 r])) (pos, req) =
      push_all req pos (bytes_of_regs (take n src))" if "n \<le> length src"
    using that
  proof (induction n)
    case 0
    then show ?case by simp
  next
    case (Suc n)
    then have "take (Suc n) src = take n src @ [src ! n]" by (simp add: take_Suc_conv_app_nth)
    with Suc show ?case
      by (simp add: ofor_append ofor_one bytes_of_regs_append push_all_append case_prod_unfold del: push_all.simps ofor.simps(2))
  qed
  then show "n \<le> length src \<Longrightarrow> ?thesis" by (simp add: push_registers_def)
qed


text \<open>The loops of \<open>modbus_write_bits\<close>: a byte of the array is a bit of the request.\<close>

definition as_bit :: "byte \<Rightarrow> byte" where
  "as_bit s = (if s \<noteq> 0 then 1 else 0)"

lemma set_as_bit: "set (map as_bit xs) \<subseteq> {0, 1}"
  by (auto simp: as_bit_def)

lemma set_clear_bit:
  "\<not> bit (v :: byte) j \<Longrightarrow> (if s \<noteq> 0 then v OR push_bit j 1 else v AND NOT (push_bit j 1)) = v OR push_bit j (as_bit s)"
  by (rule bit_eqI) (auto simp: as_bit_def bit_simps)

lemma write_bits_byte_value:
  assumes "N \<le> length src" and "k < length req" and "j \<le> 8" and "\<forall>i \<ge> j. \<not> bit (req ! k) i" and "p \<le> N"
  shows "\<exists>c. write_bits_byte [j..<8] (int N) src k (int p, p, req) =
    Done (c, min (p + (8 - j)) N, req[k := req ! k OR push_bit j (byte_of_bits (map as_bit (take (8 - j) (drop p (take N src)))))]) \<and>
    (p + (8 - j) \<le> N \<longrightarrow> c = int (p + (8 - j)))"
  using assms
proof (induction "8 - j" arbitrary: j p req)
  case 0
  then show ?case by simp
next
  case (Suc m)
  then have j: "j < 8" and upt: "[j..<8] = j # [Suc j..<8]" by (simp_all add: upt_conv_Cons)
  show ?case
  proof (cases "p < N")
    case False
    with Suc.prems have "p = N" by simp
    with Suc.prems j show ?thesis by (simp add: upt)
  next
    case True
    let ?v = "req ! k OR push_bit j (as_bit (src ! p))"
    let ?req = "req[k := ?v]"
    have hyps: "m = 8 - Suc j" "k < length ?req" "Suc j \<le> 8" "Suc p \<le> N" using Suc True j by simp_all
    have high: "\<forall>i \<ge> Suc j. \<not> bit (?req ! k) i"
      using Suc.prems(2,4) by (auto simp: as_bit_def bit_simps)
    from Suc.hyps(1) [OF hyps(1) Suc.prems(1) hyps(2,3) high hyps(4)] obtain c where
      ih: "write_bits_byte [Suc j..<8] (int N) src k (int (Suc p), Suc p, ?req) =
        Done (c, min (Suc p + (8 - Suc j)) N,
          ?req[k := ?req ! k OR push_bit (Suc j) (byte_of_bits (map as_bit (take (8 - Suc j) (drop (Suc p) (take N src)))))])"
      and c: "Suc p + (8 - Suc j) \<le> N \<longrightarrow> c = int (Suc p + (8 - Suc j))" by blast
    have "write_bits_byte [j..<8] (int N) src k (int p, p, req) =
        write_bits_byte [Suc j..<8] (int N) src k (int (Suc p), Suc p, ?req)"
      using True Suc.prems set_clear_bit [of "req ! k" j "src ! p"] by (simp add: upt add.commute)
    moreover have "take (8 - j) (drop p (take N src)) = src ! p # take (8 - Suc j) (drop (Suc p) (take N src))"
    proof -
      have "8 - j = Suc (8 - Suc j)" using j by simp
      moreover have "drop p (take N src) = src ! p # drop (Suc p) (take N src)"
        using True Suc.prems(1) Cons_nth_drop_Suc [of p "take N src"] by simp
      ultimately show ?thesis by simp
    qed
    moreover have "Suc p + (8 - Suc j) = p + (8 - j)" using j by simp
    moreover have "push_bit (Suc j) x = push_bit j (push_bit 1 x)" for x :: byte
      by (simp add: push_bit_push_bit)
    ultimately show ?thesis
      using ih c Suc.prems(2) by (auto simp: push_bit_or or.assoc simp del: push_bit_Suc)
  qed
qed

lemma write_bits_body_value:
  assumes src: "n \<le> length src" and room: "k + (n + 7) div 8 \<le> length req"
  shows "write_bits_body (int ((n + 7) div 8)) (int n) src k req = push_all req k (pack_bits (map as_bit (take n src)))"
proof -
  define bits where "bits = map as_bit (take n src)"
  define B where "B = (n + 7) div 8"
  have len: "length bits = n" using src by (simp add: bits_def)
  have full: "8 * i \<le> n" if "i \<le> n div 8" for i using that by simp
  have before: "8 * i < n" if "i < B" for i
    using that less_eq_div_iff_mult_less_eq [of 8 "Suc i" "n + 7"] by (simp add: B_def Suc_le_eq mult.commute)
  let ?body = "\<lambda>i (k, bit_check, pos, req).
      obind (wr req k 0) (\<lambda>req.
      obind (write_bits_byte [0..<8] (int n) src k (bit_check, pos, req)) (\<lambda>(bit_check, pos, req).
        Done (k + 1, bit_check, pos, req)))"
  let ?req = "\<lambda>i. take k req @ pack_bits (take (8 * i) bits) @ drop (k + i) req"
  let ?P = "\<lambda>i st. \<exists>c. st = (k + i, c, min (8 * i) n, ?req i) \<and> (8 * i \<le> n \<longrightarrow> c = int (8 * i))"
  have "\<exists>st. ofor [0..<B] ?body (k, 0, 0, req) = Done st \<and> ?P B st"
  proof (rule ofor_upt)
    show "?P 0 (k, 0, 0, req)" by simp
  next
    fix i st
    assume i: "0 \<le> i" "i < B" and "?P i st"
    with before [of i] have st: "st = (k + i, int (8 * i), 8 * i, ?req i)" by auto
    have lp: "length (pack_bits (take (8 * i) bits)) = i"
      using before [OF i(2)] len by (simp add: length_pack_bits)
    have ki: "k + i < length req" using i room by (simp add: B_def)
    let ?r0 = "(?req i)[k + i := 0]"
    have r0: "?r0 = take k req @ pack_bits (take (8 * i) bits) @ 0 # drop (k + Suc i) req"
      using ki lp by (simp add: list_update_append Cons_nth_drop_Suc [symmetric])
    have w0: "wr (?req i) (k + i) 0 = Done ?r0" using ki lp by simp
    have at: "?r0 ! (k + i) = 0" and kr: "k + i < length ?r0" using ki lp by simp_all
    have zero: "\<forall>j \<ge> 0. \<not> bit (?r0 ! (k + i)) j" by (simp only: at bit_0_eq) simp
    have in_n: "8 * i \<le> n" using before [OF i(2)] by simp
    from write_bits_byte_value [OF src kr _ zero in_n] obtain c where
      wb: "write_bits_byte [0..<8] (int n) src (k + i) (int (8 * i), 8 * i, ?r0) =
        Done (c, min (8 * i + 8) n, ?r0[k + i := ?r0 ! (k + i) OR push_bit 0 (byte_of_bits (map as_bit (take 8 (drop (8 * i) (take n src)))))])"
      and c: "8 * i + 8 \<le> n \<longrightarrow> c = int (8 * i + 8)" by auto
    have eight: "map as_bit (take 8 (drop (8 * i) (take n src))) = take 8 (drop (8 * i) bits)"
      by (simp add: bits_def take_map drop_map)
    define x where "x = take 8 (drop (8 * i) bits)"
    have x: "x \<noteq> []" "take 8 x = x" "drop 8 x = []" using before [OF i(2)] len by (simp_all add: x_def)
    have "take (8 * Suc i) bits = take (8 * i) bits @ x"
      using take_add [of "8 * i" 8 bits] by (simp add: x_def add.commute)
    moreover have "8 dvd length (take (8 * i) bits)" using in_n len by (simp add: min_def)
    moreover have "pack_bits x = [byte_of_bits x]" using x pack_bits_unfold [OF x(1)] by simp
    ultimately have pk: "pack_bits (take (8 * Suc i) bits) = pack_bits (take (8 * i) bits) @ [byte_of_bits x]"
      by (simp only: pack_bits_append)
    have upd: "?r0[k + i := ?r0 ! (k + i) OR push_bit 0 (byte_of_bits x)] = ?req (Suc i)"
      unfolding at unfolding r0 pk using lp ki by (simp add: list_update_append)
    have "?body i st = Done (k + Suc i, c, min (8 * Suc i) n, ?req (Suc i))"
      unfolding st prod.case w0 obind.simps wb eight x_def [symmetric] upd by (simp add: add.commute)
    moreover have "8 * Suc i \<le> n \<longrightarrow> c = int (8 * Suc i)" using c by simp
    ultimately show "\<exists>st'. ?body i st = Done st' \<and> ?P (Suc i) st'" by blast
  qed simp
  then obtain c where "ofor [0..<B] ?body (k, 0, 0, req) = Done (k + B, c, min (8 * B) n, ?req B)" by auto
  then have "write_bits_body (int B) (int n) src k req = Done (k + B, ?req B)"
    by (simp add: write_bits_body_def)
  moreover have "n \<le> 8 * B" using dividend_less_times_div [of 8 "n + 7"] by (simp add: B_def)
  then have "take (8 * B) bits = bits" using len by simp
  moreover have "length (pack_bits bits) = B" using len by (simp add: length_pack_bits B_def)
  moreover from this have "push_all req k (pack_bits bits) = Done (k + B, take k req @ pack_bits bits @ drop (k + B) req)"
    using push_all_fits [of k "pack_bits bits" req] room by (simp add: B_def)
  ultimately show ?thesis by (simp add: B_def bits_def)
qed

end
