(* ===== verification/Mb_Calls.thy ===== *)
theory Mb_Calls
  imports Mb_Exchange
begin

text \<open>
  The client functions one by one: for every peer, line and state of the link a call ends normally
  or waits for ever, never leaves the arrays of the caller and of its own stack frame, returns -1,
  0 or the count that was asked for, and leaves the array of the caller alone when it fails.
\<close>

section \<open>The counts of a confirmation\<close>

abbreviation req4 :: "int \<Rightarrow> int \<Rightarrow> byte list" where
  "req4 addr nb \<equiv> [int_hi8 addr, int_lo8 addr, int_hi8 nb, int_lo8 nb]"

lemma confirmed_facts:
  assumes req: "request_in ctx sft (req4 addr nb @ rest) n req"
    and frame: "take (n + checksum_length ctx) req' = be_frame ctx sft (req4 addr nb @ rest)"
    and conf: "confirmed ctx req' rsp rc" and f: "0 \<le> sft_function sft" "sft_function sft < 128"
  shows "uint (rsp ! header_length ctx) = sft_function sft"
    and "be16 (req' ! (header_length ctx + 3)) (req' ! (header_length ctx + 4)) = nb mod 65536"
    and "confirmation_ok ctx req' rsp" and "rc = confirmation_count ctx rsp"
proof -
  note byte = request_byte [OF req frame]
  have "header_length ctx + 1 + 2 = header_length ctx + 3" "header_length ctx + 1 + 3 = header_length ctx + 4" by simp_all
  note byte3 = byte(2) [of 2, unfolded this] and byte4 = byte(2) [of 3, unfolded this]
  have "req' ! (header_length ctx + 3) = int_hi8 nb" "req' ! (header_length ctx + 4) = int_lo8 nb"
    using byte3 byte4 by simp_all
  then show "be16 (req' ! (header_length ctx + 3)) (req' ! (header_length ctx + 4)) = nb mod 65536"
    by (simp add: be16_int_bytes)
  have "rsp ! header_length ctx = word_of_int (sft_function sft)"
    using conf byte(1) by (simp add: confirmed_def)
  then show "uint (rsp ! header_length ctx) = sft_function sft" using f by (simp add: uint_word_of_int)
qed (use conf in \<open>simp_all add: confirmed_def\<close>)

lemmas confirmed_count =
  confirmation_ok_def confirmation_count_def Let_def

lemma confirmed_registers:
  assumes "request_in ctx sft (req4 addr nb @ rest) n req"
    and "take (n + checksum_length ctx) req' = be_frame ctx sft (req4 addr nb @ rest)"
    and "confirmed ctx req' rsp rc" and "sft_function sft \<in> {3, 4, 23}" and "0 \<le> nb" "nb < 65536"
  shows "rc = nb"
  using confirmed_facts [OF assms(1-3)] assms(4-) by (auto simp: confirmed_count)

lemma confirmed_bits:
  assumes "request_in ctx sft (req4 addr nb @ rest) n req"
    and "take (n + checksum_length ctx) req' = be_frame ctx sft (req4 addr nb @ rest)"
    and "confirmed ctx req' rsp rc" and "sft_function sft \<in> {1, 2}" and "0 \<le> nb" "nb < 65536"
  shows "rc = (nb + 7) div 8"
  using confirmed_facts [OF assms(1-3)] assms(4-) by (auto simp: confirmed_count)

lemma confirmed_single:
  assumes "request_in ctx sft (req4 addr nb @ rest) n req"
    and "take (n + checksum_length ctx) req' = be_frame ctx sft (req4 addr nb @ rest)"
    and "confirmed ctx req' rsp rc" and "sft_function sft \<in> {5, 6, 22}"
  shows "rc = 1"
  using confirmed_facts [OF assms(1-3)] assms(4-) by (auto simp: confirmed_count)

lemma confirmed_multiple:
  assumes "request_in ctx sft (req4 addr nb @ rest) n req"
    and "take (n + checksum_length ctx) req' = be_frame ctx sft (req4 addr nb @ rest)"
    and "confirmed ctx req' rsp rc" and "sft_function sft \<in> {15, 16}" and "0 \<le> nb" "nb < 65536"
  shows "rc = nb"
  using confirmed_facts [OF assms(1-3)] assms(4-) by (auto simp: confirmed_count)

section \<open>The calls\<close>

text \<open>
  What a call that does not fault promises of its result: \<open>ok\<close> is the count of a success. A function
  that returns an array keeps its length and, on failure, its contents.
\<close>

definition call_result :: "modbus \<Rightarrow> (int \<Rightarrow> bool) \<Rightarrow> (int \<times> modbus option \<times> world) outcome \<Rightarrow> bool" where
  "call_result ctx ok r \<longleftrightarrow> r \<noteq> Fault \<and>
     (\<forall>rc ctx' w'. r = Done (rc, ctx', w') \<longrightarrow>
        (\<exists>c. ctx' = Some c \<and> relinked (request_ctx ctx) c) \<and> (rc = -1 \<or> rc = 0 \<or> ok rc))"

definition array_result ::
    "modbus \<Rightarrow> (int \<Rightarrow> bool) \<Rightarrow> nat \<Rightarrow> 'a list \<Rightarrow> (int \<times> modbus option \<times> 'a list option \<times> world) outcome \<Rightarrow> bool" where
  "array_result ctx ok n dest r \<longleftrightarrow> r \<noteq> Fault \<and>
     (\<forall>rc ctx' dest' w'. r = Done (rc, ctx', dest', w') \<longrightarrow>
        (\<exists>c. ctx' = Some c \<and> relinked (request_ctx ctx) c) \<and> (rc = -1 \<or> rc = 0 \<or> ok rc) \<and>
        (\<exists>d. dest' = Some d \<and> length d = length dest \<and> drop n d = drop n dest \<and> (rc = -1 \<longrightarrow> d = dest)))"

lemma request_sft_function [simp]: "sft_function (request_sft ctx f) = f"
  by (simp add: request_sft_def)

text \<open>The context after the request is the one of the exchange.\<close>

lemma exchange_call:
  assumes req: "request_in ctx (request_sft ctx f) body n req1" and q: "header_length ctx + 5 \<le> length req1"
    and len: "length rsp = 260"
    and count: "\<forall>req' rsp' rc. take (n + checksum_length ctx) req' = be_frame ctx (request_sft ctx f) body \<longrightarrow>
       confirmed ctx req' rsp' rc \<longrightarrow> length rsp' = 260 \<longrightarrow> ok rc rsp'"
  shows "exchange (request_ctx ctx) req1 n rsp w \<noteq> Fault"
    and "exchange (request_ctx ctx) req1 n rsp w = Done (rc, ctx', rsp', w') \<Longrightarrow>
      relinked (request_ctx ctx) ctx' \<and> header_length ctx' = header_length ctx \<and> length rsp' = 260 \<and> (rc = -1 \<or> rc = 0 \<or> ok rc rsp')"
proof -
  have "confirmed (request_ctx ctx) = confirmed ctx"
  proof -
    have "confirmation_ok (request_ctx ctx) = confirmation_ok ctx" "confirmation_count (request_ctx ctx) = confirmation_count ctx"
      by (simp_all add: confirmation_ok_def confirmation_count_def fun_eq_iff)
    moreover have "complete (request_ctx ctx) MSG_CONFIRMATION = complete ctx MSG_CONFIRMATION"
      by (simp add: complete_def message_length_def meta_length_def data_length_def fun_eq_iff)
    ultimately show ?thesis by (simp add: confirmed_def fun_eq_iff)
  qed
  note res = exchange_result [of "request_ctx ctx" "request_sft ctx f" body n req1 rsp w,
      unfolded this request_in_ctx request_ctx_same, OF req q len]
  show "exchange (request_ctx ctx) req1 n rsp w \<noteq> Fault" using res by blast
  assume "exchange (request_ctx ctx) req1 n rsp w = Done (rc, ctx', rsp', w')"
  with res have "relinked (request_ctx ctx) ctx'" "length rsp' = 260" "rc = -1 \<or> rc = 0 \<or> ok rc rsp'"
    using count by blast+
  moreover from this(1) have "header_length ctx' = header_length ctx" using relinked_backend(1) by fastforce
  ultimately show "relinked (request_ctx ctx) ctx' \<and> header_length ctx' = header_length ctx \<and> length rsp' = 260 \<and> (rc = -1 \<or> rc = 0 \<or> ok rc rsp')"
    by simp
qed

text \<open>The functions that copy values from a checked confirmation.\<close>

lemma copy_result:
  assumes ok: "e \<noteq> Fault"
    and res: "\<And>rc ctx rsp w. e = Done (rc, ctx, rsp, w) \<Longrightarrow> R ctx \<and> (rc = -1 \<or> (\<exists>d'. copy ctx rsp rc = Done d' \<and> Q rc d'))"
  shows "obind e (\<lambda>(rc, ctx, rsp, w). if rc = -1 then Done (-1, ctx, d, w) else obind (copy ctx rsp rc) (\<lambda>d. Done (rc, ctx, d, w))) \<noteq> Fault"
    and "obind e (\<lambda>(rc, ctx, rsp, w). if rc = -1 then Done (-1, ctx, d, w) else obind (copy ctx rsp rc) (\<lambda>d. Done (rc, ctx, d, w))) =
           Done (rc, c', d', w') \<Longrightarrow> R c' \<and> (rc = -1 \<and> d' = d \<or> Q rc d')"
proof -
  let ?k = "(\<lambda>(rc, ctx, rsp, w). if rc = -1 then Done (-1, ctx, d, w) else obind (copy ctx rsp rc) (\<lambda>d. Done (rc, ctx, d, w)))"
  show "obind e ?k \<noteq> Fault"
  proof (rule obind_neq_Fault [OF ok])
    fix x
    assume "e = Done x"
    then obtain rc ctx rsp w where "x = (rc, ctx, rsp, w)" "e = Done (rc, ctx, rsp, w)" by (cases x) auto
    with res [OF this(2)] show "?k x \<noteq> Fault" by auto
  qed
  assume "obind e ?k = Done (rc, c', d', w')"
  then obtain x where "e = Done x" "?k x = Done (rc, c', d', w')" by (rule obind_DoneE)
  then obtain rc1 ctx rsp w1 where "e = Done (rc1, ctx, rsp, w1)"
    "(if rc1 = -1 then Done (-1, ctx, d, w1) else obind (copy ctx rsp rc1) (\<lambda>d. Done (rc1, ctx, d, w1))) = Done (rc, c', d', w')"
    by (cases x) auto
  with res [OF this(1)] show "R c' \<and> (rc = -1 \<and> d' = d \<or> Q rc d')" by (auto split: if_splits)
qed

lemma registers_copied:
  assumes "length rsp = 260" and "header_length ctx = h" and "h \<le> 7" and "rc = 0 \<or> rc = nb" and "0 \<le> nb" "nb \<le> 125"
    and "nat nb \<le> length d"
  shows "\<exists>d'. copy_registers rsp (header_length ctx) rc d = Done d' \<and>
    (rc = 0 \<or> rc = nb) \<and> length d' = length d \<and> drop (nat nb) d' = drop (nat nb) d"
proof -
  obtain n where n: "rc = int n" "n \<le> nat nb" using assms(4,5) nonneg_int_cases [of rc] by fastforce
  have room: "h + 2 + 2 * n \<le> length rsp" "n \<le> length d" using n assms by linarith+
  have "length (take n (regs_of_bytes (drop (h + 2) rsp))) = n" using room by simp
  with copy_registers_value [OF room] n room(2) assms(2,4) show ?thesis
    by (simp add: min_absorb2 drop_behind del: length_take length_regs_of_bytes)
qed

lemma read_registers_result:
  assumes slave: "slave_set c" and len: "length req = 12" "length rsp = 260"
    and nb: "1 \<le> nb" "nb \<le> 125" and dest: "nat nb \<le> length d" and f: "f \<in> {3, 4}"
  shows "read_registers c f addr nb d req rsp w \<noteq> Fault"
    and "read_registers c f addr nb d req rsp w = Done (rc, c', d', w') \<Longrightarrow>
      relinked (request_ctx c) c' \<and>
      (rc = -1 \<and> d' = d \<or> (rc = 0 \<or> rc = nb) \<and> length d' = length d \<and> drop (nat nb) d' = drop (nat nb) d)"
proof -
  let ?h = "header_length c"
  have "?h + 5 + checksum_length c \<le> length req" using len header_checksum_bounds(4) [of c] by linarith
  from request_basis_holds [OF slave this, of f addr nb] obtain req1 where
      b: "be_build_request_basis c f addr nb req = Done (?h + 5, request_ctx c, req1)"
    and l1: "length req1 = length req"
    and r1: "request_in c (request_sft c f) (req4 addr nb @ []) (?h + 5) req1" by auto
  have q: "?h + 5 \<le> length req1" using l1 len header_checksum_bounds(2) [of c] by linarith
  have count: "\<forall>req' rsp' rc. take (?h + 5 + checksum_length c) req' = be_frame c (request_sft c f) (req4 addr nb @ []) \<longrightarrow>
      confirmed c req' rsp' rc \<longrightarrow> length rsp' = 260 \<longrightarrow> rc = nb"
    using confirmed_registers [OF r1] f nb by auto
  note ok = exchange_call(1) [OF r1 q len(2), where ok = "\<lambda>rc rsp. rc = nb", OF count]
    and res = exchange_call(2) [OF r1 q len(2), where ok = "\<lambda>rc rsp. rc = nb", OF count]
  let ?Q = "\<lambda>rc d'. (rc = 0 \<or> rc = nb) \<and> length d' = length d \<and> drop (nat nb) d' = drop (nat nb) d"
  have step: "relinked (request_ctx c) ctx \<and> (rc = -1 \<or> (\<exists>d'. copy_registers rsp' (header_length ctx) rc d = Done d' \<and> ?Q rc d'))"
    if e: "exchange (request_ctx c) req1 (?h + 5) rsp w = Done (rc, ctx, rsp', w')" for rc ctx rsp' w'
    using res [OF e] registers_copied [of rsp' ctx ?h rc nb d] header_checksum_bounds(2) [of c] nb dest by auto
  have eq: "read_registers c f addr nb d req rsp w = obind (exchange (request_ctx c) req1 (?h + 5) rsp w) (\<lambda>(rc, ctx, rsp, w).
      if rc = -1 then Done (-1, ctx, d, w)
      else obind (copy_registers rsp (header_length ctx) rc d) (\<lambda>d. Done (rc, ctx, d, w)))"
    using nb by (simp add: read_registers_def b)
  note final = copy_result [of "exchange (request_ctx c) req1 (?h + 5) rsp w" "relinked (request_ctx c)"
      "\<lambda>ctx rsp rc. copy_registers rsp (header_length ctx) rc d" ?Q d, OF ok]
  show "read_registers c f addr nb d req rsp w \<noteq> Fault" unfolding eq by (rule final(1)) (rule step)
  show "read_registers c f addr nb d req rsp w = Done (rc, c', d', w') \<Longrightarrow>
      relinked (request_ctx c) c' \<and> (rc = -1 \<and> d' = d \<or> ?Q rc d')" unfolding eq by (rule final(2)) (rule step)
qed


lemma read_io_status_result:
  assumes slave: "slave_set c" and len: "length req = 12" "length rsp = 260"
    and nb: "1 \<le> nb" "nb \<le> 2000" and dest: "nat nb \<le> length d" and f: "f \<in> {1, 2}"
  shows "read_io_status c f addr nb d req rsp w \<noteq> Fault"
    and "read_io_status c f addr nb d req rsp w = Done (rc, c', d', w') \<Longrightarrow>
      relinked (request_ctx c) c' \<and>
      (rc = -1 \<and> d' = d \<or> (rc = 0 \<or> rc = (nb + 7) div 8) \<and> length d' = length d \<and> drop (nat nb) d' = drop (nat nb) d)"
proof -
  let ?h = "header_length c"
  have "?h + 5 + checksum_length c \<le> length req" using len header_checksum_bounds(4) [of c] by linarith
  from request_basis_holds [OF slave this, of f addr nb] obtain req1 where
      b: "be_build_request_basis c f addr nb req = Done (?h + 5, request_ctx c, req1)"
    and l1: "length req1 = length req"
    and r1: "request_in c (request_sft c f) (req4 addr nb @ []) (?h + 5) req1" by auto
  have q: "?h + 5 \<le> length req1" using l1 len header_checksum_bounds(2) [of c] by linarith
  have count: "\<forall>req' rsp' rc. take (?h + 5 + checksum_length c) req' = be_frame c (request_sft c f) (req4 addr nb @ []) \<longrightarrow>
      confirmed c req' rsp' rc \<longrightarrow> length rsp' = 260 \<longrightarrow> rc = (nb + 7) div 8"
    using confirmed_bits [OF r1] f nb by auto
  note ok = exchange_call(1) [OF r1 q len(2), where ok = "\<lambda>rc rsp. rc = (nb + 7) div 8", OF count]
    and res = exchange_call(2) [OF r1 q len(2), where ok = "\<lambda>rc rsp. rc = (nb + 7) div 8", OF count]
  let ?Q = "\<lambda>rc d'. (rc = 0 \<or> rc = (nb + 7) div 8) \<and> length d' = length d \<and> drop (nat nb) d' = drop (nat nb) d"
  have step: "relinked (request_ctx c) ctx \<and>
      (rc = -1 \<or> (\<exists>d'. copy_bits rsp' (header_length ctx + 2) rc nb d = Done d' \<and> ?Q rc d'))"
    if e: "exchange (request_ctx c) req1 (?h + 5) rsp w = Done (rc, ctx, rsp', w')" for rc ctx rsp' w'
  proof -
    from res [OF e] have r: "relinked (request_ctx c) ctx" "header_length ctx = ?h" "length rsp' = 260"
      "rc = -1 \<or> rc = 0 \<or> rc = (nb + 7) div 8" by simp_all
    show ?thesis
    proof (cases "rc = -1")
      case False
      have "(nb + 7) div 8 \<le> 2007 div 8" using nb by (intro zdiv_mono1) simp_all
      with r(4) False nb have "0 \<le> rc" "rc \<le> 250" by auto
      then obtain n where n: "rc = int n" "n \<le> 250" using nonneg_int_cases [of rc] by fastforce
      have room: "?h + 2 + n \<le> length rsp'" "nat nb \<le> length d"
        using n dest r(3) header_checksum_bounds(2) [of c] by linarith+
      have "int (nat nb) = nb" using nb by simp
      moreover have "min (8 * n) (nat nb) \<le> nat nb" by simp
      ultimately show ?thesis
        using copy_bits_value [OF room] n dest r(1,2,4) False
        by (simp add: Let_def drop_behind)
    qed (use r in simp)
  qed
  have eq: "read_io_status c f addr nb d req rsp w = obind (exchange (request_ctx c) req1 (?h + 5) rsp w) (\<lambda>(rc, ctx, rsp, w).
      if rc = -1 then Done (-1, ctx, d, w)
      else obind (copy_bits rsp (header_length ctx + 2) rc nb d) (\<lambda>d. Done (rc, ctx, d, w)))"
    by (simp add: read_io_status_def b)
  note final = copy_result [of "exchange (request_ctx c) req1 (?h + 5) rsp w" "relinked (request_ctx c)"
      "\<lambda>ctx rsp rc. copy_bits rsp (header_length ctx + 2) rc nb d" ?Q d, OF ok]
  show "read_io_status c f addr nb d req rsp w \<noteq> Fault" unfolding eq by (rule final(1)) (rule step)
  show "read_io_status c f addr nb d req rsp w = Done (rc, c', d', w') \<Longrightarrow>
      relinked (request_ctx c) c' \<and> (rc = -1 \<and> d' = d \<or> ?Q rc d')" unfolding eq by (rule final(2)) (rule step)
qed

text \<open>The functions that only report the count.\<close>

lemma call_exchange:
  assumes req: "request_in c (request_sft c f) (req4 addr nb @ rest) n req1" and q: "header_length c + 5 \<le> length req1"
    and len: "length rsp = 260"
    and count: "\<And>req' rsp' rc. take (n + checksum_length c) req' = be_frame c (request_sft c f) (req4 addr nb @ rest) \<Longrightarrow>
       confirmed c req' rsp' rc \<Longrightarrow> ok rc"
  shows "call_result c ok (obind (exchange (request_ctx c) req1 n rsp w) (\<lambda>(rc, c, rsp, w). Done (rc, Some c, w)))"
proof -
  have count': "\<forall>req' rsp' rc. take (n + checksum_length c) req' = be_frame c (request_sft c f) (req4 addr nb @ rest) \<longrightarrow>
      confirmed c req' rsp' rc \<longrightarrow> length rsp' = 260 \<longrightarrow> ok rc" using count by blast
  note fine = exchange_call(1) [OF req q len, where ok = "\<lambda>rc rsp. ok rc", OF count']
    and res = exchange_call(2) [OF req q len, where ok = "\<lambda>rc rsp. ok rc", OF count']
  show ?thesis
    unfolding call_result_def
  proof (intro conjI allI impI)
    show "obind (exchange (request_ctx c) req1 n rsp w) (\<lambda>(rc, c, rsp, w). Done (rc, Some c, w)) \<noteq> Fault"
      by (rule obind_neq_Fault [OF fine]) auto
  next
    fix rc ctx' w'
    assume "obind (exchange (request_ctx c) req1 n rsp w) (\<lambda>(rc, c, rsp, w). Done (rc, Some c, w)) = Done (rc, ctx', w')"
    then obtain c1 rsp1 where e: "exchange (request_ctx c) req1 n rsp w = Done (rc, c1, rsp1, w')" and "ctx' = Some c1"
      by (auto elim!: obind_DoneE)
    with res [OF e] show "\<exists>c'. ctx' = Some c' \<and> relinked (request_ctx c) c'" "rc = -1 \<or> rc = 0 \<or> ok rc" by auto
  qed
qed

text \<open>A byte and a list behind it.\<close>

lemma wr_push_all: "obind (wr req n x) (\<lambda>req. obind (push_all req (n + 1) xs) k) = obind (push_all req n (x # xs)) k"
  by (simp add: obind_assoc)

lemma write_single_result:
  assumes slave: "slave_set c" and len: "length req = 12" "length rsp = 260" and f: "f \<in> {5, 6}"
  shows "call_result c (\<lambda>rc. rc = 1) (write_single (Some c) f addr value req rsp w)"
proof -
  let ?h = "header_length c"
  have "?h + 5 + checksum_length c \<le> length req" using len header_checksum_bounds(4) [of c] by linarith
  from request_basis_holds [OF slave this, of f addr "uint value"] obtain req1 where
      b: "be_build_request_basis c f addr (uint value) req = Done (?h + 5, request_ctx c, req1)"
    and l1: "length req1 = length req"
    and r1: "request_in c (request_sft c f) (req4 addr (uint value) @ []) (?h + 5) req1" by auto
  have q: "?h + 5 \<le> length req1" using l1 len header_checksum_bounds(2) [of c] by linarith
  show ?thesis
    unfolding write_single_def b option.case obind.simps prod.case
    by (rule call_exchange [OF r1 q len(2)]) (use confirmed_single [OF r1] f in auto)
qed

text \<open>The request of a mask write: the number of the basis is replaced by the two masks.\<close>

lemma mask_write_exchange:
  assumes slave: "slave_set c" and len: "length req = 14" "length rsp = 260"
  obtains req2 n where
    "modbus_mask_write_register (Some c) addr and_mask or_mask req rsp w =
       obind (exchange (request_ctx c) req2 n rsp w) (\<lambda>(rc, c, rsp, w). Done (rc, Some c, w))"
    and "request_in c (request_sft c 22) (req4 addr (uint and_mask) @ [hi8 or_mask, lo8 or_mask]) n req2"
    and "header_length c + 5 \<le> length req2"
proof -
  let ?h = "header_length c" and ?m = "[hi8 and_mask, lo8 and_mask, hi8 or_mask, lo8 or_mask]"
  have "?h + 5 + checksum_length c \<le> length req" using len header_checksum_bounds(4) [of c] by linarith
  from request_basis_holds [OF slave this, of 22 addr 0] obtain req1 where
      b: "be_build_request_basis c 22 addr 0 req = Done (?h + 5, request_ctx c, req1)"
    and l1: "length req1 = length req"
    and r1: "request_in c (request_sft c 22) (req4 addr 0) (?h + 5) req1" by blast
  from request_in_shorten [OF r1, of 2]
  have r2: "request_in c (request_sft c 22) [int_hi8 addr, int_lo8 addr] (?h + 3) req1" by (simp add: add.commute)
  have "length ?m = 4" by simp
  then have room: "?h + 3 + length ?m + checksum_length c \<le> length req1" "?h + 3 + length ?m < 65536"
    using l1 len header_checksum_bounds(2) [of c] header_checksum_bounds(4) [of c] by linarith+
  from request_in_push [OF r2 room] obtain req2 where
      p: "push_all req1 (?h + 3) ?m = Done (?h + 3 + length ?m, req2)" and l2: "length req2 = length req1"
    and r3: "request_in c (request_sft c 22) ([int_hi8 addr, int_lo8 addr] @ ?m) (?h + 3 + length ?m) req2" by blast
  have args: "[int_hi8 addr, int_lo8 addr] @ ?m = req4 addr (uint and_mask) @ [hi8 or_mask, lo8 or_mask]" by simp
  have q: "?h + 5 \<le> length req2" using l1 l2 len header_checksum_bounds(2) [of c] by linarith
  have h3: "?h + 5 - 2 = ?h + 3" by simp
  have eq: "modbus_mask_write_register (Some c) addr and_mask or_mask req rsp w =
      obind (exchange (request_ctx c) req2 (?h + 3 + length ?m) rsp w) (\<lambda>(rc, c, rsp, w). Done (rc, Some c, w))"
    by (simp only: modbus_mask_write_register_def option.case MODBUS_FC_MASK_WRITE_REGISTER_def b obind.simps prod.case h3 p)
  show thesis by (rule that [OF eq r3 [unfolded args] q])
qed

lemma mask_write_result:
  assumes slave: "slave_set c" and len: "length req = 14" "length rsp = 260"
  shows "call_result c (\<lambda>rc. rc = 1) (modbus_mask_write_register (Some c) addr and_mask or_mask req rsp w)"
proof -
  from mask_write_exchange [OF assms, of addr and_mask or_mask w] obtain req2 n where
      eq: "modbus_mask_write_register (Some c) addr and_mask or_mask req rsp w =
        obind (exchange (request_ctx c) req2 n rsp w) (\<lambda>(rc, c, rsp, w). Done (rc, Some c, w))"
    and r: "request_in c (request_sft c 22) (req4 addr (uint and_mask) @ [hi8 or_mask, lo8 or_mask]) n req2"
    and q: "header_length c + 5 \<le> length req2" by blast
  show ?thesis unfolding eq by (rule call_exchange [OF r q len(2)]) (use confirmed_single [OF r] in auto)
qed

lemma write_bits_exchange:
  assumes slave: "slave_set c" and len: "length req = 260" "length rsp = 260"
    and nb: "1 \<le> nb" "nb \<le> 1968" and src: "nat nb \<le> length src"
  obtains req2 n where
    "modbus_write_bits (Some c) addr nb (Some src) req rsp w =
       obind (exchange (request_ctx c) req2 n rsp w) (\<lambda>(rc, c, rsp, w). Done (rc, Some c, w))"
    and "request_in c (request_sft c 15)
       (req4 addr nb @ word_of_int ((nb + 7) div 8) # pack_bits (map as_bit (take (nat nb) src))) n req2"
    and "header_length c + 5 \<le> length req2"
proof -
  let ?h = "header_length c" and ?n = "nat nb"
  define xs where "xs = word_of_int ((nb + 7) div 8) # pack_bits (map as_bit (take ?n src))"
  have n: "int ?n = nb" using nb by simp
  have bytes: "(?n + 7) div 8 \<le> 1975 div 8" using nb by (intro div_le_mono) simp
  have lx: "length xs = 1 + (?n + 7) div 8" using src by (simp add: xs_def length_pack_bits min_absorb2)
  have bc: "int ((?n + 7) div 8) = (nb + 7) div 8" using n by (simp add: zdiv_int)
  have "?h + 5 + checksum_length c \<le> length req" using len header_checksum_bounds(4) [of c] by linarith
  from request_basis_holds [OF slave this, of 15 addr nb] obtain req1 where
      b: "be_build_request_basis c 15 addr nb req = Done (?h + 5, request_ctx c, req1)"
    and l1: "length req1 = length req"
    and r1: "request_in c (request_sft c 15) (req4 addr nb) (?h + 5) req1" by blast
  have room: "?h + 5 + length xs + checksum_length c \<le> length req1" "?h + 5 + length xs < 65536"
    using l1 len lx bytes header_checksum_bounds(2,4) [of c] by linarith+
  from request_in_push [OF r1 room] obtain req2 where
      p: "push_all req1 (?h + 5) xs = Done (?h + 5 + length xs, req2)" and l2: "length req2 = length req1"
    and r2: "request_in c (request_sft c 15) (req4 addr nb @ xs) (?h + 5 + length xs) req2" by blast
  have q: "?h + 5 \<le> length req2" using l1 l2 len header_checksum_bounds(2) [of c] by linarith
  have build: "obind (wr req1 (?h + 5) (word_of_int ((nb + 7) div 8))) (\<lambda>req.
      obind (write_bits_body ((nb + 7) div 8) nb src (?h + 5 + 1) req) k) = k (?h + 5 + length xs, req2)" for k
  proof -
    have "obind (wr req1 (?h + 5) (word_of_int ((nb + 7) div 8))) (\<lambda>req.
        obind (write_bits_body ((nb + 7) div 8) nb src (?h + 5 + 1) req) k) =
      obind (wr req1 (?h + 5) (word_of_int ((nb + 7) div 8))) (\<lambda>req.
        obind (push_all req (?h + 5 + 1) (pack_bits (map as_bit (take ?n src)))) k)"
    proof (rule obind_cong [OF refl])
      fix r
      assume "wr req1 (?h + 5) (word_of_int ((nb + 7) div 8)) = Done r"
      then have "length r = length req1" by (auto simp: wr_Done_iff)
      then have "?h + 5 + 1 + (?n + 7) div 8 \<le> length r" using room(1) lx by linarith
      from write_bits_body_value [OF src this] show "obind (write_bits_body ((nb + 7) div 8) nb src (?h + 5 + 1) r) k =
          obind (push_all r (?h + 5 + 1) (pack_bits (map as_bit (take ?n src)))) k"
        by (simp only: bc n)
    qed
    also have "\<dots> = obind (push_all req1 (?h + 5) xs) k" unfolding xs_def by (rule wr_push_all)
    finally show ?thesis by (simp only: p obind.simps)
  qed
  have eq: "modbus_write_bits (Some c) addr nb (Some src) req rsp w =
      obind (exchange (request_ctx c) req2 (?h + 5 + length xs) rsp w) (\<lambda>(rc, c, rsp, w). Done (rc, Some c, w))"
  proof -
    have "\<not> (nb < 1 \<or> nb > MODBUS_MAX_WRITE_BITS)" using nb by simp
    then show ?thesis
      by (simp only: modbus_write_bits_def prod.case option.case if_False MODBUS_FC_WRITE_MULTIPLE_COILS_def b
          obind.simps Let_def bit_bytes build)
  qed
  show thesis by (rule that [OF eq [unfolded xs_def] r2 [unfolded xs_def] q])
qed

lemma write_bits_result:
  assumes slave: "slave_set c" and len: "length req = 260" "length rsp = 260"
    and nb: "1 \<le> nb" "nb \<le> 1968" and src: "nat nb \<le> length src"
  shows "call_result c (\<lambda>rc. rc = nb) (modbus_write_bits (Some c) addr nb (Some src) req rsp w)"
proof -
  from write_bits_exchange [OF assms, of addr w] obtain req2 n where
      eq: "modbus_write_bits (Some c) addr nb (Some src) req rsp w =
        obind (exchange (request_ctx c) req2 n rsp w) (\<lambda>(rc, c, rsp, w). Done (rc, Some c, w))"
    and r: "request_in c (request_sft c 15)
        (req4 addr nb @ word_of_int ((nb + 7) div 8) # pack_bits (map as_bit (take (nat nb) src))) n req2"
    and q: "header_length c + 5 \<le> length req2" by blast
  show ?thesis
    unfolding eq by (rule call_exchange [OF r q len(2)]) (use confirmed_multiple [OF r] nb in auto)
qed

lemma write_registers_exchange:
  assumes slave: "slave_set c" and len: "length req = 260" "length rsp = 260"
    and nb: "1 \<le> nb" "nb \<le> 123" and src: "nat nb \<le> length src"
  obtains req2 n where
    "modbus_write_registers (Some c) addr nb (Some src) req rsp w =
       obind (exchange (request_ctx c) req2 n rsp w) (\<lambda>(rc, c, rsp, w). Done (rc, Some c, w))"
    and "request_in c (request_sft c 16) (req4 addr nb @ word_of_int (nb * 2) # bytes_of_regs (take (nat nb) src)) n req2"
    and "header_length c + 5 \<le> length req2"
proof -
  let ?h = "header_length c" and ?n = "nat nb"
  define xs where "xs = word_of_int (nb * 2) # bytes_of_regs (take ?n src)"
  have n: "int ?n = nb" using nb by simp
  have lx: "length xs = 1 + 2 * ?n" using src by (simp add: xs_def min_absorb2)
  have "?h + 5 + checksum_length c \<le> length req" using len header_checksum_bounds(4) [of c] by linarith
  from request_basis_holds [OF slave this, of 16 addr nb] obtain req1 where
      b: "be_build_request_basis c 16 addr nb req = Done (?h + 5, request_ctx c, req1)"
    and l1: "length req1 = length req"
    and r1: "request_in c (request_sft c 16) (req4 addr nb) (?h + 5) req1" by blast
  have room: "?h + 5 + length xs + checksum_length c \<le> length req1" "?h + 5 + length xs < 65536"
    using l1 len lx nb header_checksum_bounds(2,4) [of c] by linarith+
  from request_in_push [OF r1 room] obtain req2 where
      p: "push_all req1 (?h + 5) xs = Done (?h + 5 + length xs, req2)" and l2: "length req2 = length req1"
    and r2: "request_in c (request_sft c 16) (req4 addr nb @ xs) (?h + 5 + length xs) req2" by blast
  have q: "?h + 5 \<le> length req2" using l1 l2 len header_checksum_bounds(2) [of c] by linarith
  have build: "obind (wr req1 (?h + 5) (word_of_int (nb * 2))) (\<lambda>req. obind (push_registers src nb (?h + 5 + 1) req) k) =
      k (?h + 5 + length xs, req2)" for k
    using wr_push_all [of req1 "?h + 5" "word_of_int (nb * 2)" "bytes_of_regs (take ?n src)" k]
      push_registers_eq [OF src, unfolded n]
    by (simp only: xs_def [symmetric] p obind.simps)
  have eq: "modbus_write_registers (Some c) addr nb (Some src) req rsp w =
      obind (exchange (request_ctx c) req2 (?h + 5 + length xs) rsp w) (\<lambda>(rc, c, rsp, w). Done (rc, Some c, w))"
  proof -
    have "\<not> (nb < 1 \<or> nb > MODBUS_MAX_WRITE_REGISTERS)" using nb by simp
    then show ?thesis
      by (simp only: modbus_write_registers_def prod.case option.case if_False MODBUS_FC_WRITE_MULTIPLE_REGISTERS_def b
          obind.simps Let_def build)
  qed
  show thesis by (rule that [OF eq [unfolded xs_def] r2 [unfolded xs_def] q])
qed

lemma write_registers_result:
  assumes slave: "slave_set c" and len: "length req = 260" "length rsp = 260"
    and nb: "1 \<le> nb" "nb \<le> 123" and src: "nat nb \<le> length src"
  shows "call_result c (\<lambda>rc. rc = nb) (modbus_write_registers (Some c) addr nb (Some src) req rsp w)"
proof -
  from write_registers_exchange [OF assms, of addr w] obtain req2 n where
      eq: "modbus_write_registers (Some c) addr nb (Some src) req rsp w =
        obind (exchange (request_ctx c) req2 n rsp w) (\<lambda>(rc, c, rsp, w). Done (rc, Some c, w))"
    and r: "request_in c (request_sft c 16) (req4 addr nb @ word_of_int (nb * 2) # bytes_of_regs (take (nat nb) src)) n req2"
    and q: "header_length c + 5 \<le> length req2" by blast
  show ?thesis
    unfolding eq by (rule call_exchange [OF r q len(2)]) (use confirmed_multiple [OF r] nb in auto)
qed

section \<open>Calls that write and return values\<close>

text \<open>A result as \<open>array_result\<close> has it, from the inner function that takes a context and an array.\<close>

lemma array_resultI:
  fixes g :: "int \<Rightarrow> int"
  assumes "r \<noteq> Fault"
    and "\<And>rc c' d' w'. r = Done (rc, c', d', w') \<Longrightarrow> relinked (request_ctx c) c' \<and>
      (rc = -1 \<and> d' = d \<or> (rc = 0 \<or> ok (g rc)) \<and> length d' = length d \<and> drop n d' = drop n d)"
    and "g (-1) = -1" "g 0 = 0 \<or> ok (g 0)" "\<And>rc. g rc = -1 \<Longrightarrow> rc = -1" "\<not> ok (-1)"
  shows "array_result c ok n d (obind r (\<lambda>(rc, c, d, w). Done (g rc, Some c, Some d, w)))"
proof (cases r)
  case (Done x)
  obtain rc c' d' w' where x: "x = (rc, c', d', w')" by (cases x)
  have step: "relinked (request_ctx c) c' \<and> (rc = -1 \<and> d' = d \<or> (rc = 0 \<or> ok (g rc)) \<and> length d' = length d \<and> drop n d' = drop n d)"
    by (rule assms(2) [OF Done [unfolded x]])
  show ?thesis
  proof (cases "rc = -1")
    case True
    with step assms(3,6) show ?thesis by (cases "d' = d") (auto simp: array_result_def Done x)
  next
    case False
    then have "g rc \<noteq> -1" "g rc = 0 \<or> ok (g rc)" using assms(4,5) step by blast+
    with step False show ?thesis by (auto simp: array_result_def Done x)
  qed
qed (use assms(1) in \<open>simp_all add: array_result_def\<close>)

lemma modbus_read_registers_result:
  assumes slave: "slave_set c" and len: "length req = 12" "length rsp = 260"
    and nb: "1 \<le> nb" "nb \<le> 125" and dest: "nat nb \<le> length d"
  shows "array_result c (\<lambda>rc. rc = nb) (nat nb) d (modbus_read_registers (Some c) addr nb (Some d) req rsp w)"
    and "array_result c (\<lambda>rc. rc = nb) (nat nb) d (modbus_read_input_registers (Some c) addr nb (Some d) req rsp w)"
proof -
  have "\<not> (nb < 1 \<or> nb > MODBUS_MAX_READ_REGISTERS)" using nb by simp
  moreover have "array_result c (\<lambda>rc. rc = nb) (nat nb) d
      (obind (read_registers c f addr nb d req rsp w) (\<lambda>(rc, c, d, w). Done (rc, Some c, Some d, w)))" if "f \<in> {3, 4}" for f
    by (rule array_resultI [where g = "\<lambda>x. x"]) (use read_registers_result [OF assms that] nb in \<open>blast | simp\<close>)+
  ultimately show "array_result c (\<lambda>rc. rc = nb) (nat nb) d (modbus_read_registers (Some c) addr nb (Some d) req rsp w)"
    "array_result c (\<lambda>rc. rc = nb) (nat nb) d (modbus_read_input_registers (Some c) addr nb (Some d) req rsp w)"
    by (simp_all add: modbus_read_registers_def modbus_read_input_registers_def del: MODBUS_MAX_READ_REGISTERS_def)
qed

lemma modbus_read_bits_result:
  assumes slave: "slave_set c" and len: "length req = 12" "length rsp = 260"
    and nb: "1 \<le> nb" "nb \<le> 2000" and dest: "nat nb \<le> length d"
  shows "array_result c (\<lambda>rc. rc = nb) (nat nb) d (modbus_read_bits (Some c) addr nb (Some d) req rsp w)"
    and "array_result c (\<lambda>rc. rc = nb) (nat nb) d (modbus_read_input_bits (Some c) addr nb (Some d) req rsp w)"
proof -
  have "\<not> (nb < 1 \<or> nb > MODBUS_MAX_READ_BITS)" using nb by simp
  moreover have "array_result c (\<lambda>rc. rc = nb) (nat nb) d
      (obind (read_io_status c f addr nb d req rsp w) (\<lambda>(rc, c, d, w). Done (if rc = -1 then -1 else nb, Some c, Some d, w)))"
    if "f \<in> {1, 2}" for f
  proof (rule array_resultI [where g = "\<lambda>rc. if rc = -1 then -1 else nb"])
    show "read_io_status c f addr nb d req rsp w \<noteq> Fault" by (rule read_io_status_result(1) [OF assms that])
    fix rc c' d' w'
    assume "read_io_status c f addr nb d req rsp w = Done (rc, c', d', w')"
    from read_io_status_result(2) [OF assms that this] nb show "relinked (request_ctx c) c' \<and>
      (rc = -1 \<and> d' = d \<or> (rc = 0 \<or> (if rc = -1 then -1 else nb) = nb) \<and> length d' = length d \<and> drop (nat nb) d' = drop (nat nb) d)"
      by auto
  qed (use nb in \<open>simp_all split: if_splits\<close>)
  ultimately show "array_result c (\<lambda>rc. rc = nb) (nat nb) d (modbus_read_bits (Some c) addr nb (Some d) req rsp w)"
    "array_result c (\<lambda>rc. rc = nb) (nat nb) d (modbus_read_input_bits (Some c) addr nb (Some d) req rsp w)"
    by (simp_all add: modbus_read_bits_def modbus_read_input_bits_def del: MODBUS_MAX_READ_BITS_def)
qed

text \<open>The request of a combined write and read, and what follows the exchange.\<close>

lemma write_read_exchange:
  assumes slave: "slave_set c" and len: "length req = 260" "length rsp = 260"
    and nb: "1 \<le> write_nb" "write_nb \<le> 121" "1 \<le> nb" "nb \<le> 125" and src: "nat write_nb \<le> length src"
  obtains req2 n where
    "modbus_write_and_read_registers (Some c) write_addr write_nb (Some src) addr nb (Some d) req rsp w =
       obind (exchange (request_ctx c) req2 n rsp w) (\<lambda>(rc, c, rsp, w).
         if rc = -1 then Done (-1, Some c, Some d, w)
         else obind (copy_registers rsp (header_length c) rc d) (\<lambda>d. Done (rc, Some c, Some d, w)))"
    and "request_in c (request_sft c 23) (req4 addr nb @ req4 write_addr write_nb @
       word_of_int (write_nb * 2) # bytes_of_regs (take (nat write_nb) src)) n req2"
    and "header_length c + 5 \<le> length req2"
proof -
  let ?h = "header_length c" and ?n = "nat write_nb"
  let ?args = "[int_hi8 write_addr, int_lo8 write_addr, int_hi8 write_nb, int_lo8 write_nb, word_of_int (write_nb * 2)]"
  define xs where "xs = ?args @ bytes_of_regs (take ?n src)"
  have n: "int ?n = write_nb" using nb by simp
  have lx: "length xs = 5 + 2 * ?n" using src by (simp add: xs_def min_absorb2)
  have "?h + 5 + checksum_length c \<le> length req" using len header_checksum_bounds(4) [of c] by linarith
  from request_basis_holds [OF slave this, of 23 addr nb] obtain req1 where
      b: "be_build_request_basis c 23 addr nb req = Done (?h + 5, request_ctx c, req1)"
    and l1: "length req1 = length req"
    and r1: "request_in c (request_sft c 23) (req4 addr nb) (?h + 5) req1" by blast
  have room: "?h + 5 + length xs + checksum_length c \<le> length req1" "?h + 5 + length xs < 65536"
    using l1 len lx nb header_checksum_bounds(2) [of c] header_checksum_bounds(4) [of c] by linarith+
  from request_in_push [OF r1 room] obtain req2 where
      p: "push_all req1 (?h + 5) xs = Done (?h + 5 + length xs, req2)" and l2: "length req2 = length req1"
    and r2: "request_in c (request_sft c 23) (req4 addr nb @ xs) (?h + 5 + length xs) req2" by blast
  have q: "?h + 5 \<le> length req2" using l1 l2 len header_checksum_bounds(2) [of c] by linarith
  let ?k = "\<lambda>(req_length, req). obind (exchange (request_ctx c) req req_length rsp w) (\<lambda>(rc, c, rsp, w).
      if rc = -1 then Done (-1, Some c, Some d, w)
      else obind (copy_registers rsp (header_length c) rc d) (\<lambda>d. Done (rc, Some c, Some d, w)))"
  have build: "obind (push_all req1 (?h + 5) ?args) (\<lambda>(req_length, req). obind (push_registers src write_nb req_length req) k) =
      k (?h + 5 + length xs, req2)" for k
  proof -
    have "obind (push_all req1 (?h + 5) ?args) (\<lambda>(req_length, req). obind (push_registers src write_nb req_length req) k) =
        obind (push_all req1 (?h + 5) xs) k"
      using push_registers_eq [OF src, unfolded n] unfolding xs_def push_all_append
      by (simp add: obind_assoc case_prod_unfold del: push_all.simps)
    then show ?thesis by (simp only: p obind.simps)
  qed
  have "modbus_write_and_read_registers (Some c) write_addr write_nb (Some src) addr nb (Some d) req rsp w = ?k (?h + 5 + length xs, req2)"
  proof -
    have "\<not> (write_nb < 1 \<or> nb < 1)" "\<not> write_nb > MODBUS_MAX_WR_WRITE_REGISTERS" "\<not> nb > MODBUS_MAX_WR_READ_REGISTERS"
      using nb by simp_all
    then show ?thesis
      by (simp only: modbus_write_and_read_registers_def prod.case option.case if_False MODBUS_FC_WRITE_AND_READ_REGISTERS_def b
          obind.simps build)
  qed
  then have eq: "modbus_write_and_read_registers (Some c) write_addr write_nb (Some src) addr nb (Some d) req rsp w =
      obind (exchange (request_ctx c) req2 (?h + 5 + length xs) rsp w) (\<lambda>(rc, c, rsp, w).
         if rc = -1 then Done (-1, Some c, Some d, w)
         else obind (copy_registers rsp (header_length c) rc d) (\<lambda>d. Done (rc, Some c, Some d, w)))"
    by (simp only: prod.case)
  have "req4 addr nb @ xs = req4 addr nb @ req4 write_addr write_nb @ word_of_int (write_nb * 2) # bytes_of_regs (take ?n src)"
    by (simp add: xs_def)
  from that [OF eq r2 [unfolded this] q] show thesis .
qed

lemma modbus_write_and_read_registers_result:
  assumes slave: "slave_set c" and len: "length req = 260" "length rsp = 260"
    and nb: "1 \<le> write_nb" "write_nb \<le> 121" "1 \<le> nb" "nb \<le> 125" and src: "nat write_nb \<le> length src" and dest: "nat nb \<le> length d"
  shows "array_result c (\<lambda>rc. rc = nb) (nat nb) d
    (modbus_write_and_read_registers (Some c) write_addr write_nb (Some src) addr nb (Some d) req rsp w)"
proof -
  let ?h = "header_length c" and ?rest = "req4 write_addr write_nb @ word_of_int (write_nb * 2) # bytes_of_regs (take (nat write_nb) src)"
  from write_read_exchange [OF slave len nb src, of write_addr addr d w] obtain req2 n where
      eq0: "modbus_write_and_read_registers (Some c) write_addr write_nb (Some src) addr nb (Some d) req rsp w =
       obind (exchange (request_ctx c) req2 n rsp w) (\<lambda>(rc, c, rsp, w).
         if rc = -1 then Done (-1, Some c, Some d, w)
         else obind (copy_registers rsp (header_length c) rc d) (\<lambda>d. Done (rc, Some c, Some d, w)))"
    and r2: "request_in c (request_sft c 23) (req4 addr nb @ ?rest) n req2"
    and q: "?h + 5 \<le> length req2" by blast
  let ?e = "exchange (request_ctx c) req2 n rsp w"
  let ?r = "obind ?e (\<lambda>(rc, ctx, rsp, w). if rc = -1 then Done (-1, ctx, d, w)
      else obind (copy_registers rsp (header_length ctx) rc d) (\<lambda>d. Done (rc, ctx, d, w)))"
  have eq: "modbus_write_and_read_registers (Some c) write_addr write_nb (Some src) addr nb (Some d) req rsp w =
      obind ?r (\<lambda>(rc, c, d, w). Done (rc, Some c, Some d, w))"
    unfolding eq0 obind_assoc prod.case by (rule obind_cong [OF refl]) (auto simp: obind_assoc)
  have count: "\<forall>req' rsp' rc. take (n + checksum_length c) req' = be_frame c (request_sft c 23) (req4 addr nb @ ?rest) \<longrightarrow>
      confirmed c req' rsp' rc \<longrightarrow> length rsp' = 260 \<longrightarrow> rc = nb"
    using confirmed_registers [OF r2] nb by auto
  note ok = exchange_call(1) [OF r2 q len(2), where ok = "\<lambda>rc rsp. rc = nb", OF count]
    and res = exchange_call(2) [OF r2 q len(2), where ok = "\<lambda>rc rsp. rc = nb", OF count]
  let ?Q = "\<lambda>rc d'. (rc = 0 \<or> rc = nb) \<and> length d' = length d \<and> drop (nat nb) d' = drop (nat nb) d"
  have step: "relinked (request_ctx c) ctx \<and> (rc = -1 \<or> (\<exists>d'. copy_registers rsp' (header_length ctx) rc d = Done d' \<and> ?Q rc d'))"
    if e: "?e = Done (rc, ctx, rsp', w')" for rc ctx rsp' w'
    using res [OF e] registers_copied [of rsp' ctx ?h rc nb d] header_checksum_bounds(2) [of c] nb dest by auto
  note final = copy_result [of ?e "relinked (request_ctx c)" "\<lambda>ctx rsp rc. copy_registers rsp (header_length ctx) rc d" ?Q d, OF ok]
  show ?thesis
    unfolding eq
  proof (rule array_resultI [where g = "\<lambda>x. x"])
    show "?r \<noteq> Fault" by (rule final(1)) (rule step)
    show "relinked (request_ctx c) c' \<and> (rc = -1 \<and> d' = d \<or> ?Q rc d')" if "?r = Done (rc, c', d', w')" for rc c' d' w'
      using that by (rule final(2) [rotated]) (rule step)
  qed (use nb in simp_all)
qed

text \<open>
  The length of a slave id is whatever the slave says: the copy stays in the response because the
  response was received whole.
\<close>

lemma copy_slave_id_value:
  assumes "off + n \<le> length rsp" and "n \<le> length d"
  shows "ofor [0..<n] (\<lambda>i d. obind (rd rsp (off + i)) (\<lambda>b. wr d i b)) d = Done (take n (drop off rsp) @ drop n d)"
proof -
  let ?s = "\<lambda>i. take i (drop off rsp) @ drop i d"
  have "ofor [0..<n] (\<lambda>i d. obind (rd rsp (off + i)) (\<lambda>b. wr d i b)) d = Done (?s n)"
  proof (rule ofor_upt_state)
    fix i
    assume i: "i < n"
    then have "?s (Suc i) = (?s i)[i := rsp ! (off + i)]"
      using assms by (simp add: take_Suc_conv_app_nth [of i "drop off rsp"] list_update_append Cons_nth_drop_Suc [of i d, symmetric])
    then show "obind (rd rsp (off + i)) (\<lambda>b. wr (?s i) i b) = Done (?s (Suc i))"
      using i assms by (simp add: rd_def wr_def)
  qed simp_all
  then show ?thesis .
qed

lemma copy_slave_id:
  assumes "off + n \<le> length rsp" and "n \<le> length d" and "n \<le> m"
  shows "\<exists>d'. ofor [0..<n] (\<lambda>i d. obind (rd rsp (off + i)) (\<lambda>b. wr d i b)) d = Done d' \<and>
    length d' = length d \<and> drop m d' = drop m d"
proof -
  have "length (take n (drop off rsp)) = n" using assms(1) by simp
  with assms show ?thesis unfolding copy_slave_id_value [OF assms(1,2)] by (simp add: drop_behind del: length_take)
qed

lemma slave_id_exchange:
  assumes slave: "slave_set c" and len: "length req = 12" "length rsp = 260" and nb: "1 \<le> max_dest"
  obtains req1 where
    "modbus_report_slave_id (Some c) max_dest (Some d) req rsp w =
       obind (exchange (request_ctx c) req1 (header_length c + 1) rsp w) (\<lambda>(rc, c, rsp, w).
         if rc = -1 then Done (-1, Some c, Some d, w)
         else obind (ofor [0..<nat (min rc max_dest)] (\<lambda>i d. obind (rd rsp (header_length c + 2 + i)) (\<lambda>b. wr d i b)) d)
           (\<lambda>d. Done (rc, Some c, Some d, w)))"
    and "request_in c (request_sft c 17) [] (header_length c + 1) req1"
    and "header_length c + 5 \<le> length req1"
proof -
  let ?h = "header_length c"
  have "?h + 5 + checksum_length c \<le> length req" using len header_checksum_bounds(4) [of c] by linarith
  from request_basis_holds [OF slave this, of 17 0 0] obtain req1 where
      b: "be_build_request_basis c 17 0 0 req = Done (?h + 5, request_ctx c, req1)"
    and l1: "length req1 = length req"
    and r1: "request_in c (request_sft c 17) (req4 0 0) (?h + 5) req1" by blast
  from request_in_shorten [OF r1, of 4]
  have r2: "request_in c (request_sft c 17) [] (?h + 1) req1" by (simp add: add.commute)
  have q: "?h + 5 \<le> length req1" using l1 len header_checksum_bounds(2) [of c] by linarith
  have l5: "?h + 5 - 4 = ?h + 1" by simp
  have "\<not> max_dest \<le> 0" using nb by simp
  then have eq: "modbus_report_slave_id (Some c) max_dest (Some d) req rsp w =
       obind (exchange (request_ctx c) req1 (?h + 1) rsp w) (\<lambda>(rc, c, rsp, w).
         if rc = -1 then Done (-1, Some c, Some d, w)
         else obind (ofor [0..<nat (min rc max_dest)] (\<lambda>i d. obind (rd rsp (header_length c + 2 + i)) (\<lambda>b. wr d i b)) d)
           (\<lambda>d. Done (rc, Some c, Some d, w)))"
    by (simp only: modbus_report_slave_id_def prod.case option.case if_False MODBUS_FC_REPORT_SLAVE_ID_def b obind.simps l5)
  show thesis by (rule that [OF eq r2 q])
qed

lemma modbus_report_slave_id_result:
  assumes slave: "slave_set c" and len: "length req = 12" "length rsp = 260"
    and nb: "1 \<le> max_dest" and dest: "nat max_dest \<le> length d"
  shows "array_result c (\<lambda>rc. 0 \<le> rc \<and> rc \<le> 251) (nat max_dest) d
    (modbus_report_slave_id (Some c) max_dest (Some d) req rsp w)"
proof -
  let ?h = "header_length c"
  from slave_id_exchange [OF slave len nb, of d w] obtain req1 where
      eq0: "modbus_report_slave_id (Some c) max_dest (Some d) req rsp w =
       obind (exchange (request_ctx c) req1 (?h + 1) rsp w) (\<lambda>(rc, c, rsp, w).
         if rc = -1 then Done (-1, Some c, Some d, w)
         else obind (ofor [0..<nat (min rc max_dest)] (\<lambda>i d. obind (rd rsp (header_length c + 2 + i)) (\<lambda>b. wr d i b)) d)
           (\<lambda>d. Done (rc, Some c, Some d, w)))"
    and r2: "request_in c (request_sft c 17) [] (?h + 1) req1" and q: "?h + 5 \<le> length req1" by blast
  have h258: "?h \<le> 258" using header_checksum_bounds(2) [of c] by linarith
  define ok where "ok = (\<lambda>rc (rsp' :: byte list). 0 \<le> rc \<and> ?h + 2 + nat rc \<le> 260 \<and> rc \<le> 251)"
  have count: "\<forall>req' rsp' rc. take (?h + 1 + checksum_length c) req' = be_frame c (request_sft c 17) [] \<longrightarrow>
      confirmed c req' rsp' rc \<longrightarrow> length rsp' = 260 \<longrightarrow> ok rc rsp'"
  proof (intro allI impI)
    fix req' rsp' :: "byte list" and rc
    assume frame: "take (?h + 1 + checksum_length c) req' = be_frame c (request_sft c 17) []"
      and conf: "confirmed c req' rsp' rc" and l: "length rsp' = 260"
    have f: "uint (rsp' ! ?h) = 17" using conf request_byte(1) [OF r2 frame] by (simp add: confirmed_def)
    from conf obtain k where k: "k \<le> length rsp'" "complete c MSG_CONFIRMATION (take k rsp')"
      by (auto simp: confirmed_def)
    then have "k = message_length c MSG_CONFIRMATION (take k rsp')" "k \<le> max_adu_length c" "?h < k"
      by (auto simp: complete_def)
    moreover from this have "message_length c MSG_CONFIRMATION (take k rsp') = ?h + 2 + unat (rsp' ! (?h + 1)) + checksum_length c"
      using f k by (auto simp: message_length_def meta_length_def data_length_def compute_meta_length_after_function_def complete_def)
    ultimately have "?h + 2 + unat (rsp' ! (?h + 1)) + checksum_length c \<le> max_adu_length c" by simp
    moreover have "max_adu_length c \<le> ?h + 253 + checksum_length c" "max_adu_length c \<le> 260"
      by (simp_all add: header_length_def checksum_length_def max_adu_length_def)
    moreover have "rc = int (unat (rsp' ! (?h + 1)))" using conf f by (simp add: confirmed_def confirmation_count_def)
    moreover obtain u where "unat (rsp' ! (?h + 1)) = u" by blast
    ultimately have "rc = int u" "?h + 2 + u \<le> 260" "u \<le> 251" by linarith+
    then show "ok rc rsp'" by (simp add: ok_def)
  qed
  note fine = exchange_call(1) [OF r2 q len(2), where ok = ok, OF count]
    and res = exchange_call(2) [OF r2 q len(2), where ok = ok, OF count]
  let ?e = "exchange (request_ctx c) req1 (?h + 1) rsp w"
  let ?copy = "\<lambda>ctx rsp rc. ofor [0..<nat (min rc max_dest)] (\<lambda>i d. obind (rd rsp (header_length ctx + 2 + i)) (\<lambda>b. wr d i b)) d"
  let ?r = "obind ?e (\<lambda>(rc, ctx, rsp, w). if rc = -1 then Done (-1, ctx, d, w)
      else obind (?copy ctx rsp rc) (\<lambda>d. Done (rc, ctx, d, w)))"
  let ?Q = "\<lambda>rc d'. (rc = 0 \<or> 0 \<le> rc \<and> rc \<le> 251) \<and> length d' = length d \<and> drop (nat max_dest) d' = drop (nat max_dest) d"
  have step: "relinked (request_ctx c) ctx \<and> (rc = -1 \<or> (\<exists>d'. ?copy ctx rsp' rc = Done d' \<and> ?Q rc d'))"
    if e: "?e = Done (rc, ctx, rsp', w')" for rc ctx rsp' w'
  proof -
    from res [OF e] have r: "relinked (request_ctx c) ctx" "header_length ctx = ?h" "length rsp' = 260"
      "rc = -1 \<or> rc = 0 \<or> ok rc rsp'" by simp_all
    show ?thesis
    proof (cases "rc = -1")
      case False
      let ?n = "nat (min rc max_dest)"
      from False r(4) have rc: "0 \<le> rc" "?h + 2 + nat rc \<le> 260" "rc \<le> 251" by (auto simp: ok_def h258)
      then have "?h + 2 + ?n \<le> length rsp'" "?n \<le> length d" "?n \<le> nat max_dest"
        using nb dest r(3) by linarith+
      from copy_slave_id [OF this] rc r(1,2) show ?thesis by auto
    qed (use r in simp)
  qed
  have eq: "modbus_report_slave_id (Some c) max_dest (Some d) req rsp w =
      obind ?r (\<lambda>(rc, c, d, w). Done (rc, Some c, Some d, w))"
    unfolding eq0 obind_assoc prod.case by (rule obind_cong [OF refl]) (auto simp: obind_assoc)
  note final = copy_result [of ?e "relinked (request_ctx c)" ?copy ?Q d, OF fine]
  show ?thesis
    unfolding eq
  proof (rule array_resultI [where g = "\<lambda>x. x"])
    show "?r \<noteq> Fault" by (rule final(1)) (rule step)
    show "relinked (request_ctx c) c' \<and> (rc = -1 \<and> d' = d \<or> ?Q rc d')" if "?r = Done (rc, c', d', w')" for rc c' d' w'
      using that by (rule final(2) [rotated]) (rule step)
  qed simp_all
qed

end
