(* ===== verification/Mb_Session.thy ===== *)
theory Mb_Session
  imports Mb_Calls
begin

text \<open>
  A client and a server over one line. The frame that the server sends for the request of the client
  is accepted by the client, however the line cuts it, and the client returns what the protocol says
  of the mapping of the server.
\<close>

section \<open>The frames of both sides\<close>

lemma word_of_uint_word [simp]: "word_of_int (uint (word_of_int i :: byte)) = (word_of_int i :: byte)"
  by simp

lemma int_bytes_mod: "int_hi8 (v mod 65536) = int_hi8 v" "int_lo8 (v mod 65536) = int_lo8 v"
proof -
  have "v mod 65536 = 256 * ((v div 256) mod 256) + v mod 256"
    using zmod_zmult2_eq [of 256 v 256] by simp
  then have "(v mod 65536) div 256 = (v div 256) mod 256" "(v mod 65536) mod 256 = v mod 256" by simp_all
  then show "int_hi8 (v mod 65536) = int_hi8 v" "int_lo8 (v mod 65536) = int_lo8 v"
    by (simp_all add: word_uint_eq_iff uint_int_hi8 uint_int_lo8)
qed

text \<open>The server reads back the identity of the client's frame: its response repeats the header.\<close>

lemma frame_of_identity:
  assumes same: "is_rtu s = is_rtu ctx"
  shows "be_frame s (sft_of s (be_frame ctx sft body)) b = be_frame ctx sft b"
proof (cases "is_rtu ctx")
  case True
  with same show ?thesis
    by (simp add: be_frame_def sft_of_def rtu_frame_def Let_def backend_lengths)
next
  case False
  with same show ?thesis
    by (simp add: be_frame_def sft_of_def tcp_frame_def backend_lengths be16_int_bytes int_bytes_mod)
qed

lemma frame_canonical: "canonical_header s (be_frame ctx sft body)" if "is_rtu s = is_rtu ctx"
  using that by (cases "is_rtu ctx") (simp_all add: canonical_header_def be_frame_def tcp_frame_def)

text \<open>What follows the frame in the buffer does not matter.\<close>

lemma header_append:
  assumes "header_length s + 1 \<le> length q"
  shows "sft_of s (q @ rest) = sft_of s q" and "canonical_header s (q @ rest) = canonical_header s q"
  using assms backend_lengths [of s] by (auto simp: sft_of_def canonical_header_def nth_append)

text \<open>A frame whose bytes were all taken at once.\<close>

lemma send_frame_whole:
  assumes "be_send ctx f w = Done (int (length f), w1)"
  shows "send_frame ctx f w = Done (int (length f), ctx, w1)"
  using assms by (simp add: send_frame_def send_loop.simps [of ctx f w])

lemma send_whole_frame:
  assumes "be_send ctx f w = Done (int (length f), w1)" and "0 < length f"
  shows "w_rx w1 = w_rx w" and "w_sent w1 = w_sent w @ [f]"
proof -
  from be_send_result [OF assms(1)] show "w_rx w1 = w_rx w" by simp
  from be_send_result [OF assms(1)] obtain n where n: "int (length f) = int (length (take n f))" "w_sent w1 = w_sent w @ [take n f]"
    by auto
  then have "take n f = f" by (simp add: min_def split: if_splits)
  with n show "w_sent w1 = w_sent w @ [f]" by simp
qed

section \<open>A response that fits its request\<close>

text \<open>
  The bodies of a request and of the response that the protocol wants for it: \<open>p\<close> and \<open>b\<close> are what
  follows the function code \<open>f\<close>.
\<close>

definition fitting :: "int \<Rightarrow> byte list \<Rightarrow> byte list \<Rightarrow> bool" where
  "fitting f p b \<longleftrightarrow>
     (if f = 1 \<or> f = 2 then 4 \<le> length p \<and> int (length b) = 1 + (arg p 2 + 7) div 8 \<and> uint (b ! 0) = (arg p 2 + 7) div 8
      else if f = 3 \<or> f = 4 \<or> f = 23 then 4 \<le> length p \<and> int (length b) = 1 + 2 * arg p 2 \<and> uint (b ! 0) = 2 * arg p 2
      else if f = 5 \<or> f = 6 \<or> f = 15 \<or> f = 16 then 4 \<le> length p \<and> b = take 4 p
      else if f = 17 then int (length b) = 1 + uint (b ! 0)
      else f = 22 \<and> 6 \<le> length p \<and> b = take 6 p)"

definition fitting_count :: "int \<Rightarrow> byte list \<Rightarrow> byte list \<Rightarrow> int" where
  "fitting_count f p b =
     (if f = 1 \<or> f = 2 then (arg p 2 + 7) div 8
      else if f = 3 \<or> f = 4 \<or> f = 23 \<or> f = 15 \<or> f = 16 then arg p 2
      else if f = 17 then uint (b ! 0)
      else 1)"

lemma fitting_pos: "fitting f p b \<Longrightarrow> 0 < length b"
proof -
  assume "fitting f p b"
  then have "int (length b) = 1 + uint (b ! 0) \<or> 4 \<le> length b" by (auto simp: fitting_def split: if_splits)
  then show ?thesis using uint_ge_0 [of "b ! 0"] by linarith
qed

lemma arg_nonneg: "0 \<le> arg p i"
  by (simp add: arg_def)

text \<open>The bytes of a frame at the head of a buffer.\<close>

lemma frame_in_buffer:
  assumes "take n buf = be_frame ctx sft body"
  shows "buf ! header_length ctx = word_of_int (sft_function sft)"
    and "i < length body \<Longrightarrow> buf ! (header_length ctx + 1 + i) = body ! i"
    and "i < header_length ctx + 1 \<Longrightarrow> buf ! i = be_frame ctx sft body ! i"
proof -
  have len: "length (take n buf) = header_length ctx + 1 + length body + checksum_length ctx"
    unfolding assms by (rule be.frame_length)
  have nth: "buf ! k = be_frame ctx sft body ! k" if "k < header_length ctx + 1 + length body" for k
    unfolding assms [symmetric] using len that by simp
  show "buf ! header_length ctx = word_of_int (sft_function sft)"
    using nth [of "header_length ctx"] be.frame_function [of ctx sft body] by simp
  show "buf ! (header_length ctx + 1 + i) = body ! i" if "i < length body"
    using nth [of "header_length ctx + 1 + i"] be.frame_body_nth [OF that, of ctx sft] that by simp
  show "buf ! i = be_frame ctx sft body ! i" if "i < header_length ctx + 1"
    using nth [of i] that by simp
qed

lemma frame_head:
  assumes "i < header_length ctx" and "is_rtu ctx \<or> i \<noteq> 4 \<and> i \<noteq> 5"
  shows "be_frame ctx sft body ! i = be_frame ctx sft body' ! i"
proof (cases "is_rtu ctx")
  case True
  with assms show ?thesis by (simp add: backend_lengths be_frame_def rtu_frame_def Let_def)
next
  case False
  with assms have "i = 0 \<or> i = 1 \<or> i = 2 \<or> i = 3 \<or> i = 6" by (simp add: backend_lengths) arith
  with False show ?thesis by (auto simp: be_frame_def tcp_frame_def)
qed

lemma frames_pre_check:
  assumes "take n req = be_frame ctx sft body" and "take k rsp = be_frame ctx sft body'"
  shows "pre_check_ok ctx req rsp"
proof (cases "is_rtu ctx")
  case True
  with frame_in_buffer(3) [OF assms(1), of 0] frame_in_buffer(3) [OF assms(2), of 0] frame_head [of 0 ctx sft body body']
  show ?thesis by (simp add: pre_check_ok_def)
next
  case False
  have "be_frame ctx sft b ! 2 = 0" "be_frame ctx sft b ! 3 = 0" for b using False by (simp_all add: be_frame_def tcp_frame_def)
  with False frame_in_buffer(3) [OF assms(1), of 0] frame_in_buffer(3) [OF assms(2), of 0] frame_head [of 0 ctx sft body body']
    frame_in_buffer(3) [OF assms(1), of 1] frame_in_buffer(3) [OF assms(2), of 1] frame_head [of 1 ctx sft body body']
    frame_in_buffer(3) [OF assms(2), of 2] frame_in_buffer(3) [OF assms(2), of 3]
  show ?thesis by (simp add: pre_check_ok_def backend_lengths)
qed

text \<open>A fitting response is complete, and the check of the confirmation accepts it.\<close>

lemma fitting_lengths:
  assumes "fitting f p b"
  shows "(f = 1 \<or> f = 2 \<or> f = 3 \<or> f = 4 \<or> f = 17 \<or> f = 23) \<and> length b = 1 + unat (b ! 0) \<or>
    (f = 5 \<or> f = 6 \<or> f = 15 \<or> f = 16) \<and> length b = 4 \<or> f = 22 \<and> length b = 6"
proof -
  have "int (length b) = 1 + uint (b ! 0) \<Longrightarrow> length b = 1 + unat (b ! 0)"
    by (metis int_ops(2) of_nat_add of_nat_eq_iff uint_nat)
  then show ?thesis using assms by (auto simp: fitting_def split: if_splits)
qed

lemma fitting_complete:
  assumes fit: "fitting f p b" and len: "length b \<le> 251" and sft: "sft_function sft = f"
  shows "complete ctx MSG_CONFIRMATION (be_frame ctx sft b)"
proof -
  let ?F = "be_frame ctx sft b" and ?h = "header_length ctx"
  have f: "uint (?F ! ?h) = f" using fit sft be.frame_function [of ctx sft b]
    by (auto simp: fitting_def uint_word_of_int split: if_splits)
  have b0: "?F ! (?h + 1) = b ! 0" using be.frame_body_nth [OF fitting_pos [OF fit], of ctx sft] by simp
  have l: "length ?F = ?h + 1 + length b + checksum_length ctx" by (rule be.frame_length)
  have adu: "length ?F \<le> max_adu_length ctx"
    unfolding l using len by (simp add: header_length_def checksum_length_def max_adu_length_def)
  have meta: "meta_length ctx MSG_CONFIRMATION ?F = compute_meta_length_after_function f MSG_CONFIRMATION"
    by (simp only: meta_length_def f)
  have data: "data_length ctx MSG_CONFIRMATION ?F =
      (if f \<le> 4 \<or> f = 17 \<or> f = 23 then unat (b ! 0) else 0) + checksum_length ctx"
    by (simp only: data_length_def Let_def f b0 msg_type.distinct if_False simp_thms)
  from fitting_lengths [OF fit] have "length b = compute_meta_length_after_function f MSG_CONFIRMATION +
      (if f \<le> 4 \<or> f = 17 \<or> f = 23 then unat (b ! 0) else 0)"
    by (elim disjE conjE) (simp_all add: compute_meta_length_after_function_def)
  with l adu meta data show ?thesis by (simp add: complete_def message_length_def)
qed

lemma expected_length:
  assumes fit: "fitting f p b" and req: "take n req = be_frame ctx sft p" and sft: "sft_function sft = f"
    and q: "header_length ctx + 5 \<le> length req"
  shows "\<exists>l. compute_response_length_from_request ctx req = Done l \<and>
    (l = None \<or> l = Some (int (header_length ctx + 1 + length b + checksum_length ctx)))"
proof -
  let ?h = "header_length ctx"
  have "f = 1 \<or> f = 2 \<or> f = 3 \<or> f = 4 \<or> f = 5 \<or> f = 6 \<or> f = 15 \<or> f = 16 \<or> f = 17 \<or> f = 22 \<or> f = 23"
    using fit by (auto simp: fitting_def split: if_splits)
  moreover have f: "uint (req ! ?h) = f"
    using frame_in_buffer(1) [OF req] sft calculation by (auto simp: uint_word_of_int)
  moreover have "req ! (?h + 3) = p ! 2 \<and> req ! (?h + 4) = p ! 3" if "4 \<le> length p"
    using frame_in_buffer(2) [OF req, of 2] frame_in_buffer(2) [OF req, of 3] that by (simp add: numeral_nat)
  moreover have "?h < length req" "?h + 3 < length req" "?h + 4 < length req" using q by linarith+
  ultimately show ?thesis
    using fit by (elim disjE)
      (simp_all add: compute_response_length_from_request_def Let_def fitting_def arg_def bit_bytes add.assoc)
qed

lemma fitting_confirmation:
  assumes fit: "fitting f p b" and req: "take n req = be_frame ctx sft p" and rsp: "take k rsp = be_frame ctx sft b"
    and sft: "sft_function sft = f"
  shows "rsp ! header_length ctx = req ! header_length ctx" and "uint (rsp ! header_length ctx) < 128"
    and "confirmation_ok ctx req rsp" and "confirmation_count ctx rsp = fitting_count f p b"
proof -
  let ?h = "header_length ctx"
  note q = frame_in_buffer(1,2) [OF req] and r = frame_in_buffer(1,2) [OF rsp]
  have f: "f = 1 \<or> f = 2 \<or> f = 3 \<or> f = 4 \<or> f = 5 \<or> f = 6 \<or> f = 15 \<or> f = 16 \<or> f = 17 \<or> f = 22 \<or> f = 23"
    using fit by (auto simp: fitting_def split: if_splits)
  then have uf: "uint (rsp ! ?h) = f" using r(1) sft by (auto simp: uint_word_of_int)
  then show "uint (rsp ! ?h) < 128" using f by auto
  show "rsp ! ?h = req ! ?h" using q(1) r(1) by simp
  have qs: "req ! (?h + 3) = p ! 2 \<and> req ! (?h + 4) = p ! 3 \<and> req ! (?h + 1) = p ! 0 \<and> req ! (?h + 2) = p ! 1" if "4 \<le> length p"
    using q(2) [of 0] q(2) [of 1] q(2) [of 2] q(2) [of 3] that by (cases "p = []") (simp_all add: numeral_nat)
  have r0: "rsp ! (?h + 1) = b ! 0" using r(2) [of 0] fitting_pos [OF fit] by simp
  have rs: "rsp ! (?h + 3) = b ! 2 \<and> rsp ! (?h + 4) = b ! 3 \<and> rsp ! (?h + 2) = b ! 1" if "4 \<le> length b"
    using r(2) [of 1] r(2) [of 2] r(2) [of 3] that by (simp add: numeral_nat)
  have reads: "confirmation_ok ctx req rsp \<and> confirmation_count ctx rsp = fitting_count f p b"
    if "f = 1 \<or> f = 2 \<or> f = 3 \<or> f = 4 \<or> f = 17 \<or> f = 22 \<or> f = 23"
    using fit that qs r0
    unfolding confirmation_ok_def confirmation_count_def fitting_count_def Let_def uf r0
    by (elim disjE) (simp_all add: fitting_def arg_def)
  have writes: "confirmation_ok ctx req rsp \<and> confirmation_count ctx rsp = fitting_count f p b"
    if w: "f = 5 \<or> f = 6 \<or> f = 15 \<or> f = 16"
  proof -
    from fit w have "4 \<le> length p" "b = take 4 p" by (auto simp: fitting_def split: if_splits)
    with qs r0 rs have "rsp ! (?h + k) = p ! (k - 1) \<and> req ! (?h + k) = p ! (k - 1)" if "k \<in> {1, 2, 3, 4}" for k
      using that by auto
    then have "\<forall>k \<in> {1, 2, 3, 4}. rsp ! (?h + k) = p ! (k - 1) \<and> req ! (?h + k) = p ! (k - 1)" by blast
    then show ?thesis
      using w unfolding confirmation_ok_def confirmation_count_def fitting_count_def Let_def uf
      by (elim disjE) (simp_all add: arg_def)
  qed
  from f reads writes show "confirmation_ok ctx req rsp" "confirmation_count ctx rsp = fitting_count f p b" by blast+
qed

text \<open>
  The exchange with a peer whose answer fits: the request goes out, the answer comes in, cut in any
  way, and the result is the count that the check reports.
\<close>

lemma exchange_answered:
  assumes req: "request_in ctx sft p n req" and q: "header_length ctx + 5 \<le> length req" and len: "length rsp = 260"
    and fit: "fitting f p b" "length b \<le> 251" and sft: "sft_function sft = f"
    and slave: "uint (word_of_int (sft_slave sft) :: byte) = mb_slave ctx"
    and link: "0 \<le> mb_s ctx" "mb_s ctx < FD_SETSIZE"
    and send: "be_send ctx (be_frame ctx sft p) w = Done (int (length (be_frame ctx sft p)), w1)"
    and rx: "w_rx w = map Rx_data cs @ es" "[] \<notin> set cs" "concat cs = be_frame ctx sft b"
  shows "\<exists>rsp' w'. exchange ctx req n rsp w = Done (fitting_count f p b, ctx, rsp', w') \<and>
    length rsp' = 260 \<and> take (length (be_frame ctx sft b)) rsp' = be_frame ctx sft b \<and>
    w_sent w' = w_sent w @ [be_frame ctx sft p] \<and> w_rx w' = es"
proof -
  let ?F = "be_frame ctx sft b"
  from request_in_send [OF req, of w] obtain req' where q': "length req' = length req"
      "take (n + checksum_length ctx) req' = be_frame ctx sft p"
    and snd: "send_msg ctx req n w = obind (send_frame ctx (be_frame ctx sft p) w) (\<lambda>(rc, ctx, w). Done (rc, ctx, req', w))"
    by blast
  have pos: "0 < length (be_frame ctx sft p)" by (simp add: be.frame_length)
  note sent = send_whole_frame [OF send pos]
  have msg: "send_msg ctx req n w = Done (int (length (be_frame ctx sft p)), ctx, req', w1)"
    by (simp add: snd send_frame_whole [OF send])
  have complete: "complete ctx MSG_CONFIRMATION ?F" by (rule fitting_complete [OF fit sft])
  have lF: "length ?F = header_length ctx + 1 + length b + checksum_length ctx" by (rule be.frame_length)
  have bound: "length ?F \<le> 260" using complete max_adu_bounds(2) [of ctx] unfolding complete_def by linarith
  have room: "max_adu_length ctx \<le> length rsp" using len by simp
  from receive_msg_chunks [OF complete link room, of w1 cs es] rx sent(1) obtain a where
      rcv: "modbus_receive_msg ctx rsp MSG_CONFIRMATION w1 =
        obind (be_check_integrity ctx (?F @ drop (length ?F) rsp) (length ?F) (armed_and_read a es w1))
          (\<lambda>(rc, w). Done (rc, ctx, ?F @ drop (length ?F) rsp, w))" by auto
  let ?rsp = "?F @ drop (length ?F) rsp" and ?w = "armed_and_read a es w1"
  have take: "take (length ?F) ?rsp = ?F" by simp
  have integrity: "be_check_integrity ctx ?rsp (length ?F) ?w = Done (int (length ?F), ?w)"
    by (rule be_check_integrity_frame [OF take lF]) (use bound slave in simp_all)
  have lr: "length ?rsp = 260" using len bound by simp
  have h: "header_length ctx + 5 \<le> length req'" "header_length ctx + 5 \<le> length ?rsp"
    unfolding lr using q q'(1) header_checksum_bounds(2) [of ctx] by linarith+
  from expected_length [OF fit(1) q'(2) sft h(1)] obtain l where
      l: "compute_response_length_from_request ctx req' = Done l" "l = None \<or> l = Some (int (length ?F))"
    unfolding lF by blast
  note conf = fitting_confirmation [OF fit(1) q'(2) take sft]
  have check: "check_confirmation ctx req' ?rsp (int (length ?F)) ?w = Done (fitting_count f p b, ?w)"
    using frames_pre_check [OF q'(2) take] conf l(2)
    by (simp only: check_confirmation_cases [OF h l(1)] Let_def) auto
  have "exchange ctx req n rsp w = Done (fitting_count f p b, ctx, ?rsp, ?w)"
    using pos by (simp add: exchange_def msg rcv integrity check)
  moreover have "w_sent ?w = w_sent w @ [be_frame ctx sft p]" "w_rx ?w = es" using sent by (simp_all add: armed_and_read_def)
  ultimately show ?thesis using take lr by blast
qed

section \<open>The server\<close>

lemma answer_world_sent: "w_sent (answer_world ctx ans w) = w_sent w"
proof -
  obtain r w1 where fl: "be_flush ctx (sleep_response_timeout ctx w) = (r, w1)"
    by (cases "be_flush ctx (sleep_response_timeout ctx w)")
  from be_flush_frame [OF fl] fl show ?thesis
    by (simp add: answer_world_def flushed_def sleep_response_timeout_def split: answer.splits)
qed

lemma reply_sent:
  assumes wf: "wf_mapping m" and len: "length rsp = 260" and n: "header_length s + 1 \<le> n" "n \<le> length q"
    and canonical: "canonical_header s q" and start: "start_fits (served_start (uint (q ! header_length s)) m)"
    and r: "modbus_reply (Some s) (Some q) (int n) (Some m) rsp w = Done (rc, s', m', w')" and pos: "0 < rc"
  shows "m' = Some (answer_mapping m (serve_request s q n m)) \<and>
    w_sent w' = w_sent w @ [answer_frame s q (serve_request s q n m)]"
proof -
  let ?ans = "serve_request s q n m"
  note eval = modbus_reply_value [OF wf len n canonical start, of w, unfolded Let_def]
  from r pos have "\<not> broadcast_silent s (uint (q ! (header_length s - 1)))" unfolding eval by auto
  with r obtain s1 where send: "send_frame s (answer_frame s q ?ans) (answer_world s ?ans w) = Done (rc, s1, w')"
      and m': "m' = Some (answer_mapping m ?ans)"
    unfolding eval by (auto elim!: obind_DoneE)
  from send_frame_result [OF send] pos m' show ?thesis by (auto simp: answer_world_sent)
qed

text \<open>Whatever the bytes and the claimed length of the request, the mapping keeps its shape.\<close>

lemma reply_keeps:
  assumes wf: "wf_mapping m" and start: "addressable m" and len: "length rsp = 260" and n: "n \<le> int (length req)"
    and r: "modbus_reply (Some ctx) (Some req) n (Some m) rsp w = Done (rc, ctx', m', w')"
  shows "(\<exists>m2. m' = Some m2 \<and> keeps m m2) \<and> (\<exists>c. ctx' = Some c \<and> relinked ctx c)"
proof (cases "n < int (header_length ctx + 1)")
  case True
  with r show ?thesis by (auto simp: modbus_reply_def)
next
  case False
  then obtain k where k: "n = int k" using nonneg_int_cases [of n] by force
  have kn: "header_length ctx + 1 \<le> k" "k \<le> length req" using False n k by simp_all
  let ?ans = "serve_request ctx req k m"
  from reply_response_answers [OF wf len kn addressable_start [OF start], of w] obtain j rsp' w1 sft body where
      resp: "reply_response ctx req n m rsp w = Done (j, rsp', answer_mapping m ?ans, w1)"
    and holds: "holds_pdu ctx (canonical_header ctx req) sft body j rsp'"
    unfolding k by (cases ?ans) (auto simp: answers_def answer_mapping_def)
  have slave: "rd req (header_length ctx - 1) = Done (req ! (header_length ctx - 1))"
    using kn by (intro rd_Done) linarith
  from r False slave resp have "m' = Some (answer_mapping m ?ans)" and "ctx' = Some ctx \<or> (\<exists>rc c msg w2. ctx' = Some c \<and> send_msg ctx rsp' j w1 = Done (rc, c, msg, w2))"
    by (auto simp: modbus_reply_def split: if_splits elim!: obind_DoneE)
  moreover have "relinked ctx c" if "send_msg ctx rsp' j w1 = Done (rc, c, msg, w2)" for rc c msg w2
    using that by (auto simp: send_msg_def split: if_splits elim!: obind_DoneE dest: send_loop_result)
  ultimately show ?thesis using serve_request_keeps by auto
qed

text \<open>A request with all the bytes that its function calls for.\<close>

definition whole_request :: "int \<Rightarrow> byte list \<Rightarrow> bool" where
  "whole_request f p \<longleftrightarrow>
     (f = 1 \<or> f = 2 \<or> f = 3 \<or> f = 4 \<or> f = 5 \<or> f = 6) \<and> length p = 4 \<or>
     (f = 15 \<or> f = 16) \<and> 5 \<le> length p \<and> length p = 5 + unat (p ! 4) \<or>
     f = 17 \<and> p = [] \<or> f = 22 \<and> length p = 6 \<or>
     f = 23 \<and> 9 \<le> length p \<and> length p = 9 + unat (p ! 8)"

lemma frame_payload:
  assumes "is_rtu s = is_rtu c"
  shows "\<exists>post. payload s (be_frame c sft p) = p @ post"
proof -
  have h: "header_length s = header_length c" using assms by (simp add: header_length_def)
  have "p = take (length p) (payload s (be_frame c sft p))" unfolding h by (simp only: be.frame_body)
  then show ?thesis by (metis append_take_drop_id)
qed

lemma whole_indication:
  fixes rest :: "byte list"
  assumes same: "is_rtu s = is_rtu c" and whole: "whole_request f p" and sft: "sft_function sft = f"
  defines "q \<equiv> be_frame c sft p @ rest"
  shows "uint (q ! header_length s) = f"
    and "length (be_frame c sft p) = header_length s + 1 + length p + checksum_length s"
    and "header_length s + 1 + meta_length s MSG_INDICATION q \<le> length (be_frame c sft p)"
    and "message_length s MSG_INDICATION q = length (be_frame c sft p)"
proof -
  let ?q = "be_frame c sft p" and ?h = "header_length s"
  have len: "header_length s = header_length c" "checksum_length s = checksum_length c"
    using same by (simp_all add: header_length_def checksum_length_def)
  show lq: "length ?q = ?h + 1 + length p + checksum_length s" unfolding len by (rule be.frame_length)
  have nth: "q ! (?h + 1 + i) = p ! i" if "i < length p" for i
    using that lq be.frame_body_nth [OF that, of c sft] unfolding q_def len [symmetric] by (simp add: nth_append)
  have cases: "f = 1 \<or> f = 2 \<or> f = 3 \<or> f = 4 \<or> f = 5 \<or> f = 6 \<or> f = 15 \<or> f = 16 \<or> f = 17 \<or> f = 22 \<or> f = 23"
    using whole by (auto simp: whole_request_def)
  have "q ! ?h = ?q ! ?h" using lq unfolding q_def by (simp add: nth_append)
  then show f: "uint (q ! ?h) = f" unfolding len be.frame_function using cases sft by (auto simp: uint_word_of_int)
  have meta: "meta_length s MSG_INDICATION q = compute_meta_length_after_function f MSG_INDICATION"
    by (simp only: meta_length_def f)
  have data: "data_length s MSG_INDICATION q =
      (if f = 15 \<or> f = 16 then unat (q ! (?h + 5)) else if f = 23 then unat (q ! (?h + 9)) else 0) + checksum_length s"
    by (simp only: data_length_def Let_def f simp_thms if_True)
  have c5: "q ! (?h + 5) = p ! 4" if "f = 15 \<or> f = 16"
    using nth [of 4] that whole by (auto simp: whole_request_def numeral_nat)
  have c9: "q ! (?h + 9) = p ! 8" if "f = 23"
    using nth [of 8] that whole by (auto simp: whole_request_def numeral_nat)
  have "length p = compute_meta_length_after_function f MSG_INDICATION +
      (if f = 15 \<or> f = 16 then unat (p ! 4) else if f = 23 then unat (p ! 8) else 0)"
    using whole by (auto simp: whole_request_def compute_meta_length_after_function_def)
  then show "?h + 1 + meta_length s MSG_INDICATION q \<le> length ?q" "message_length s MSG_INDICATION q = length ?q"
    unfolding message_length_def meta data lq using c5 c9 by (auto split: if_splits)
qed

lemma serve_whole:
  assumes same: "is_rtu s = is_rtu c" and whole: "whole_request f p" and sft: "sft_function sft = f"
  shows "\<exists>post. serve_request s (be_frame c sft p @ rest) (length (be_frame c sft p)) m = serve m True f (p @ post)"
proof -
  let ?q = "be_frame c sft p"
  note w = whole_indication(1,3,4) [OF assms, of rest] and w2 = whole_indication(2) [OF assms]
  have exact: "int (length ?q) = echo_length s f" if "f = 5 \<or> f = 6 \<or> f = 22"
    using that whole w2 by (auto simp: echo_length_def whole_request_def)
  obtain post where "payload s ?q = p @ post" using frame_payload [OF same] by blast
  with w2 have post: "payload s (?q @ rest) = p @ (post @ rest)" by simp
  have "serve_request s (?q @ rest) (length ?q) m = serve m (int (length ?q) = echo_length s f) f (p @ (post @ rest))"
    using w(2,3) unfolding serve_request_def Let_def w(1) post by simp
  moreover have "serve m (int (length ?q) = echo_length s f) f (p @ (post @ rest)) = serve m True f (p @ (post @ rest))"
    using exact by (auto simp: serve_def)
  ultimately show ?thesis by auto
qed

text \<open>The request as the server receives it.\<close>

lemma whole_complete:
  assumes "is_rtu s = is_rtu c" and "whole_request f p" and "sft_function sft = f" and "length p \<le> 252"
  shows "complete s MSG_INDICATION (be_frame c sft p)"
  using whole_indication(3,4) [OF assms(1-3), of "[]"] whole_indication(2) [OF assms(1-3)] assms(4)
  by (simp add: complete_def header_length_def checksum_length_def max_adu_length_def)

lemma received_whole:
  assumes complete: "complete s MSG_INDICATION q" and len: "length query = 260" and q: "2 \<le> length q"
    and rx: "w_rx w = map Rx_data cs @ es" "[] \<notin> set cs" "concat cs = q"
    and r: "modbus_receive (Some s) query w = Done (n, s1, query', w1)" and pos: "0 < n"
  shows "n = int (length q) \<and> s1 = Some s \<and> query' = q @ drop (length q) query \<and> w_sent w1 = w_sent w \<and> w_rx w1 = es"
proof -
  let ?buf = "q @ drop (length q) query"
  from r pos obtain s2 where msg: "modbus_receive_msg s query MSG_INDICATION w = Done (n, s2, query', w1)" and s2: "s1 = Some s2"
    by (cases "mb_backend s")
       (auto simp: modbus_receive_def be_receive_def modbus_rtu_receive_def modbus_tcp_receive_def Let_def
          split: if_splits elim!: obind_DoneE)
  from msg pos have fd: "0 \<le> mb_s s" "mb_s s < FD_SETSIZE"
    by (auto simp: modbus_receive_msg_def be_is_connected_eq split: if_splits)
  have room: "max_adu_length s \<le> length query" using len by simp
  have lq: "length q \<le> 260" using complete max_adu_bounds(2) [of s] unfolding complete_def by linarith
  from receive_msg_chunks [OF complete fd room rx] msg obtain a where
    "obind (be_check_integrity s ?buf (length q) (armed_and_read a es w)) (\<lambda>(rc, w). Done (rc, s, ?buf, w)) = Done (n, s2, query', w1)"
    by auto
  then have chk: "be_check_integrity s ?buf (length q) (armed_and_read a es w) = Done (n, w1)" and "s2 = s" "query' = ?buf"
    by (auto elim!: obind_DoneE)
  moreover have "length q \<le> length ?buf" "length q < 65536" using lq by simp_all
  from be_check_integrity_result [OF q this, of s "armed_and_read a es w"] chk pos
  have "n = int (length q)" "w1 = armed_and_read a es w" by auto
  ultimately show ?thesis using s2 by (simp add: armed_and_read_def)
qed

text \<open>
  A turn of the server: the request \<open>q\<close> came in chunks, \<open>modbus_receive\<close> accepted a message, and the
  run of \<open>modbus_reply\<close> on the buffer it filled sent the frame \<open>f\<close> and left the mapping \<open>m1\<close>.
\<close>

definition served :: "modbus \<Rightarrow> mapping \<Rightarrow> byte list \<Rightarrow> byte list \<Rightarrow> mapping \<Rightarrow> bool" where
  "served s m q f m1 \<longleftrightarrow>
     (\<exists>cs es w0 query n s1 query' w rsp rc s' w'.
        w_rx w0 = map Rx_data cs @ es \<and> [] \<notin> set cs \<and> concat cs = q \<and> length query = 260 \<and> length rsp = 260 \<and>
        modbus_receive (Some s) query w0 = Done (n, s1, query', w) \<and> 0 < n \<and>
        modbus_reply s1 (Some query') n (Some m) rsp w = Done (rc, s', Some m1, w') \<and>
        0 < rc \<and> w_sent w' = w_sent w0 @ [f])"

lemma served_answer:
  assumes served: "served s m (be_frame c sft p) fr m1" and wf: "wf_mapping m" and same: "is_rtu s = is_rtu c"
    and whole: "whole_request f p" and sft: "sft_function sft = f" and short: "length p \<le> 252"
    and ans: "\<And>post. serve m True f (p @ post) = Answer b m2"
  shows "fr = be_frame c sft b" and "m1 = m2"
proof -
  let ?q = "be_frame c sft p"
  from served obtain cs es w0 query n s1 query' w rsp rc s' w' where
        rx: "w_rx w0 = map Rx_data cs @ es" "[] \<notin> set cs" "concat cs = ?q" and len: "length query = 260" "length rsp = 260"
    and rcv: "modbus_receive (Some s) query w0 = Done (n, s1, query', w)" "0 < n"
    and r: "modbus_reply s1 (Some query') n (Some m) rsp w = Done (rc, s', Some m1, w')" and rc: "0 < rc"
    and sent: "w_sent w' = w_sent w0 @ [fr]" unfolding served_def by blast
  have q: "header_length s + 1 \<le> length ?q" "2 \<le> length ?q" using whole_indication(2) [OF same whole sft] header_checksum_bounds(1) [of s] by linarith+
  note got = received_whole [OF whole_complete [OF same whole sft short] len(1) q(2) rx rcv]
  let ?buf = "?q @ drop (length ?q) query"
  have buf: "length ?q \<le> length ?buf" by simp
  from got r have r: "modbus_reply (Some s) (Some ?buf) (int (length ?q)) (Some m) rsp w = Done (rc, s', Some m1, w')" by simp
  from serve_whole [OF same whole sft, of "drop (length ?q) query" m] ans
  have sr: "serve_request s ?buf (length ?q) m = Answer b m2" by auto
  have "canonical_header s ?buf" using header_append(2) [OF q(1)] frame_canonical [OF same] by simp
  from reply_sent [OF wf len(2) q(1) buf this serve_request_fits [OF sr wf] r rc] sent got show "m1 = m2" "fr = be_frame c sft b"
    by (simp_all add: sr answer_mapping_def answer_frame_def header_append(1) [OF q(1)] frame_of_identity [OF same])
qed

section \<open>The client of a server\<close>

text \<open>The frame of a request of the client, and a line that takes it whole and returns \<open>f\<close> in chunks.\<close>

definition request_frame :: "modbus \<Rightarrow> int \<Rightarrow> byte list \<Rightarrow> byte list" where
  "request_frame c f p = be_frame c (request_sft c f) p"

definition answered :: "modbus \<Rightarrow> byte list \<Rightarrow> byte list \<Rightarrow> world \<Rightarrow> bool" where
  "answered c q f w \<longleftrightarrow>
     (\<exists>w1 cs es. be_send c q w = Done (int (length q), w1) \<and>
        w_rx w = map Rx_data cs @ es \<and> [] \<notin> set cs \<and> concat cs = f)"

definition usable :: "modbus \<Rightarrow> bool" where
  "usable c \<longleftrightarrow> 1 \<le> mb_slave c \<and> mb_slave c \<le> 255 \<and> 0 \<le> mb_s c \<and> mb_s c < FD_SETSIZE"

lemma usable_slave: "usable c \<Longrightarrow> slave_set c"
  by (auto simp: usable_def slave_set_def)

lemma buffer_body:
  assumes "take (length (be_frame ctx sft b)) buf = be_frame ctx sft b"
  shows "\<exists>post. drop (header_length ctx + 1) buf = b @ post"
proof -
  let ?F = "be_frame ctx sft b"
  have "b = take (length b) (drop (header_length ctx + 1) ?F)" by (simp only: be.frame_body)
  also have "\<dots> = take (length b) (drop (header_length ctx + 1) (take (length ?F) buf))" by (simp only: assms)
  also have "\<dots> = take (length b) (drop (header_length ctx + 1) buf)"
    by (simp add: drop_take be.frame_length)
  finally show ?thesis by (metis append_take_drop_id)
qed

lemma exchange_served:
  assumes usable: "usable c" and req: "request_in c (request_sft c f) p n req1" and q: "header_length c + 5 \<le> length req1"
    and len: "length rsp = 260" and wf: "wf_mapping m" and same: "is_rtu s = is_rtu c"
    and whole: "whole_request f p" "length p \<le> 252" and fit: "fitting f p b" "length b \<le> 251"
    and ans: "\<And>post. serve m True f (p @ post) = Answer b m2"
    and served: "served s m (request_frame c f p) fr m1"
    and line: "answered (request_ctx c) (request_frame c f p) fr w"
  shows "\<exists>rsp' w' post. exchange (request_ctx c) req1 n rsp w = Done (fitting_count f p b, request_ctx c, rsp', w') \<and>
    length rsp' = 260 \<and> drop (header_length c + 1) rsp' = b @ post \<and>
    w_sent w' = w_sent w @ [request_frame c f p]" and "m1 = m2"
proof -
  let ?c = "request_ctx c" and ?sft = "request_sft c f"
  have sft: "sft_function ?sft = f" by simp
  note a = served_answer [OF served [unfolded request_frame_def] wf same whole(1) sft whole(2) ans]
  show "m1 = m2" by (rule a(2))
  have slave: "uint (word_of_int (sft_slave ?sft) :: byte) = mb_slave ?c"
    using usable by (simp add: usable_def request_sft_def uint_word_of_int)
  have link: "0 \<le> mb_s ?c" "mb_s ?c < FD_SETSIZE" using usable by (simp_all add: usable_def)
  from line [unfolded a(1) request_frame_def] obtain w1 cs es where
      send: "be_send ?c (be_frame ?c ?sft p) w = Done (int (length (be_frame ?c ?sft p)), w1)"
    and rx: "w_rx w = map Rx_data cs @ es" "[] \<notin> set cs" "concat cs = be_frame ?c ?sft b"
    by (auto simp: answered_def)
  from req have req': "request_in ?c ?sft p n req1" and q': "header_length ?c + 5 \<le> length req1" using q by simp_all
  from exchange_answered [OF req' q' len fit sft slave link send rx] obtain rsp' w' where
      "exchange ?c req1 n rsp w = Done (fitting_count f p b, ?c, rsp', w')" "length rsp' = 260"
      "take (length (be_frame c ?sft b)) rsp' = be_frame c ?sft b" "w_sent w' = w_sent w @ [be_frame c ?sft p]" by auto
  with buffer_body [of c ?sft b rsp'] show "\<exists>rsp' w' post. exchange ?c req1 n rsp w = Done (fitting_count f p b, ?c, rsp', w') \<and>
    length rsp' = 260 \<and> drop (header_length c + 1) rsp' = b @ post \<and>
    w_sent w' = w_sent w @ [request_frame c f p]" unfolding request_frame_def by blast
qed

lemma regs_of_bytes_append: "regs_of_bytes (bytes_of_regs xs @ ys) = xs @ regs_of_bytes ys"
  by (induction xs) simp_all

text \<open>The arguments of a request as the server reads them.\<close>

lemma arg_req4:
  "arg (req4 addr nb @ rest) 0 = addr mod 65536" "arg (req4 addr nb @ rest) 2 = nb mod 65536"
  by (simp_all add: arg_def be16_int_bytes numeral_nat)

text \<open>A call whose request is an address and a number.\<close>

lemma args_served:
  assumes usable: "usable c" and len: "length req = 12" "length rsp = 260"
    and wf: "wf_mapping m" and same: "is_rtu s = is_rtu c"
    and whole: "whole_request f (req4 addr nb)" and fit: "fitting f (req4 addr nb) b" "length b \<le> 251"
    and ans: "\<And>post. serve m True f (req4 addr nb @ post) = Answer b m2"
    and served: "served s m (request_frame c f (req4 addr nb)) fr m1"
    and line: "answered (request_ctx c) (request_frame c f (req4 addr nb)) fr w"
  shows "\<exists>req1 rsp' w' post. be_build_request_basis c f addr nb req = Done (header_length c + 5, request_ctx c, req1) \<and>
    exchange (request_ctx c) req1 (header_length c + 5) rsp w = Done (fitting_count f (req4 addr nb) b, request_ctx c, rsp', w') \<and>
    length rsp' = 260 \<and> drop (header_length c + 1) rsp' = b @ post \<and>
    w_sent w' = w_sent w @ [request_frame c f (req4 addr nb)]" and "m1 = m2"
proof -
  let ?h = "header_length c"
  have "?h + 5 + checksum_length c \<le> length req" using len header_checksum_bounds(4) [of c] by linarith
  from request_basis_holds [OF usable_slave [OF usable] this, of f addr nb] obtain req1 where
      basis: "be_build_request_basis c f addr nb req = Done (?h + 5, request_ctx c, req1)"
    and l1: "length req1 = length req"
    and r1: "request_in c (request_sft c f) (req4 addr nb) (?h + 5) req1" by blast
  have q: "?h + 5 \<le> length req1" using l1 len header_checksum_bounds(2) [of c] by linarith
  have short: "length (req4 addr nb) \<le> 252" by simp
  note served' = exchange_served [OF usable r1 q len(2) wf same whole short fit ans served line]
  from served'(2) show "m1 = m2" .
  from served'(1) basis show "\<exists>req1 rsp' w' post. be_build_request_basis c f addr nb req = Done (?h + 5, request_ctx c, req1) \<and>
    exchange (request_ctx c) req1 (?h + 5) rsp w = Done (fitting_count f (req4 addr nb) b, request_ctx c, rsp', w') \<and>
    length rsp' = 260 \<and> drop (?h + 1) rsp' = b @ post \<and>
    w_sent w' = w_sent w @ [request_frame c f (req4 addr nb)]" by blast
qed

lemma read_registers_served:
  assumes usable: "usable c" and len: "length req = 12" "length rsp = 260"
    and wf: "wf_mapping m" and same: "is_rtu s = is_rtu c"
    and nb: "1 \<le> nb" "nb \<le> 125" "nat nb \<le> length d" and addr: "0 \<le> addr" "addr < 65536"
    and f: "f = 3 \<and> start = mp_start_registers m \<and> tab = mp_tab_registers m \<or>
            f = 4 \<and> start = mp_start_input_registers m \<and> tab = mp_tab_input_registers m"
    and inside: "in_table start tab addr nb"
    and served: "served s m (request_frame c f (req4 addr nb)) fr m1"
    and line: "answered (request_ctx c) (request_frame c f (req4 addr nb)) fr w"
  shows "\<exists>w'. read_registers c f addr nb d req rsp w =
      Done (nb, request_ctx c, slice start tab addr nb @ drop (nat nb) d, w') \<and>
      w_sent w' = w_sent w @ [request_frame c f (req4 addr nb)]"
    and "m1 = m"
proof -
  let ?h = "header_length c"
  define xs where "xs = slice start tab addr nb"
  define b where "b = (word_of_int (2 * nb) :: byte) # bytes_of_regs xs"
  have lx: "length xs = nat nb" using inside by (auto simp: xs_def slice_def in_table_def)
  have args: "arg (req4 addr nb @ post) 0 = addr" "arg (req4 addr nb @ post) 2 = nb" for post
    using nb addr by (simp_all only: arg_req4) simp_all
  have ans: "serve m True f (req4 addr nb @ post) = Answer b m" for post
    using f inside nb by (elim disjE) (simp_all add: serve_def serve_registers_def args b_def xs_def del: append_Cons append_Nil)
  have bc: "uint (word_of_int (2 * nb) :: byte) = 2 * nb" unfolding uint_word_of_int using nb by simp
  have fit: "fitting f (req4 addr nb) b" "length b \<le> 251"
    using f nb lx args [of "[]"] bc by (auto simp: fitting_def b_def)
  have whole: "whole_request f (req4 addr nb)" using f by (auto simp: whole_request_def)
  note served' = args_served [OF usable len wf same whole fit ans served line]
  from served'(2) show "m1 = m" .
  from served'(1) obtain req1 rsp' w' post where
      basis: "be_build_request_basis c f addr nb req = Done (?h + 5, request_ctx c, req1)"
    and e: "exchange (request_ctx c) req1 (?h + 5) rsp w = Done (fitting_count f (req4 addr nb) b, request_ctx c, rsp', w')"
    and l: "length rsp' = 260" and body: "drop (?h + 1) rsp' = b @ post"
    and sent: "w_sent w' = w_sent w @ [request_frame c f (req4 addr nb)]" by blast
  have count: "fitting_count f (req4 addr nb) b = int (nat nb)"
    using f args [of "[]"] nb by (auto simp: fitting_count_def)
  have "drop (?h + 2) rsp' = drop 1 (drop (?h + 1) rsp')" by simp
  also have "\<dots> = bytes_of_regs xs @ post" unfolding body b_def by simp
  finally have regs: "take (nat nb) (regs_of_bytes (drop (?h + 2) rsp')) = xs"
    using lx by (simp add: regs_of_bytes_append)
  have room: "?h + 2 + 2 * nat nb \<le> length rsp'" using l nb header_checksum_bounds(2) [of c] by linarith
  have "\<not> nb > MODBUS_MAX_READ_REGISTERS" using nb by simp
  then have "read_registers c f addr nb d req rsp w = Done (nb, request_ctx c, xs @ drop (nat nb) d, w')"
    using copy_registers_value [OF room nb(3), unfolded regs] nb
    by (simp add: read_registers_def basis e count)
  with sent show "\<exists>w'. read_registers c f addr nb d req rsp w =
      Done (nb, request_ctx c, slice start tab addr nb @ drop (nat nb) d, w') \<and>
      w_sent w' = w_sent w @ [request_frame c f (req4 addr nb)]" by (simp add: xs_def)
qed

text \<open>Unpacking looks at no byte behind the last one.\<close>

lemma unpack_bits_prefix: "n \<le> 8 * length bs \<Longrightarrow> unpack_bits n (bs @ post) = unpack_bits n bs"
  unfolding unpack_bits_def by (rule map_cong [OF refl]) (auto simp: nth_append)

lemma read_bits_served:
  assumes usable: "usable c" and len: "length req = 12" "length rsp = 260"
    and wf: "wf_mapping m" and same: "is_rtu s = is_rtu c"
    and nb: "1 \<le> nb" "nb \<le> 2000" "nat nb \<le> length d" and addr: "0 \<le> addr" "addr < 65536"
    and f: "f = 1 \<and> start = mp_start_bits m \<and> tab = mp_tab_bits m \<or>
            f = 2 \<and> start = mp_start_input_bits m \<and> tab = mp_tab_input_bits m"
    and inside: "in_table start tab addr nb" and bits: "set tab \<subseteq> {0, 1}"
    and served: "served s m (request_frame c f (req4 addr nb)) fr m1"
    and line: "answered (request_ctx c) (request_frame c f (req4 addr nb)) fr w"
  shows "\<exists>w'. read_io_status c f addr nb d req rsp w =
      Done ((nb + 7) div 8, request_ctx c, slice start tab addr nb @ drop (nat nb) d, w') \<and>
      w_sent w' = w_sent w @ [request_frame c f (req4 addr nb)]"
    and "m1 = m"
proof -
  let ?h = "header_length c" and ?n = "(nat nb + 7) div 8"
  define xs where "xs = slice start tab addr nb"
  define b where "b = (word_of_int ((nb + 7) div 8) :: byte) # pack_bits xs"
  have lx: "length xs = nat nb" using inside by (auto simp: xs_def slice_def in_table_def)
  have xs01: "set xs \<subseteq> {0, 1}" using bits by (auto simp: xs_def slice_def dest: in_set_takeD in_set_dropD)
  have args: "arg (req4 addr nb @ post) 0 = addr" "arg (req4 addr nb @ post) 2 = nb" for post
    using nb addr by (simp_all only: arg_req4) simp_all
  have ans: "serve m True f (req4 addr nb @ post) = Answer b m" for post
    using f inside nb by (elim disjE) (simp_all add: serve_def serve_bits_def args b_def xs_def del: append_Cons append_Nil)
  have bytes: "int ?n = (nb + 7) div 8" "?n \<le> 250"
  proof -
    show "int ?n = (nb + 7) div 8" using nb by (simp add: zdiv_int)
    have "?n \<le> 2007 div 8" using nb by (intro div_le_mono) simp
    then show "?n \<le> 250" by simp
  qed
  have bc: "uint (word_of_int ((nb + 7) div 8) :: byte) = (nb + 7) div 8"
    unfolding uint_word_of_int bytes(1) [symmetric] using bytes(2) by simp
  have lb: "length b = 1 + ?n" using lx by (simp add: b_def length_pack_bits)
  have fit: "fitting f (req4 addr nb) b" "length b \<le> 251"
    using f args [of "[]"] bc lb bytes by (auto simp: fitting_def b_def)
  have whole: "whole_request f (req4 addr nb)" using f by (auto simp: whole_request_def)
  note served' = args_served [OF usable len wf same whole fit ans served line]
  from served'(2) show "m1 = m" .
  from served'(1) obtain req1 rsp' w' post where
      basis: "be_build_request_basis c f addr nb req = Done (?h + 5, request_ctx c, req1)"
    and e: "exchange (request_ctx c) req1 (?h + 5) rsp w = Done (fitting_count f (req4 addr nb) b, request_ctx c, rsp', w')"
    and l: "length rsp' = 260" and body: "drop (?h + 1) rsp' = b @ post"
    and sent: "w_sent w' = w_sent w @ [request_frame c f (req4 addr nb)]" by blast
  have count: "fitting_count f (req4 addr nb) b = int ?n"
    using f args [of "[]"] bytes(1) by (auto simp: fitting_count_def)
  have "drop (?h + 2) rsp' = drop 1 (drop (?h + 1) rsp')" by simp
  also have "\<dots> = pack_bits xs @ post" unfolding body b_def by simp
  finally have tail: "drop (?h + 2) rsp' = pack_bits xs @ post" .
  have "unpack_bits (nat nb) (drop (?h + 2) rsp') = unpack_bits (nat nb) (pack_bits xs)"
    unfolding tail using lx by (intro unpack_bits_prefix) (simp add: length_pack_bits)
  also have "\<dots> = xs" by (rule unpack_pack_bits [OF xs01 lx [symmetric]])
  finally have regs: "unpack_bits (nat nb) (drop (?h + 2) rsp') = xs" .
  have room: "?h + 2 + ?n \<le> length rsp'" using l bytes(2) header_checksum_bounds(2) [of c] by linarith
  have "nat nb \<le> 8 * ?n"
    using div_mult_mod_eq [of "nat nb + 7" 8] mod_less_divisor [of 8 "nat nb + 7"] by linarith
  then have "copy_bits rsp' (?h + 2) (int ?n) (int (nat nb)) d = Done (xs @ drop (nat nb) d)"
    unfolding copy_bits_value [OF room nb(3)] Let_def by (simp only: min_absorb2 regs)
  then have "read_io_status c f addr nb d req rsp w = Done (int ?n, request_ctx c, xs @ drop (nat nb) d, w')"
    using nb by (simp add: read_io_status_def basis e count del: of_nat_div)
  with sent bytes(1) show "\<exists>w'. read_io_status c f addr nb d req rsp w =
      Done ((nb + 7) div 8, request_ctx c, slice start tab addr nb @ drop (nat nb) d, w') \<and>
      w_sent w' = w_sent w @ [request_frame c f (req4 addr nb)]" by (simp add: xs_def)
qed

text \<open>Writing: the count is what was asked for and the mapping of the server has the values.\<close>

lemma write_registers_served:
  assumes usable: "usable c" and len: "length req = 260" "length rsp = 260"
    and wf: "wf_mapping m" and same: "is_rtu s = is_rtu c"
    and nb: "1 \<le> nb" "nb \<le> 123" "nat nb \<le> length src" and addr: "0 \<le> addr" "addr < 65536"
    and inside: "in_table (mp_start_registers m) (mp_tab_registers m) addr nb"
    and q: "q = request_frame c 16 (req4 addr nb @ word_of_int (nb * 2) # bytes_of_regs (take (nat nb) src))"
    and served: "served s m q fr m1" and line: "answered (request_ctx c) q fr w"
  shows "\<exists>w'. modbus_write_registers (Some c) addr nb (Some src) req rsp w = Done (nb, Some (request_ctx c), w') \<and>
      w_sent w' = w_sent w @ [q]"
    and "m1 = m\<lparr>mp_tab_registers := overwrite (mp_start_registers m) (mp_tab_registers m) addr (take (nat nb) src)\<rparr>"
proof -
  define xs where "xs = take (nat nb) src"
  let ?rest = "word_of_int (nb * 2) # bytes_of_regs xs"
  let ?p = "req4 addr nb @ ?rest" and ?m = "m\<lparr>mp_tab_registers := overwrite (mp_start_registers m) (mp_tab_registers m) addr xs\<rparr>"
  have lx: "length xs = nat nb" using nb by (simp add: xs_def)
  have args: "arg (?p @ post) 0 = addr" "arg (?p @ post) 2 = nb" for post
    using nb addr by (simp_all only: arg_req4 append_assoc) simp_all
  have bc: "uint (word_of_int (nb * 2) :: byte) = nb * 2" unfolding uint_word_of_int using nb by simp
  have p4: "(?p @ post) ! 4 = word_of_int (nb * 2)" "drop 5 (?p @ post) = bytes_of_regs xs @ post"
    "take 4 (?p @ post) = req4 addr nb" for post
    by (simp_all add: numeral_nat)
  have ans: "serve m True 16 (?p @ post) = Answer (req4 addr nb) ?m" for post
  proof -
    have "\<not> (nb < 1 \<or> 123 < nb \<or> uint (word_of_int (nb * 2) :: byte) \<noteq> nb * 2)" using nb bc by simp
    then show ?thesis
      using inside lx by (simp only: serve_def serve_write_registers_def Let_def args p4) (simp add: regs_of_bytes_append)
  qed
  have fit: "fitting 16 ?p (req4 addr nb)" "length (req4 addr nb) \<le> 251"
    using p4 [of "[]"] by (simp_all add: fitting_def)
  have "unat (word_of_int (nb * 2) :: byte) = 2 * nat nb"
    using bc nb by (metis nat_mult_distrib uint_nat nat_int mult.commute nat_numeral zero_le_numeral)
  then have whole: "whole_request 16 ?p" using lx p4(1) [of "[]"] by (simp add: whole_request_def)
  have short: "length ?p \<le> 252" using lx nb by simp
  from write_registers_exchange [OF usable_slave [OF usable] len nb, of addr w] obtain req2 n where
      eq: "modbus_write_registers (Some c) addr nb (Some src) req rsp w =
        obind (exchange (request_ctx c) req2 n rsp w) (\<lambda>(rc, c, rsp, w). Done (rc, Some c, w))"
    and r: "request_in c (request_sft c 16) ?p n req2" and q5: "header_length c + 5 \<le> length req2"
    unfolding xs_def by blast
  note served' = exchange_served [OF usable r q5 len(2) wf same whole short fit ans served [unfolded q xs_def [symmetric]]
      line [unfolded q xs_def [symmetric]]]
  from served'(2) show "m1 = m\<lparr>mp_tab_registers := overwrite (mp_start_registers m) (mp_tab_registers m) addr (take (nat nb) src)\<rparr>"
    unfolding xs_def .
  have "fitting_count 16 ?p (req4 addr nb) = nb" using args [of "[]"] by (simp add: fitting_count_def)
  with served'(1) show "\<exists>w'. modbus_write_registers (Some c) addr nb (Some src) req rsp w = Done (nb, Some (request_ctx c), w') \<and>
      w_sent w' = w_sent w @ [q]" by (auto simp: eq q xs_def)
qed

lemma write_bits_served:
  assumes usable: "usable c" and len: "length req = 260" "length rsp = 260"
    and wf: "wf_mapping m" and same: "is_rtu s = is_rtu c"
    and nb: "1 \<le> nb" "nb \<le> 1968" "nat nb \<le> length src" and addr: "0 \<le> addr" "addr < 65536"
    and inside: "in_table (mp_start_bits m) (mp_tab_bits m) addr nb"
    and q: "q = request_frame c 15 (req4 addr nb @ word_of_int ((nb + 7) div 8) # pack_bits (map as_bit (take (nat nb) src)))"
    and served: "served s m q fr m1" and line: "answered (request_ctx c) q fr w"
  shows "\<exists>w'. modbus_write_bits (Some c) addr nb (Some src) req rsp w = Done (nb, Some (request_ctx c), w') \<and>
      w_sent w' = w_sent w @ [q]"
    and "m1 = m\<lparr>mp_tab_bits := overwrite (mp_start_bits m) (mp_tab_bits m) addr (map as_bit (take (nat nb) src))\<rparr>"
proof -
  define xs where "xs = map as_bit (take (nat nb) src)"
  let ?n = "(nat nb + 7) div 8"
  let ?rest = "word_of_int ((nb + 7) div 8) # pack_bits xs"
  let ?p = "req4 addr nb @ ?rest" and ?m = "m\<lparr>mp_tab_bits := overwrite (mp_start_bits m) (mp_tab_bits m) addr xs\<rparr>"
  have lx: "length xs = nat nb" using nb by (simp add: xs_def)
  have lp: "length (pack_bits xs) = ?n" by (simp add: length_pack_bits lx)
  have bytes: "int ?n = (nb + 7) div 8" "?n \<le> 246" "nat nb \<le> 8 * ?n"
  proof -
    show "int ?n = (nb + 7) div 8" using nb by (simp add: zdiv_int)
    have "?n \<le> 1975 div 8" using nb by (intro div_le_mono) simp
    then show "?n \<le> 246" by simp
    show "nat nb \<le> 8 * ?n"
      using div_mult_mod_eq [of "nat nb + 7" 8] mod_less_divisor [of 8 "nat nb + 7"] by linarith
  qed
  have args: "arg (?p @ post) 0 = addr" "arg (?p @ post) 2 = nb" for post
    using nb addr by (simp_all only: arg_req4 append_assoc) simp_all
  have bc: "uint (word_of_int ((nb + 7) div 8) :: byte) = int ?n"
    unfolding uint_word_of_int bytes(1) [symmetric] using bytes(2) by simp
  have p4: "(?p @ post) ! 4 = word_of_int ((nb + 7) div 8)" "drop 5 (?p @ post) = pack_bits xs @ post"
    "take 4 (?p @ post) = req4 addr nb" for post
    by (simp_all add: numeral_nat)
  have "unpack_bits (nat nb) (pack_bits xs @ post) = xs" for post
  proof -
    have "unpack_bits (nat nb) (pack_bits xs @ post) = unpack_bits (nat nb) (pack_bits xs)"
      by (rule unpack_bits_prefix) (use bytes(3) lp in linarith)
    also have "\<dots> = xs" unfolding xs_def by (rule unpack_pack_bits [OF set_as_bit]) (use nb in simp)
    finally show ?thesis .
  qed
  note unpack = this
  have ans: "serve m True 15 (?p @ post) = Answer (req4 addr nb) ?m" for post
  proof -
    have "\<not> (nb < 1 \<or> 1968 < nb \<or> uint (word_of_int ((nb + 7) div 8) :: byte) * 8 < nb)"
      unfolding bc using nb bytes(3) by linarith
    then show ?thesis
      using inside by (simp only: serve_def serve_write_coils_def Let_def args p4 unpack) simp
  qed
  have fit: "fitting 15 ?p (req4 addr nb)" "length (req4 addr nb) \<le> 251"
    using p4 [of "[]"] by (simp_all add: fitting_def)
  have "unat (word_of_int ((nb + 7) div 8) :: byte) = ?n" using bc by (metis uint_nat of_nat_eq_iff)
  then have whole: "whole_request 15 ?p" using lp p4(1) [of "[]"] by (simp add: whole_request_def)
  have short: "length ?p \<le> 252" using lp nb by simp
  from write_bits_exchange [OF usable_slave [OF usable] len nb, of addr w] obtain req2 n where
      eq: "modbus_write_bits (Some c) addr nb (Some src) req rsp w =
        obind (exchange (request_ctx c) req2 n rsp w) (\<lambda>(rc, c, rsp, w). Done (rc, Some c, w))"
    and r: "request_in c (request_sft c 15) ?p n req2" and q5: "header_length c + 5 \<le> length req2"
    unfolding xs_def by blast
  note served' = exchange_served [OF usable r q5 len(2) wf same whole short fit ans served [unfolded q xs_def [symmetric]]
      line [unfolded q xs_def [symmetric]]]
  from served'(2) show "m1 = m\<lparr>mp_tab_bits := overwrite (mp_start_bits m) (mp_tab_bits m) addr (map as_bit (take (nat nb) src))\<rparr>"
    unfolding xs_def .
  have "fitting_count 15 ?p (req4 addr nb) = nb" using args [of "[]"] by (simp add: fitting_count_def)
  with served'(1) show "\<exists>w'. modbus_write_bits (Some c) addr nb (Some src) req rsp w = Done (nb, Some (request_ctx c), w') \<and>
      w_sent w' = w_sent w @ [q]" by (auto simp: eq q xs_def)
qed

lemma write_single_served:
  assumes usable: "usable c" and len: "length req = 12" "length rsp = 260"
    and wf: "wf_mapping m" and same: "is_rtu s = is_rtu c" and f: "f = 5 \<or> f = 6"
    and ans: "\<And>post. serve m True f (req4 addr (uint value) @ post) = Answer (req4 addr (uint value)) m2"
    and served: "served s m (request_frame c f (req4 addr (uint value))) fr m1"
    and line: "answered (request_ctx c) (request_frame c f (req4 addr (uint value))) fr w"
  shows "\<exists>w'. write_single (Some c) f addr value req rsp w = Done (1, Some (request_ctx c), w') \<and>
      w_sent w' = w_sent w @ [request_frame c f (req4 addr (uint value))]" and "m1 = m2"
proof -
  have whole: "whole_request f (req4 addr (uint value))" using f by (auto simp: whole_request_def)
  have fit: "fitting f (req4 addr (uint value)) (req4 addr (uint value))" "length (req4 addr (uint value)) \<le> 251"
    using f by (auto simp: fitting_def)
  note served' = args_served [OF usable len wf same whole fit ans served line]
  from served'(2) show "m1 = m2" .
  have "fitting_count f (req4 addr (uint value)) (req4 addr (uint value)) = 1" using f by (auto simp: fitting_count_def)
  with served'(1) show "\<exists>w'. write_single (Some c) f addr value req rsp w = Done (1, Some (request_ctx c), w') \<and>
      w_sent w' = w_sent w @ [request_frame c f (req4 addr (uint value))]"
    by (auto simp: write_single_def)
qed

lemma write_register_served:
  assumes usable: "usable c" and len: "length req = 12" "length rsp = 260"
    and wf: "wf_mapping m" and same: "is_rtu s = is_rtu c" and addr: "0 \<le> addr" "addr < 65536"
    and inside: "in_table (mp_start_registers m) (mp_tab_registers m) addr 1"
    and served: "served s m (request_frame c 6 (req4 addr (uint value))) fr m1"
    and line: "answered (request_ctx c) (request_frame c 6 (req4 addr (uint value))) fr w"
  shows "\<exists>w'. modbus_write_register (Some c) addr value req rsp w = Done (1, Some (request_ctx c), w') \<and>
      w_sent w' = w_sent w @ [request_frame c 6 (req4 addr (uint value))]"
    and "m1 = m\<lparr>mp_tab_registers := overwrite (mp_start_registers m) (mp_tab_registers m) addr [value]\<rparr>"
proof -
  let ?m = "m\<lparr>mp_tab_registers := overwrite (mp_start_registers m) (mp_tab_registers m) addr [value]\<rparr>"
  have args: "arg (req4 addr (uint value) @ post) 0 = addr" "arg (req4 addr (uint value) @ post) 2 = uint value" for post
    using addr u16_bounds [of "value"] by (simp_all only: arg_req4) simp_all
  have ans: "serve m True 6 (req4 addr (uint value) @ post) = Answer (req4 addr (uint value)) ?m" for post
    using inside by (simp only: serve_def serve_write_register_def args) simp
  note w = write_single_served [OF usable len wf same _ ans served line]
  show "m1 = ?m" by (rule w(2)) simp
  from w(1) show "\<exists>w'. modbus_write_register (Some c) addr value req rsp w = Done (1, Some (request_ctx c), w') \<and>
      w_sent w' = w_sent w @ [request_frame c 6 (req4 addr (uint value))]"
    by (simp add: modbus_write_register_def)
qed

lemma write_bit_served:
  fixes status :: int
  defines "value \<equiv> (if status \<noteq> 0 then 0xFF00 else 0) :: u16"
  assumes usable: "usable c" and len: "length req = 12" "length rsp = 260"
    and wf: "wf_mapping m" and same: "is_rtu s = is_rtu c" and addr: "0 \<le> addr" "addr < 65536"
    and inside: "in_table (mp_start_bits m) (mp_tab_bits m) addr 1"
    and served: "served s m (request_frame c 5 (req4 addr (uint value))) fr m1"
    and line: "answered (request_ctx c) (request_frame c 5 (req4 addr (uint value))) fr w"
  shows "\<exists>w'. modbus_write_bit (Some c) addr status req rsp w = Done (1, Some (request_ctx c), w') \<and>
      w_sent w' = w_sent w @ [request_frame c 5 (req4 addr (uint value))]"
    and "m1 = m\<lparr>mp_tab_bits := overwrite (mp_start_bits m) (mp_tab_bits m) addr [if status \<noteq> 0 then 1 else 0]\<rparr>"
proof -
  let ?m = "m\<lparr>mp_tab_bits := overwrite (mp_start_bits m) (mp_tab_bits m) addr [if status \<noteq> 0 then 1 else 0]\<rparr>"
  have args: "arg (req4 addr (uint value) @ post) 0 = addr" "arg (req4 addr (uint value) @ post) 2 = uint value" for post
    using addr u16_bounds [of "value"] by (simp_all only: arg_req4) simp_all
  have v: "uint value = (if status \<noteq> 0 then 0xFF00 else 0)" by (simp add: value_def)
  have ans: "serve m True 5 (req4 addr (uint value) @ post) = Answer (req4 addr (uint value)) ?m" for post
    using inside by (simp only: serve_def serve_write_coil_def args) (simp add: v)
  note w = write_single_served [OF usable len wf same _ ans served line]
  show "m1 = ?m" by (rule w(2)) simp
  from w(1) show "\<exists>w'. modbus_write_bit (Some c) addr status req rsp w = Done (1, Some (request_ctx c), w') \<and>
      w_sent w' = w_sent w @ [request_frame c 5 (req4 addr (uint value))]"
    by (simp add: modbus_write_bit_def value_def)
qed

end
