(* ===== verification/Mb_New.thy ===== *)
theory Mb_New
  imports Mb_Connect Mb_Mapping Mb_Data
begin

text \<open>
  The constructors and the release of contexts (modbus-rtu.c, modbus-tcp.c, \<open>modbus_free\<close> of
  modbus.c). A string argument is a list of characters without its NUL, NULL is \<open>None\<close>; memory that
  the code leaves uninitialised is an argument. The heap is the one of the mapping: every
  \<open>malloc\<close> and \<open>strdup\<close> may fail, and the lemmas say that no block is lost.
\<close>

section \<open>Release\<close>

text \<open>
  The \<open>free\<close> operations, on what the constructors have allocated so far: \<open>None\<close> stands for the NULL
  pointers \<open>backend_data\<close>, \<open>device\<close>, \<open>node\<close> and \<open>service\<close>.
\<close>

definition modbus_rtu_free :: "string option option \<Rightarrow> heap \<times> world \<Rightarrow> heap \<times> world" where
  "modbus_rtu_free backend_data st =
     (let st = (case backend_data of
          None \<Rightarrow> st
        | Some device \<Rightarrow>
            let st = (case device of None \<Rightarrow> st | Some _ \<Rightarrow> free Blk_device st) in free Blk_backend_data st)
      in free Blk_ctx st)"

definition modbus_tcp_free :: "unit option \<Rightarrow> heap \<times> world \<Rightarrow> heap \<times> world" where
  "modbus_tcp_free backend_data st =
     (let st = (case backend_data of None \<Rightarrow> st | Some _ \<Rightarrow> free Blk_backend_data st) in free Blk_ctx st)"

definition modbus_tcp_pi_free :: "(string option \<times> string option) option \<Rightarrow> heap \<times> world \<Rightarrow> heap \<times> world" where
  "modbus_tcp_pi_free backend_data st =
     (let st = (case backend_data of
          None \<Rightarrow> st
        | Some (node, service) \<Rightarrow>
            let st = (case node of None \<Rightarrow> st | Some _ \<Rightarrow> free Blk_node st);
                st = (case service of None \<Rightarrow> st | Some _ \<Rightarrow> free Blk_service st)
            in free Blk_backend_data st)
      in free Blk_ctx st)"

definition be_free :: "modbus \<Rightarrow> heap \<times> world \<Rightarrow> heap \<times> world" where
  "be_free ctx st =
     (case mb_backend ctx of
        Rtu r \<Rightarrow> modbus_rtu_free (Some (Some (rtu_device r))) st
      | Tcp t \<Rightarrow> modbus_tcp_free (Some ()) st
      | TcpPi t \<Rightarrow> modbus_tcp_pi_free (Some (Some (pi_node t), Some (pi_service t))) st)"

definition modbus_free :: "modbus option \<Rightarrow> heap \<times> world \<Rightarrow> heap \<times> world" where
  "modbus_free ctx st = (case ctx of None \<Rightarrow> st | Some c \<Rightarrow> be_free c st)"

section \<open>Constructors\<close>

text \<open>The fields of \<open>modbus_t\<close> before \<open>_modbus_init_common\<close> are arbitrary; the backend is set by each constructor.\<close>

definition common_ctx :: "int \<Rightarrow> backend_data \<Rightarrow> modbus \<Rightarrow> modbus" where
  "common_ctx slave d junk = (modbus_init_common junk)\<lparr>mb_slave := slave, mb_backend := d\<rparr>"

definition modbus_new_rtu ::
    "string option \<Rightarrow> int \<Rightarrow> char \<Rightarrow> int \<Rightarrow> int \<Rightarrow> modbus \<Rightarrow> termios \<Rightarrow> heap \<times> world \<Rightarrow> modbus option \<times> heap \<times> world" where
  "modbus_new_rtu device baud parity data_bit stop_bit junk tios st =
     (case device of
        None \<Rightarrow> (None, apsnd (set_errno EINVAL) st)
      | Some dev \<Rightarrow>
      if dev = [] then (None, apsnd (set_errno EINVAL) st)
      else if baud \<le> 0 then (None, apsnd (set_errno EINVAL) st)
      else if data_bit < 5 \<or> data_bit > 8 then (None, apsnd (set_errno EINVAL) st)
      else if stop_bit \<noteq> 1 \<and> stop_bit \<noteq> 2 then (None, apsnd (set_errno EINVAL) st)
      else case malloc Blk_ctx st of (ok, st) \<Rightarrow>
      if \<not> ok then (None, st)
      else case malloc Blk_backend_data st of (ok, st) \<Rightarrow>
      if \<not> ok then (None, apsnd (set_errno ENOMEM) (modbus_rtu_free None st))
      else case malloc Blk_device st of (ok, st) \<Rightarrow>
      if \<not> ok then (None, apsnd (set_errno ENOMEM) (modbus_rtu_free (Some None) st))
      else if \<not> (parity = CHR ''N'' \<or> parity = CHR ''E'' \<or> parity = CHR ''O'')
      then (None, apsnd (set_errno EINVAL) (modbus_rtu_free (Some (Some dev)) st))
      else
        let onebyte_time = 1000000 * (1 + data_bit + (if parity = CHR ''N'' then 0 else 1) + stop_bit) div baud in
        (Some (common_ctx (-1)
           (Rtu \<lparr>rtu_device = dev, rtu_baud = baud, rtu_data_bit = word_of_int data_bit,
                 rtu_stop_bit = word_of_int stop_bit, rtu_parity = parity, rtu_serial_mode = MODBUS_RTU_RS232,
                 rtu_rts = MODBUS_RTU_RTS_NONE, rtu_rts_delay = onebyte_time, rtu_onebyte_time = onebyte_time,
                 rtu_set_rts = Rtu_ioctl_rts, rtu_old_tios = tios, rtu_confirmation_to_ignore = False\<rparr>) junk), st))"

text \<open>The array \<open>ip[16]\<close> of the TCP context; \<open>string_of\<close> reads it up to its NUL.\<close>

definition c_string :: "string \<Rightarrow> byte list" where
  "c_string s = map of_char s @ [0]"

definition string_of :: "byte list \<Rightarrow> string" where
  "string_of bs = map (\<lambda>b. char_of (unat b)) (takeWhile (\<lambda>b. b \<noteq> 0) bs)"

definition modbus_new_tcp ::
    "string option \<Rightarrow> int \<Rightarrow> modbus \<Rightarrow> byte list \<Rightarrow> heap \<times> world \<Rightarrow> (modbus option \<times> heap \<times> world) outcome" where
  "modbus_new_tcp ip port junk junk_ip st =
     (case malloc Blk_ctx st of (ok, st) \<Rightarrow>
      if \<not> ok then Done (None, st)
      else case malloc Blk_backend_data st of (ok, st) \<Rightarrow>
      if \<not> ok then Done (None, apsnd (set_errno ENOMEM) (modbus_tcp_free None st))
      else
        let finish = (\<lambda>ip_array.
              Done (Some (common_ctx MODBUS_TCP_SLAVE
                (Tcp \<lparr>tcp_t_id = 0, tcp_port = port, tcp_ip = string_of ip_array\<rparr>) junk), st));
            refuse = Done (None, apsnd (set_errno EINVAL) (modbus_tcp_free (Some ()) st)) in
        case ip of
          Some s \<Rightarrow>
            obind (strlcpy junk_ip (c_string s) 16) (\<lambda>(ret_size, ip_array).
              if ret_size = 0 then refuse
              else if ret_size \<ge> 16 then refuse
              else finish ip_array)
        | None \<Rightarrow> obind (wr junk_ip 0 48) (\<lambda>ip_array. obind (wr ip_array 1 0) finish))"

definition modbus_new_tcp_pi ::
    "string option \<Rightarrow> string option \<Rightarrow> int \<Rightarrow> modbus \<Rightarrow> heap \<times> world \<Rightarrow> modbus option \<times> heap \<times> world" where
  "modbus_new_tcp_pi node service junk_port junk st =
     (case malloc Blk_ctx st of (ok, st) \<Rightarrow>
      if \<not> ok then (None, st)
      else case malloc Blk_backend_data st of (ok, st) \<Rightarrow>
      if \<not> ok then (None, apsnd (set_errno ENOMEM) (modbus_tcp_pi_free None st))
      else
        let n = (case node of Some n \<Rightarrow> n | None \<Rightarrow> '''') in
        case malloc Blk_node st of (ok, st) \<Rightarrow>
        if \<not> ok then (None, apsnd (set_errno ENOMEM) (modbus_tcp_pi_free (Some (None, None)) st))
        else
          let s = (case service of Some s \<Rightarrow> if s \<noteq> [] then s else ''502'' | None \<Rightarrow> ''502'') in
          case malloc Blk_service st of (ok, st) \<Rightarrow>
          if \<not> ok then (None, apsnd (set_errno ENOMEM) (modbus_tcp_pi_free (Some (Some n, None)) st))
          else
            (Some (common_ctx MODBUS_TCP_SLAVE
               (TcpPi \<lparr>pi_t_id = 0, pi_port = junk_port, pi_node = n, pi_service = s\<rparr>) junk), st))"

section \<open>What the constructors promise\<close>

text \<open>
  A context has the default configuration (no debug output, no recovery, no quirk, half a second for a
  response and between two bytes, no indication timeout), no descriptor, and owns its blocks: releasing
  it gives back what the constructor took. A constructor that fails leaves no block behind.
\<close>

definition default_config :: "modbus \<Rightarrow> bool" where
  "default_config c \<longleftrightarrow> mb_debug c = 0 \<and> mb_error_recovery c = 0 \<and> mb_quirks c = 0 \<and>
     mb_response_timeout c = \<lparr>tv_sec = 0, tv_usec = 500000\<rparr> \<and> mb_byte_timeout c = \<lparr>tv_sec = 0, tv_usec = 500000\<rparr> \<and>
     mb_indication_timeout c = \<lparr>tv_sec = 0, tv_usec = 0\<rparr>"

definition constructed :: "(modbus \<Rightarrow> bool) \<Rightarrow> heap \<times> world \<Rightarrow> modbus option \<times> heap \<times> world \<Rightarrow> bool" where
  "constructed P st r \<longleftrightarrow>
     (case r of (c, st') \<Rightarrow>
       (case c of
          None \<Rightarrow> hp_live (fst st') = hp_live (fst st)
        | Some c \<Rightarrow> default_config c \<and> mb_s c = -1 \<and> P c \<and>
            hp_live (fst (modbus_free (Some c) st')) = hp_live (fst st)))"

lemma common_ctx_facts [simp]:
  "wf_config (common_ctx slave d junk)" "default_config (common_ctx slave d junk)" "mb_s (common_ctx slave d junk) = -1"
  "mb_slave (common_ctx slave d junk) = slave" "mb_backend (common_ctx slave d junk) = d"
  by (simp_all add: common_ctx_def modbus_init_common_def wf_config_def wf_timeval_def default_config_def)

lemma live_apsnd [simp]: "hp_live (fst (apsnd f st)) = hp_live (fst st)"
  by (cases st) simp

lemma malloc_live: "malloc blk st = (ok, st') \<Longrightarrow> hp_live (fst st') = (if ok then [blk] else []) @ hp_live (fst st)"
  by (cases st) (auto simp: malloc_def split: if_splits)

lemmas free_defs =
  modbus_free_def be_free_def modbus_rtu_free_def modbus_tcp_free_def modbus_tcp_pi_free_def Let_def

lemma modbus_new_rtu_result:
  "constructed (\<lambda>c. mb_slave c = -1 \<and> (\<exists>r. mb_backend c = Rtu r \<and> Some (rtu_device r) = device \<and> rtu_device r \<noteq> [] \<and>
      rtu_baud r = baud \<and> 0 < baud \<and> uint (rtu_data_bit r) = data_bit \<and> 5 \<le> data_bit \<and> data_bit \<le> 8 \<and>
      uint (rtu_stop_bit r) = stop_bit \<and> stop_bit \<in> {1, 2} \<and> rtu_parity r = parity \<and> parity \<in> {CHR ''N'', CHR ''E'', CHR ''O''} \<and>
      rtu_onebyte_time r = 1000000 * (1 + data_bit + (if parity = CHR ''N'' then 0 else 1) + stop_bit) div baud \<and>
      0 \<le> rtu_onebyte_time r \<and> rtu_onebyte_time r \<le> 12000000 \<and> rtu_rts_delay r = rtu_onebyte_time r \<and>
      rtu_rts r = MODBUS_RTU_RTS_NONE \<and> rtu_set_rts r = Rtu_ioctl_rts \<and> rtu_serial_mode r = MODBUS_RTU_RS232 \<and>
      \<not> rtu_confirmation_to_ignore r))
    st (modbus_new_rtu device baud parity data_bit stop_bit junk tios st)"
proof (cases "device = None \<or> device = Some [] \<or> baud \<le> 0 \<or> data_bit < 5 \<or> data_bit > 8 \<or> stop_bit \<noteq> 1 \<and> stop_bit \<noteq> 2")
  case True
  then show ?thesis by (auto simp: constructed_def modbus_new_rtu_def split: option.splits)
next
  case False
  then obtain dev where dev: "device = Some dev" "dev \<noteq> []" by (cases device) auto
  obtain ok1 st1 where 1: "malloc Blk_ctx st = (ok1, st1)" by (rule prod.exhaust)
  obtain ok2 st2 where 2: "malloc Blk_backend_data st1 = (ok2, st2)" by (rule prod.exhaust)
  obtain ok3 st3 where 3: "malloc Blk_device st2 = (ok3, st3)" by (rule prod.exhaust)
  note live = malloc_live [OF 1] malloc_live [OF 2] malloc_live [OF 3]
  let ?k = "1000000 * (1 + data_bit + (if parity = CHR ''N'' then 0 else 1) + stop_bit)"
  have k: "0 \<le> ?k" "?k \<le> 12000000" using False by auto
  have "0 \<le> ?k div baud" using k(1) False by (simp add: pos_imp_zdiv_nonneg_iff)
  moreover have "?k div baud \<le> ?k" using zdiv_mono2 [of ?k 1 baud] k(1) False by (simp del: distrib_left_numeral)
  ultimately have time: "0 \<le> ?k div baud \<and> ?k div baud \<le> 12000000" using k(2) by linarith
  have bits: "uint (word_of_int data_bit :: byte) = data_bit" "uint (word_of_int stop_bit :: byte) = stop_bit"
    using False by (auto simp: uint_word_of_int)
  show ?thesis
    using False dev time bits live
    by (auto simp: constructed_def modbus_new_rtu_def 1 2 3 free_defs)
qed

lemma unat_of_char: "unat (of_char c :: byte) = of_char c"
proof -
  have "unat (of_char c :: byte) = unat (of_nat (of_char c) :: byte)" by (simp only: of_nat_of_char)
  also have "\<dots> = of_char c mod 256" by (simp only: unat_of_nat) simp
  also have "\<dots> = of_char c" by (rule of_char_mod_256)
  finally show ?thesis .
qed

lemma string_of_c_string: "CHR 0x00 \<notin> set s \<Longrightarrow> string_of (c_string s @ rest) = s"
proof -
  assume s: "CHR 0x00 \<notin> set s"
  have "of_char c \<noteq> (0 :: byte)" if "c \<in> set s" for c
  proof
    assume "of_char c = (0 :: byte)"
    then have "(of_char c :: nat) = 0" using unat_of_char [of c] by simp
    then have "(of_char c :: nat) = of_char CHR 0x00" by simp
    then have "c = CHR 0x00" by (rule of_char_eqI)
    with s that show False by simp
  qed
  then have "takeWhile (\<lambda>b. b \<noteq> 0) (map of_char s @ (0 :: byte) # rest) = map of_char s"
    by (subst takeWhile_append2) auto
  then show ?thesis by (simp add: string_of_def c_string_def unat_of_char map_idI o_def)
qed

lemma strlcpy_c_string:
  assumes "CHR 0x00 \<notin> set s" and "length junk_ip = 16"
  shows "\<exists>ip. strlcpy junk_ip (c_string s) 16 = Done (length s, ip) \<and> (length s < 16 \<longrightarrow> string_of ip = s)"
proof -
  have nz: "0 \<notin> set (map of_char s :: byte list)"
  proof
    assume "0 \<in> set (map of_char s :: byte list)"
    then obtain c where c: "c \<in> set s" "of_char c = (0 :: byte)" by auto
    then have "(of_char c :: nat) = of_char CHR 0x00" using unat_of_char [of c] by simp
    then have "c = CHR 0x00" by (rule of_char_eqI)
    with c assms(1) show False by simp
  qed
  have "strlcpy junk_ip (c_string s) 16 = Done (length s, let k = min (length s) 15 in take k (map of_char s) @ 0 # drop (Suc k) junk_ip)"
    using strlcpy_result [OF _ nz, of "c_string s" "[]" 16 junk_ip] assms(2) by (simp add: c_string_def)
  moreover have "string_of (take (length s) (map of_char s) @ 0 # drop (Suc (length s)) junk_ip) = s"
    using string_of_c_string [OF assms(1), of "drop (Suc (length s)) junk_ip"] by (simp add: c_string_def)
  ultimately show ?thesis by (auto simp: Let_def min_def)
qed

lemma modbus_new_tcp_result:
  assumes ip: "\<forall>s. ip = Some s \<longrightarrow> CHR 0x00 \<notin> set s" and junk: "length junk_ip = 16"
  shows "\<exists>r. modbus_new_tcp ip port junk junk_ip st = Done r \<and>
    constructed (\<lambda>c. mb_slave c = 255 \<and> (\<exists>t. mb_backend c = Tcp t \<and> tcp_t_id t = 0 \<and> tcp_port t = port \<and>
      tcp_ip t = (case ip of Some s \<Rightarrow> s | None \<Rightarrow> ''0'') \<and> tcp_ip t \<noteq> [] \<and> length (tcp_ip t) < 16)) st r"
proof -
  obtain ok1 st1 where 1: "malloc Blk_ctx st = (ok1, st1)" by (rule prod.exhaust)
  obtain ok2 st2 where 2: "malloc Blk_backend_data st1 = (ok2, st2)" by (rule prod.exhaust)
  note live = malloc_live [OF 1] malloc_live [OF 2]
  show ?thesis
  proof (cases "ok1 \<and> ok2")
    case False
    with live show ?thesis by (cases ok1) (auto simp: modbus_new_tcp_def 1 2 constructed_def free_defs)
  next
    case ok: True
    show ?thesis
    proof (cases ip)
      case None
      obtain a b rest where j: "junk_ip = a # b # rest" using junk by (auto simp: numeral_eq_Suc length_Suc_conv)
      have "(char_of (48 :: nat) :: char) = CHR ''0''" by (simp add: char_of_def bit_0)
      with ok None live j show ?thesis
        by (simp add: modbus_new_tcp_def 1 2 constructed_def free_defs string_of_def)
    next
      case (Some s')
      from strlcpy_c_string [of s' junk_ip] ip Some junk obtain arr where
          copy: "strlcpy junk_ip (c_string s') 16 = Done (length s', arr)" and arr: "length s' < 16 \<longrightarrow> string_of arr = s'" by auto
      from ok Some live copy arr show ?thesis
        by (cases "s' = []"; cases "16 \<le> length s'") (simp_all add: modbus_new_tcp_def 1 2 constructed_def free_defs)
    qed
  qed
qed

lemma modbus_new_tcp_pi_result:
  "constructed (\<lambda>c. mb_slave c = 255 \<and> (\<exists>t. mb_backend c = TcpPi t \<and> pi_t_id t = 0 \<and> pi_service t \<noteq> [] \<and>
      pi_node t = (case node of Some n \<Rightarrow> n | None \<Rightarrow> '''') \<and> (service = None \<or> service = Some [] \<longrightarrow> pi_service t = ''502'')))
    st (modbus_new_tcp_pi node service junk_port junk st)"
proof -
  obtain ok1 st1 where 1: "malloc Blk_ctx st = (ok1, st1)" by (rule prod.exhaust)
  obtain ok2 st2 where 2: "malloc Blk_backend_data st1 = (ok2, st2)" by (rule prod.exhaust)
  obtain ok3 st3 where 3: "malloc Blk_node st2 = (ok3, st3)" by (rule prod.exhaust)
  obtain ok4 st4 where 4: "malloc Blk_service st3 = (ok4, st4)" by (rule prod.exhaust)
  note live = malloc_live [OF 1] malloc_live [OF 2] malloc_live [OF 3] malloc_live [OF 4]
  show ?thesis
    using live
    by (cases ok1; cases ok2; cases ok3; cases ok4)
       (auto simp: modbus_new_tcp_pi_def 1 2 3 4 constructed_def free_defs split: option.splits)
qed

end
