(* ===== verification/Mb_Serial.thy ===== *)
theory Mb_Serial
  imports Mb_Connect
begin

text \<open>
  The accessors of the serial line (modbus-rtu.c), on a platform with \<open>TIOCSRS485\<close> and
  \<open>TIOCM_RTS\<close>: the serial mode, the use of the RTS line, its callback and its delay. The
  \<open>ioctl\<close> calls are scripted like every other call.
\<close>

type_synonym called = "(int \<times> modbus option \<times> world) outcome"

definition modbus_rtu_set_serial_mode :: "modbus option \<Rightarrow> int \<Rightarrow> world \<Rightarrow> called" where
  "modbus_rtu_set_serial_mode ctx mode w =
     (case ctx of
        None \<Rightarrow> Done (-1, None, set_errno EINVAL w)
      | Some c \<Rightarrow>
        (case mb_backend c of
           Rtu r \<Rightarrow>
             let store = (\<lambda>mode w. Done (0, Some (c\<lparr>mb_backend := Rtu (r\<lparr>rtu_serial_mode := mode\<rparr>)\<rparr>), w));
                 get_and_set = (\<lambda>mode.
                   obind (sys_call w) (\<lambda>(rc, w). if rc < 0 then Done (-1, ctx, w)
                   else obind (sys_call w) (\<lambda>(rc, w). if rc < 0 then Done (-1, ctx, w) else store mode w)))
             in
             if mode = MODBUS_RTU_RS485 then get_and_set MODBUS_RTU_RS485
             else if mode = MODBUS_RTU_RS232 then
               (if rtu_serial_mode r = MODBUS_RTU_RS485 then get_and_set MODBUS_RTU_RS232
                else store MODBUS_RTU_RS232 w)
             else Done (-1, ctx, set_errno EINVAL w)
         | _ \<Rightarrow> Done (-1, ctx, set_errno EINVAL w)))"

definition modbus_rtu_get_serial_mode :: "modbus option \<Rightarrow> world \<Rightarrow> int \<times> world" where
  "modbus_rtu_get_serial_mode ctx w =
     (case ctx of
        None \<Rightarrow> fail_errno EINVAL w
      | Some c \<Rightarrow> (case mb_backend c of Rtu r \<Rightarrow> (rtu_serial_mode r, w) | _ \<Rightarrow> fail_errno EINVAL w))"

definition modbus_rtu_get_rts :: "modbus option \<Rightarrow> world \<Rightarrow> int \<times> world" where
  "modbus_rtu_get_rts ctx w =
     (case ctx of
        None \<Rightarrow> fail_errno EINVAL w
      | Some c \<Rightarrow> (case mb_backend c of Rtu r \<Rightarrow> (rtu_rts r, w) | _ \<Rightarrow> fail_errno EINVAL w))"

definition modbus_rtu_set_rts :: "modbus option \<Rightarrow> int \<Rightarrow> world \<Rightarrow> called" where
  "modbus_rtu_set_rts ctx mode w =
     (case ctx of
        None \<Rightarrow> Done (-1, None, set_errno EINVAL w)
      | Some c \<Rightarrow>
        (case mb_backend c of
           Rtu r \<Rightarrow>
             if mode = MODBUS_RTU_RTS_NONE \<or> mode = MODBUS_RTU_RTS_UP \<or> mode = MODBUS_RTU_RTS_DOWN then
               let r = r\<lparr>rtu_rts := mode\<rparr> in
               obind (call_set_rts r (rtu_rts r \<noteq> MODBUS_RTU_RTS_UP) w) (\<lambda>w. Done (0, Some (c\<lparr>mb_backend := Rtu r\<rparr>), w))
             else Done (-1, ctx, set_errno EINVAL w)
         | _ \<Rightarrow> Done (-1, ctx, set_errno EINVAL w)))"

definition modbus_rtu_set_custom_rts :: "modbus option \<Rightarrow> nat option \<Rightarrow> world \<Rightarrow> int \<times> modbus option \<times> world" where
  "modbus_rtu_set_custom_rts ctx set_rts w =
     (case (ctx, set_rts) of
        (Some c, Some f) \<Rightarrow>
          (case mb_backend c of
             Rtu r \<Rightarrow> (0, Some (c\<lparr>mb_backend := Rtu (r\<lparr>rtu_set_rts := Custom_rts f\<rparr>)\<rparr>), w)
           | _ \<Rightarrow> (-1, ctx, set_errno EINVAL w))
      | _ \<Rightarrow> (-1, ctx, set_errno EINVAL w))"

definition modbus_rtu_get_rts_delay :: "modbus option \<Rightarrow> world \<Rightarrow> int \<times> world" where
  "modbus_rtu_get_rts_delay ctx w =
     (case ctx of
        None \<Rightarrow> fail_errno EINVAL w
      | Some c \<Rightarrow> (case mb_backend c of Rtu r \<Rightarrow> (rtu_rts_delay r, w) | _ \<Rightarrow> fail_errno EINVAL w))"

definition modbus_rtu_set_rts_delay :: "modbus option \<Rightarrow> int \<Rightarrow> world \<Rightarrow> int \<times> modbus option \<times> world" where
  "modbus_rtu_set_rts_delay ctx us w =
     (case ctx of
        None \<Rightarrow> (-1, None, set_errno EINVAL w)
      | Some c \<Rightarrow>
        if us < 0 then (-1, ctx, set_errno EINVAL w)
        else (case mb_backend c of
                Rtu r \<Rightarrow> (0, Some (c\<lparr>mb_backend := Rtu (r\<lparr>rtu_rts_delay := us\<rparr>)\<rparr>), w)
              | _ \<Rightarrow> (-1, ctx, set_errno EINVAL w)))"

section \<open>The configuration of the line\<close>

text \<open>
  The values that the accessors leave in a serial context: a mode, a use of the line and a delay of
  the kind that the transmission expects.
\<close>

definition wf_line :: "modbus \<Rightarrow> bool" where
  "wf_line c \<longleftrightarrow>
     (case mb_backend c of
        Rtu r \<Rightarrow> rtu_serial_mode r \<in> {MODBUS_RTU_RS232, MODBUS_RTU_RS485} \<and>
                 rtu_rts r \<in> {MODBUS_RTU_RTS_NONE, MODBUS_RTU_RTS_UP, MODBUS_RTU_RTS_DOWN} \<and> 0 \<le> rtu_rts_delay r
      | _ \<Rightarrow> True)"

lemma set_serial_mode_result:
  assumes "modbus_rtu_set_serial_mode (Some c) mode w = Done (rc, c', w')" and "wf_line c"
  shows "(\<exists>c2. c' = Some c2 \<and> wf_line c2 \<and> (rc = -1 \<longrightarrow> c2 = c)) \<and>
    (rc = 0 \<and> modbus_rtu_get_serial_mode c' w' = (mode, w') \<or> rc = -1)"
  using assms
  by (cases "mb_backend c")
     (auto simp: modbus_rtu_set_serial_mode_def modbus_rtu_get_serial_mode_def wf_line_def Let_def
        split: if_splits elim!: obind_DoneE)

text \<open>
  Setting the use of the RTS line puts the line in its idle state, through the callback that is
  installed.
\<close>

lemma set_rts_result:
  assumes "modbus_rtu_set_rts (Some c) mode w = Done (rc, c', w')" and "wf_line c"
  shows "(\<exists>c2. c' = Some c2 \<and> wf_line c2 \<and> (rc = -1 \<longrightarrow> c2 = c)) \<and>
    (rc = 0 \<and> modbus_rtu_get_rts c' w' = (mode, w') \<and>
       (\<exists>r. mb_backend c = Rtu r \<and> call_set_rts r (mode \<noteq> MODBUS_RTU_RTS_UP) w = Done w') \<or>
     rc = -1 \<and> w' = set_errno EINVAL w)"
proof (cases "mb_backend c")
  case (Rtu r)
  show ?thesis
  proof (cases "mode \<in> {MODBUS_RTU_RTS_NONE, MODBUS_RTU_RTS_UP, MODBUS_RTU_RTS_DOWN}")
    case True
    have same: "call_set_rts (r\<lparr>rtu_rts := mode\<rparr>) on w = call_set_rts r on w" for on
      by (simp add: call_set_rts_def)
    from True assms(1) Rtu obtain w1 where set: "call_set_rts r (mode \<noteq> MODBUS_RTU_RTS_UP) w = Done w1"
      and res: "rc = 0" "c' = Some (c\<lparr>mb_backend := Rtu (r\<lparr>rtu_rts := mode\<rparr>)\<rparr>)" "w' = w1"
      by (auto simp: modbus_rtu_set_rts_def Let_def same elim!: obind_DoneE)
    from True res assms(2) Rtu have "wf_line (c\<lparr>mb_backend := Rtu (r\<lparr>rtu_rts := mode\<rparr>)\<rparr>)" by (simp add: wf_line_def)
    with set res Rtu show ?thesis by (simp add: modbus_rtu_get_rts_def)
  next
    case False
    with assms Rtu show ?thesis by (auto simp: modbus_rtu_set_rts_def)
  qed
qed (use assms in \<open>auto simp: modbus_rtu_set_rts_def\<close>)

lemma set_rts_delay_result:
  assumes "modbus_rtu_set_rts_delay (Some c) us w = (rc, c', w')" and "wf_line c"
  shows "(\<exists>c2. c' = Some c2 \<and> wf_line c2 \<and> (rc = -1 \<longrightarrow> c2 = c)) \<and>
    (rc = 0 \<and> 0 \<le> us \<and> modbus_rtu_get_rts_delay c' w' = (us, w') \<or> rc = -1 \<and> w' = set_errno EINVAL w)"
  using assms
  by (cases "mb_backend c") (auto simp: modbus_rtu_set_rts_delay_def modbus_rtu_get_rts_delay_def wf_line_def split: if_splits)

text \<open>The settings that a connection gives to the device, read back from the bits of \<open>termios\<close>.\<close>

lemma rtu_tios_decodes:
  "c_cflag (rtu_tios r) AND CSIZE = (if rtu_data_bit r = 5 then CS5 else if rtu_data_bit r = 6 then CS6 else if rtu_data_bit r = 7 then CS7 else CS8)"
  "c_cflag (rtu_tios r) AND CSTOPB = (if rtu_stop_bit r = 1 then 0 else CSTOPB)"
  "c_cflag (rtu_tios r) AND PARENB = (if rtu_parity r = CHR ''N'' then 0 else PARENB)"
  "rtu_parity r \<noteq> CHR ''N'' \<Longrightarrow> c_cflag (rtu_tios r) AND PARODD = (if rtu_parity r = CHR ''E'' then 0 else PARODD)"
  "c_cflag (rtu_tios r) AND (CREAD OR CLOCAL) = CREAD OR CLOCAL"
  "c_lflag (rtu_tios r) = 0" "c_oflag (rtu_tios r) = 0"
  "c_ispeed (rtu_tios r) = rtu_baud r" "c_ospeed (rtu_tios r) = rtu_baud r"
  by (simp_all add: rtu_tios_def termios_consts Let_def)

section \<open>The speed on platforms without \<open>termios2\<close>\<close>

text \<open>
  \<open>_get_termios_speed\<close> and its caller: the constants of the speeds come from the system's
  \<open>termios.h\<close>; \<open>B n\<close> stands for the constant \<open>Bn\<close>, on a platform that has them all.
\<close>

definition termios_speeds :: "int list" where
  "termios_speeds = [110, 300, 600, 1200, 2400, 4800, 9600, 19200, 38400, 57600, 115200, 230400, 460800, 500000,
     576000, 921600, 1000000, 1152000, 1500000, 2500000, 3000000, 3500000, 4000000]"

definition get_termios_speed :: "(int \<Rightarrow> u32) \<Rightarrow> int \<Rightarrow> u32" where
  "get_termios_speed B baud = (if baud \<in> set termios_speeds then B baud else B 9600)"

definition rtu_speed :: "(int \<Rightarrow> u32) \<Rightarrow> int \<Rightarrow> u32" where
  "rtu_speed B baud = (if B 9600 = 9600 then word_of_int baud else get_termios_speed B baud)"

text \<open>
  Where the constants are the numbers themselves the speed is the one asked for; elsewhere a listed
  speed is the one asked for, and any other one is silently replaced by 9600.
\<close>

lemma rtu_speed_cases:
  assumes "inj_on B (set termios_speeds)" and "s \<in> set termios_speeds" and "B 9600 \<noteq> 9600"
  shows "rtu_speed B baud = B s \<longleftrightarrow> s = (if baud \<in> set termios_speeds then baud else 9600)"
proof -
  have "9600 \<in> set termios_speeds" by (simp add: termios_speeds_def)
  with assms show ?thesis by (auto simp: rtu_speed_def get_termios_speed_def inj_on_eq_iff)
qed

text \<open>The accessors together: exactly valid values are stored, and a failed call leaves the context alone.\<close>

theorem serial_accessors_keep_line:
  assumes "wf_line c"
  shows "(\<forall>mode rc c' w'. modbus_rtu_set_serial_mode (Some c) mode w = Done (rc, c', w') \<longrightarrow>
      (\<exists>c2. c' = Some c2 \<and> wf_line c2 \<and> (rc = -1 \<longrightarrow> c2 = c)) \<and> (rc = 0 \<and> modbus_rtu_get_serial_mode c' w' = (mode, w') \<or> rc = -1)) \<and>
    (\<forall>mode rc c' w'. modbus_rtu_set_rts (Some c) mode w = Done (rc, c', w') \<longrightarrow>
      (\<exists>c2. c' = Some c2 \<and> wf_line c2 \<and> (rc = -1 \<longrightarrow> c2 = c)) \<and>
      (rc = 0 \<and> modbus_rtu_get_rts c' w' = (mode, w') \<and> (\<exists>r. mb_backend c = Rtu r \<and> call_set_rts r (mode \<noteq> MODBUS_RTU_RTS_UP) w = Done w') \<or>
       rc = -1 \<and> w' = set_errno EINVAL w)) \<and>
    (\<forall>us rc c' w'. modbus_rtu_set_rts_delay (Some c) us w = (rc, c', w') \<longrightarrow>
      (\<exists>c2. c' = Some c2 \<and> wf_line c2 \<and> (rc = -1 \<longrightarrow> c2 = c)) \<and>
      (rc = 0 \<and> 0 \<le> us \<and> modbus_rtu_get_rts_delay c' w' = (us, w') \<or> rc = -1 \<and> w' = set_errno EINVAL w))"
  using set_serial_mode_result set_rts_result set_rts_delay_result assms by blast

end
