(* ===== verification/Mb_Config.thy ===== *)
theory Mb_Config
  imports Mb_New Mb_Serial "HOL-Library.Multiset"
begin

text \<open>
  The life of a context between its constructor and its release: the configuration calls of
  modbus.c and modbus-rtu.c, \<open>modbus_connect\<close>, \<open>modbus_close\<close> and \<open>modbus_flush\<close>, in any order. The
  invariants of this theory hold after every sequence of them.
\<close>

section \<open>Calls on a context\<close>

datatype api_call =
    Set_slave int | Set_socket int | Set_error_recovery u32 | Set_debug int
  | Enable_quirks u32 | Disable_quirks u32
  | Set_response_timeout u32 u32 | Set_byte_timeout u32 u32 | Set_indication_timeout u32 u32
  | Set_serial_mode int | Set_rts int | Set_custom_rts "nat option" | Set_rts_delay int
  | Connect | Close | Flush

definition run_call :: "api_call \<Rightarrow> modbus option \<Rightarrow> world \<Rightarrow> (int \<times> modbus option \<times> world) outcome" where
  "run_call call ctx w =
     (case call of
        Set_slave slave \<Rightarrow> Done (modbus_set_slave slave ctx w)
      | Set_socket s \<Rightarrow> Done (modbus_set_socket s ctx w)
      | Set_error_recovery mode \<Rightarrow> Done (modbus_set_error_recovery mode ctx w)
      | Set_debug flag \<Rightarrow> Done (modbus_set_debug flag ctx w)
      | Enable_quirks m \<Rightarrow> Done (modbus_enable_quirks m ctx w)
      | Disable_quirks m \<Rightarrow> Done (modbus_disable_quirks m ctx w)
      | Set_response_timeout sec usec \<Rightarrow> Done (modbus_set_response_timeout sec usec ctx w)
      | Set_byte_timeout sec usec \<Rightarrow> Done (modbus_set_byte_timeout sec usec ctx w)
      | Set_indication_timeout sec usec \<Rightarrow> Done (modbus_set_indication_timeout sec usec ctx w)
      | Set_serial_mode mode \<Rightarrow> modbus_rtu_set_serial_mode ctx mode w
      | Set_rts mode \<Rightarrow> modbus_rtu_set_rts ctx mode w
      | Set_custom_rts f \<Rightarrow> Done (modbus_rtu_set_custom_rts ctx f w)
      | Set_rts_delay us \<Rightarrow> Done (modbus_rtu_set_rts_delay ctx us w)
      | Connect \<Rightarrow> modbus_connect ctx w
      | Close \<Rightarrow> obind (modbus_close ctx w) (\<lambda>(ctx, w). Done (0, ctx, w))
      | Flush \<Rightarrow> (case modbus_flush ctx w of (rc, w) \<Rightarrow> Done (rc, ctx, w)))"

fun run_calls :: "api_call list \<Rightarrow> modbus option \<Rightarrow> world \<Rightarrow> (modbus option \<times> world) outcome" where
  "run_calls [] ctx w = Done (ctx, w)"
| "run_calls (call # calls) ctx w = obind (run_call call ctx w) (\<lambda>(rc, ctx, w). run_calls calls ctx w)"

lemmas accessor_defs =
  modbus_set_socket_def modbus_set_error_recovery_def modbus_set_debug_def modbus_enable_quirks_def
  modbus_disable_quirks_def modbus_set_response_timeout_def modbus_set_byte_timeout_def
  modbus_set_indication_timeout_def modbus_set_slave_def

section \<open>The invariant of the configuration\<close>

text \<open>The timeouts and the recovery of \<open>wf_config\<close>, the line of \<open>wf_line\<close>, and a slave that fits its byte.\<close>

definition wf_context :: "modbus \<Rightarrow> bool" where
  "wf_context c \<longleftrightarrow> wf_config c \<and> wf_line c \<and> mb_slave c \<le> 255 \<and> (if is_rtu c then -1 \<le> mb_slave c else 0 \<le> mb_slave c)"

lemma unlinked_wf: "wf_context (unlinked c) = wf_context c"
  by (cases "mb_backend c") (simp_all add: unlinked_def wf_context_def wf_config_def wf_line_def is_rtu_def)

lemma relinked_wf: "relinked c c' \<Longrightarrow> wf_context c \<Longrightarrow> wf_context c'"
  using unlinked_wf [of c] unlinked_wf [of c'] by (simp add: relinked_def)

text \<open>
  What a call does to a context in use: it stays well formed, of the same backend, and, for the calls
  that do not replace the descriptor, on the same descriptor with the same open descriptors.
\<close>

definition keeps_socket :: "api_call \<Rightarrow> bool" where
  "keeps_socket call \<longleftrightarrow> call \<noteq> Connect \<and> call \<noteq> Close \<and> (\<forall>s. call \<noteq> Set_socket s)"

definition call_keeps :: "api_call \<Rightarrow> modbus \<Rightarrow> world \<Rightarrow> modbus option \<Rightarrow> world \<Rightarrow> bool" where
  "call_keeps call c w c' w' \<longleftrightarrow>
     (\<exists>c2. c' = Some c2 \<and> wf_context c2 \<and> is_rtu c2 = is_rtu c \<and>
        (keeps_socket call \<longrightarrow> mb_s c2 = mb_s c \<and> w_fds w' = w_fds w))"

lemmas wf_context_defs = wf_context_def wf_config_def wf_line_def is_rtu_def

lemma set_slave_ctx:
  assumes "be_set_slave c slave w = (rc, c', w')"
  shows "c' = c \<and> rc = -1 \<and> w' = set_errno EINVAL w \<or> c' = c\<lparr>mb_slave := slave\<rparr> \<and> rc = 0 \<and> 0 \<le> slave \<and> slave \<le> 255 \<and> w' = w"
proof (cases "is_rtu c")
  case True
  with assms show ?thesis
    by (cases "slave \<ge> 0 \<and> slave \<le> max_slave c")
       (auto simp: be_set_slave_def modbus_rtu_set_slave_def max_slave_def split: if_splits)
next
  case False
  with assms show ?thesis
    by (cases "slave \<ge> 0 \<and> slave \<le> (if mb_quirks c AND MODBUS_QUIRK_MAX_SLAVE \<noteq> 0 then 255 else 247)"; cases "slave = 255")
       (auto simp: be_set_slave_def modbus_tcp_set_slave_def split: if_splits)
qed

lemma wf_context_slave:
  "wf_context c \<Longrightarrow> 0 \<le> slave \<Longrightarrow> slave \<le> 255 \<Longrightarrow> wf_context (c\<lparr>mb_slave := slave\<rparr>)"
  by (simp add: wf_context_defs)

lemma wf_context_backend:
  assumes "wf_context c" and "mb_backend c = Rtu r" and "wf_line (c\<lparr>mb_backend := Rtu r'\<rparr>)"
  shows "wf_context (c\<lparr>mb_backend := Rtu r'\<rparr>)"
  using assms by (simp add: wf_context_defs)

lemma set_slave_keeps:
  assumes "wf_context c" and "modbus_set_slave slave (Some c) w = (rc, c', w')"
  shows "call_keeps call c w c' w'"
  using assms set_slave_ctx [of c slave w]
  by (auto simp: modbus_set_slave_def call_keeps_def wf_context_slave is_rtu_def split: prod.splits)

lemma call_keeps_unchanged: "wf_context c \<Longrightarrow> w_fds w' = w_fds w \<Longrightarrow> call_keeps call c w (Some c) w'"
  by (simp add: call_keeps_def)

lemma call_keeps_backend:
  "wf_context c \<Longrightarrow> mb_backend c = Rtu r \<Longrightarrow> wf_line (c\<lparr>mb_backend := Rtu r'\<rparr>) \<Longrightarrow> w_fds w' = w_fds w \<Longrightarrow>
   call_keeps call c w (Some (c\<lparr>mb_backend := Rtu r'\<rparr>)) w'"
  using wf_context_backend [of c r r'] by (simp add: call_keeps_def is_rtu_def)

lemma set_serial_mode_keeps:
  assumes wf: "wf_context c" and res: "modbus_rtu_set_serial_mode (Some c) mode w = Done (rc, c', w')"
  shows "call_keeps call c w c' w'"
proof (cases "mb_backend c")
  case (Rtu r)
  have line: "wf_line (c\<lparr>mb_backend := Rtu (r\<lparr>rtu_serial_mode := 0\<rparr>)\<rparr>)" "wf_line (c\<lparr>mb_backend := Rtu (r\<lparr>rtu_serial_mode := 1\<rparr>)\<rparr>)"
    using wf Rtu by (auto simp: wf_context_def wf_line_def)
  show ?thesis
    using res Rtu
    by (auto simp: modbus_rtu_set_serial_mode_def Let_def split: if_splits elim!: obind_DoneE dest!: sys_call_frame
        intro!: call_keeps_unchanged call_keeps_backend [OF wf Rtu] wf line)
qed (use assms in \<open>auto simp: modbus_rtu_set_serial_mode_def intro!: call_keeps_unchanged\<close>)

lemma set_rts_keeps:
  assumes wf: "wf_context c" and res: "modbus_rtu_set_rts (Some c) mode w = Done (rc, c', w')"
  shows "call_keeps call c w c' w'"
proof (cases "mb_backend c")
  case (Rtu r)
  show ?thesis
  proof (cases "mode \<in> {MODBUS_RTU_RTS_NONE, MODBUS_RTU_RTS_UP, MODBUS_RTU_RTS_DOWN}")
    case True
    with res Rtu obtain w1 where set: "call_set_rts (r\<lparr>rtu_rts := mode\<rparr>) (mode \<noteq> MODBUS_RTU_RTS_UP) w = Done w1"
      and c': "c' = Some (c\<lparr>mb_backend := Rtu (r\<lparr>rtu_rts := mode\<rparr>)\<rparr>)" "w' = w1"
      by (auto simp: modbus_rtu_set_rts_def Let_def elim!: obind_DoneE)
    have "wf_line (c\<lparr>mb_backend := Rtu (r\<lparr>rtu_rts := mode\<rparr>)\<rparr>)" using True wf Rtu by (simp add: wf_context_def wf_line_def)
    with c' call_set_rts_frame [OF set] wf Rtu show ?thesis by (simp add: call_keeps_backend)
  qed (use res Rtu wf in \<open>auto simp: modbus_rtu_set_rts_def intro!: call_keeps_unchanged\<close>)
qed (use assms in \<open>auto simp: modbus_rtu_set_rts_def intro!: call_keeps_unchanged\<close>)

lemma set_line_keeps:
  assumes wf: "wf_context c"
  shows "modbus_rtu_set_rts_delay (Some c) us w = (rc, c', w') \<Longrightarrow> call_keeps call c w c' w'"
    and "modbus_rtu_set_custom_rts (Some c) f w = (rc, c', w') \<Longrightarrow> call_keeps call c w c' w'"
proof -
  have line: "wf_line (c\<lparr>mb_backend := Rtu (r\<lparr>rtu_rts_delay := us\<rparr>)\<rparr>)" if "0 \<le> us" "mb_backend c = Rtu r" for us r
    using that wf by (simp add: wf_context_def wf_line_def)
  have line2: "wf_line (c\<lparr>mb_backend := Rtu (r\<lparr>rtu_set_rts := f\<rparr>)\<rparr>)" if "mb_backend c = Rtu r" for f r
    using that wf by (simp add: wf_context_def wf_line_def)
  show "modbus_rtu_set_rts_delay (Some c) us w = (rc, c', w') \<Longrightarrow> call_keeps call c w c' w'"
    by (auto simp: modbus_rtu_set_rts_delay_def split: if_splits backend_data.splits
        intro!: call_keeps_unchanged call_keeps_backend wf line)
  show "modbus_rtu_set_custom_rts (Some c) f w = (rc, c', w') \<Longrightarrow> call_keeps call c w c' w'"
    by (auto simp: modbus_rtu_set_custom_rts_def split: option.splits backend_data.splits
        intro!: call_keeps_unchanged call_keeps_backend wf line2)
qed

fun is_accessor :: "api_call \<Rightarrow> bool" where
  "is_accessor (Set_socket s) \<longleftrightarrow> True"
| "is_accessor (Set_error_recovery m) \<longleftrightarrow> True"
| "is_accessor (Set_debug f) \<longleftrightarrow> True"
| "is_accessor (Enable_quirks m) \<longleftrightarrow> True"
| "is_accessor (Disable_quirks m) \<longleftrightarrow> True"
| "is_accessor (Set_response_timeout sec usec) \<longleftrightarrow> True"
| "is_accessor (Set_byte_timeout sec usec) \<longleftrightarrow> True"
| "is_accessor (Set_indication_timeout sec usec) \<longleftrightarrow> True"
| "is_accessor call \<longleftrightarrow> False"

lemma wf_context_fields:
  assumes "wf_context c"
  shows "wf_context (c\<lparr>mb_s := s\<rparr>)" "wf_context (c\<lparr>mb_debug := f\<rparr>)" "wf_context (c\<lparr>mb_quirks := q\<rparr>)"
    "wf_context (c\<lparr>mb_error_recovery := ucast (b :: byte)\<rparr>)"
    "usec \<le> 999999 \<Longrightarrow> wf_context (c\<lparr>mb_byte_timeout := \<lparr>tv_sec = uint (sec :: u32), tv_usec = uint (usec :: u32)\<rparr>\<rparr>)"
    "usec \<le> 999999 \<Longrightarrow> wf_context (c\<lparr>mb_indication_timeout := \<lparr>tv_sec = uint (sec :: u32), tv_usec = uint (usec :: u32)\<rparr>\<rparr>)"
    "usec \<le> 999999 \<Longrightarrow> sec \<noteq> 0 \<or> usec \<noteq> 0 \<Longrightarrow>
       wf_context (c\<lparr>mb_response_timeout := \<lparr>tv_sec = uint (sec :: u32), tv_usec = uint (usec :: u32)\<rparr>\<rparr>)"
  using assms wf_timeval_u32 [of usec sec] ucast_byte_le [of b] by (simp_all add: wf_context_defs unsigned_eq_0_iff)

lemma accessor_keeps:
  assumes wf: "wf_context c" and res: "run_call call (Some c) w = Done (rc, c', w')" and "is_accessor call"
  shows "call_keeps call c w c' w'"
  using res assms(3) wf_context_fields [OF wf]
  by (cases call)
     (simp_all add: run_call_def accessor_defs call_keeps_def keeps_socket_def is_rtu_def wf not_le
        split: if_split_asm, (clarsimp simp: wf is_rtu_def)+)

lemma run_call_keeps:
  assumes wf: "wf_context c" and res: "run_call call (Some c) w = Done (rc, c', w')"
  shows "call_keeps call c w c' w'"
proof (cases call)
  case (Set_slave slave)
  with res wf show ?thesis by (auto simp: run_call_def intro!: set_slave_keeps)
next
  case Connect
  with res obtain c2 where "be_connect c w = Done (rc, c2, w')" "c' = Some c2"
    by (auto simp: run_call_def modbus_connect_def elim!: obind_DoneE)
  with be_connect_result [of c w rc c2 w'] wf Connect show ?thesis
    by (auto simp: call_keeps_def keeps_socket_def relinked_same intro: relinked_wf)
next
  case Close
  with res obtain c2 where "be_close c w = Done (c2, w')" "c' = Some c2"
    by (auto simp: run_call_def modbus_close_def elim!: obind_DoneE)
  with be_close_result [of c w c2 w'] wf Close show ?thesis
    by (auto simp: call_keeps_def keeps_socket_def relinked_same intro: relinked_wf)
next
  case Flush
  with res wf show ?thesis
    by (auto simp: run_call_def modbus_flush_def intro!: call_keeps_unchanged dest: be_flush_frame split: prod.splits)
next
  case (Set_serial_mode mode)
  with res wf show ?thesis by (auto simp: run_call_def intro!: set_serial_mode_keeps)
next
  case (Set_rts mode)
  with res wf show ?thesis by (auto simp: run_call_def intro!: set_rts_keeps)
next
  case (Set_custom_rts f)
  with res wf show ?thesis by (auto simp: run_call_def intro!: set_line_keeps(2))
next
  case (Set_rts_delay us)
  with res wf show ?thesis by (auto simp: run_call_def intro!: set_line_keeps(1))
qed (use res accessor_keeps [OF wf, of call w rc c' w'] in simp_all)

lemma modbus_flush_total: "\<exists>rc w'. modbus_flush ctx w = (rc, w')"
  by (cases "modbus_flush ctx w") simp

lemma rtu_set_serial_mode_not_Fault [simp]: "modbus_rtu_set_serial_mode ctx mode w \<noteq> Fault"
  by (auto simp: modbus_rtu_set_serial_mode_def Let_def outcome_iff split: option.splits backend_data.splits)

lemma rtu_set_rts_not_Fault [simp]: "modbus_rtu_set_rts ctx mode w \<noteq> Fault"
  by (auto simp: modbus_rtu_set_rts_def Let_def outcome_iff split: option.splits backend_data.splits)

lemma run_call_not_Fault [simp]: "run_call call ctx w \<noteq> Fault"
  by (cases call; cases ctx)
     (auto simp: run_call_def modbus_connect_def modbus_close_def outcome_iff split: prod.splits)

lemma run_calls_not_Fault [simp]: "run_calls calls ctx w \<noteq> Fault"
  by (induction calls arbitrary: ctx w) (auto simp: outcome_iff)

lemma run_calls_wf:
  "run_calls calls (Some c) w = Done (c', w') \<Longrightarrow> wf_context c \<Longrightarrow> \<exists>c2. c' = Some c2 \<and> wf_context c2 \<and> is_rtu c2 = is_rtu c"
proof (induction calls arbitrary: c w)
  case (Cons call calls)
  from Cons.prems(1) obtain rc c1 w1 where call: "run_call call (Some c) w = Done (rc, c1, w1)"
    and rest: "run_calls calls c1 w1 = Done (c', w')" by (auto elim!: obind_DoneE)
  from run_call_keeps [OF Cons.prems(2) call] rest Cons.IH show ?case by (fastforce simp: call_keeps_def)
qed auto

section \<open>The descriptor of the context\<close>

text \<open>The open descriptors are those of the rest of the process and the one of the context.\<close>

definition owns :: "int multiset \<Rightarrow> modbus \<Rightarrow> world \<Rightarrow> bool" where
  "owns others c w \<longleftrightarrow> mset (w_fds w) = others + (if 0 \<le> mb_s c then {#mb_s c#} else {#})"

text \<open>
  A use of the API that loses no descriptor: no descriptor of the application's own, and, as
  \<open>_modbus_rtu_connect\<close> overwrites the descriptor of an open line, one \<open>Close\<close> before the next
  \<open>Connect\<close> of a serial context. The flag says whether the context may be open.
\<close>

fun disciplined :: "bool \<Rightarrow> bool \<Rightarrow> api_call list \<Rightarrow> bool" where
  "disciplined rtu opn [] \<longleftrightarrow> True"
| "disciplined rtu opn (call # calls) \<longleftrightarrow>
     (case call of
        Connect \<Rightarrow> \<not> (rtu \<and> opn) \<and> disciplined rtu True calls
      | Close \<Rightarrow> disciplined rtu False calls
      | Set_socket s \<Rightarrow> False
      | _ \<Rightarrow> disciplined rtu opn calls)"

lemma replace_socket_owns:
  assumes "owns others c w" and "0 \<le> s" and "opened s w w1" and "(c', w') = replace_socket c s w1"
  shows "owns others c' w'"
proof -
  from assms(1,2,3) have fds: "mset (w_fds w1) = add_mset s (others + (if 0 \<le> mb_s c then {#mb_s c#} else {#}))"
    by (simp add: owns_def opened_def)
  show ?thesis using assms(2,4) fds by (cases "0 \<le> mb_s c") (simp_all add: owns_def replace_socket_def)
qed

lemma connect_owns:
  assumes own: "owns others c w" and res: "be_connect c w = Done (rc, c', w')" and closed: "is_rtu c \<Longrightarrow> mb_s c < 0"
  shows "owns others c' w'"
proof -
  have tcp: "owns others c' w'"
    if "rc = -1 \<and> c' = c \<and> quiet w w' \<or> (\<exists>s w1. rc = 0 \<and> 0 \<le> s \<and> s < FD_SETSIZE \<and> opened s w w1 \<and> (c', w') = replace_socket c s w1)"
    using that
  proof
    assume "rc = -1 \<and> c' = c \<and> quiet w w'"
    with own show ?thesis by (simp add: owns_def quiet_def)
  next
    assume "\<exists>s w1. rc = 0 \<and> 0 \<le> s \<and> s < FD_SETSIZE \<and> opened s w w1 \<and> (c', w') = replace_socket c s w1"
    then show ?thesis using replace_socket_owns [OF own] by blast
  qed
  show ?thesis
  proof (cases "mb_backend c")
    case (Rtu r)
    with res have "modbus_rtu_connect c r w = Done (rc, c', w')" by (simp add: be_connect_def)
    from rtu_connect_result [OF this Rtu] own closed Rtu show ?thesis
      by (auto simp: owns_def quiet_def opened_def is_rtu_def)
  next
    case (Tcp t)
    with res have "modbus_tcp_connect c w = Done (rc, c', w')" by (simp add: be_connect_def)
    then show ?thesis by (rule tcp [OF tcp_connect_result])
  next
    case (TcpPi t)
    with res have "modbus_tcp_pi_connect c w = Done (rc, c', w')" by (simp add: be_connect_def)
    then show ?thesis by (rule tcp [OF tcp_pi_connect_result])
  qed
qed

lemma close_owns:
  assumes "owns others c w" and "be_close c w = Done (c', w')"
  shows "owns others c' w' \<and> mb_s c' < 0"
proof -
  note res = be_close_result [OF assms(2)]
  show ?thesis using assms(1) res by (cases "mb_s c < 0") (simp_all add: owns_def)
qed

lemma run_calls_own:
  "run_calls calls (Some c) w = Done (Some c', w') \<Longrightarrow> wf_context c \<Longrightarrow> disciplined (is_rtu c) opn calls \<Longrightarrow>
   opn \<or> mb_s c < 0 \<Longrightarrow> owns others c w \<Longrightarrow> owns others c' w'"
proof (induction calls arbitrary: c w opn)
  case (Cons call calls)
  from Cons.prems(1) obtain rc c1 w1 where call: "run_call call (Some c) w = Done (rc, c1, w1)"
    and rest: "run_calls calls c1 w1 = Done (Some c', w')" by (auto elim!: obind_DoneE)
  from run_call_keeps [OF Cons.prems(2) call] obtain c2 where c2: "c1 = Some c2" "wf_context c2" "is_rtu c2 = is_rtu c"
    "keeps_socket call \<Longrightarrow> mb_s c2 = mb_s c \<and> w_fds w1 = w_fds w" by (auto simp: call_keeps_def)
  note IH = Cons.IH [OF rest [unfolded c2(1)] c2(2), unfolded c2(3)]
  show ?case
  proof (cases "keeps_socket call")
    case True
    then have "disciplined (is_rtu c) opn calls" using Cons.prems(3) by (cases call) (simp_all add: keeps_socket_def)
    with IH [of opn] c2(4) [OF True] Cons.prems(4,5) show ?thesis by (simp add: owns_def)
  next
    case False
    then consider "call = Connect" | "call = Close" using Cons.prems(3) by (cases call) (auto simp: keeps_socket_def)
    then show ?thesis
    proof cases
      case 1
      with call c2(1) have "be_connect c w = Done (rc, c2, w1)"
        by (auto simp: run_call_def modbus_connect_def elim!: obind_DoneE)
      from connect_owns [OF Cons.prems(5) this] IH [of True] 1 Cons.prems(3,4) show ?thesis by auto
    next
      case 2
      with call c2(1) have "be_close c w = Done (c2, w1)"
        by (auto simp: run_call_def modbus_close_def elim!: obind_DoneE)
      from close_owns [OF Cons.prems(5) this] IH [of False] 2 Cons.prems(3) show ?thesis by auto
    qed
  qed
qed simp

text \<open>The contexts of the constructors.\<close>

lemma common_ctx_wf:
  "wf_context (common_ctx (-1) (Rtu r) junk) \<longleftrightarrow> rtu_serial_mode r \<in> {MODBUS_RTU_RS232, MODBUS_RTU_RS485} \<and>
     rtu_rts r \<in> {MODBUS_RTU_RTS_NONE, MODBUS_RTU_RTS_UP, MODBUS_RTU_RTS_DOWN} \<and> 0 \<le> rtu_rts_delay r"
  "wf_context (common_ctx 255 (Tcp t) junk)" "wf_context (common_ctx 255 (TcpPi u) junk)"
  "is_rtu (common_ctx slave (Rtu r) junk)" "\<not> is_rtu (common_ctx slave (Tcp t) junk)" "\<not> is_rtu (common_ctx slave (TcpPi u) junk)"
  by (simp_all add: wf_context_def wf_line_def is_rtu_def)

lemma new_rtu_wf:
  "modbus_new_rtu device baud parity data_bit stop_bit junk tios st = (Some c, st') \<Longrightarrow> wf_context c \<and> mb_s c = -1 \<and> is_rtu c"
  by (clarsimp simp: modbus_new_rtu_def Let_def split: option.splits if_split_asm prod.splits)
     (auto simp: common_ctx_wf intro!: pos_imp_zdiv_nonneg_iff [THEN iffD2])

lemma new_tcp_wf:
  "modbus_new_tcp ip port junk junk_ip st = Done (Some c, st') \<Longrightarrow> wf_context c \<and> mb_s c = -1 \<and> \<not> is_rtu c"
  by (auto simp: modbus_new_tcp_def Let_def common_ctx_wf split: option.splits if_split_asm prod.splits elim!: obind_DoneE)

lemma new_tcp_pi_wf:
  "modbus_new_tcp_pi node service junk_port junk st = (Some c, st') \<Longrightarrow> wf_context c \<and> mb_s c = -1 \<and> \<not> is_rtu c"
  by (auto simp: modbus_new_tcp_pi_def Let_def common_ctx_wf split: if_split_asm prod.splits)

section \<open>Timeouts\<close>

text \<open>What is set is what is read; what cannot be a timeout is refused and nothing changes.\<close>

definition timeout_set :: "modbus \<Rightarrow> world \<Rightarrow> bool \<Rightarrow> u32 \<Rightarrow> u32 \<Rightarrow>
    (modbus option \<Rightarrow> world \<Rightarrow> int \<times> u32 option \<times> u32 option \<times> world) \<Rightarrow> int \<times> modbus option \<times> world \<Rightarrow> bool" where
  "timeout_set c w ok sec usec get r \<longleftrightarrow>
     (case r of (rc, c', w') \<Rightarrow>
        if ok then rc = 0 \<and> w' = w \<and> get c' w = (0, Some sec, Some usec, w)
        else rc = -1 \<and> c' = Some c \<and> w' = set_errno EINVAL w)"

lemma timeouts_set_and_get:
  fixes sec usec :: u32
  shows "timeout_set c w (usec \<le> 999999 \<and> (sec \<noteq> 0 \<or> usec \<noteq> 0)) sec usec (modbus_get_response_timeout (Some a) (Some b))
      (modbus_set_response_timeout sec usec (Some c) w)"
    and "timeout_set c w (usec \<le> 999999) sec usec (modbus_get_byte_timeout (Some a) (Some b)) (modbus_set_byte_timeout sec usec (Some c) w)"
    and "timeout_set c w (usec \<le> 999999) sec usec (modbus_get_indication_timeout (Some a) (Some b))
      (modbus_set_indication_timeout sec usec (Some c) w)"
  by (auto simp: timeout_set_def accessor_defs modbus_get_response_timeout_def modbus_get_byte_timeout_def
      modbus_get_indication_timeout_def get_timeout_def not_le)

section \<open>Listening and accepting\<close>

text \<open>A listening socket is returned open, or every descriptor that was opened for it is closed again.\<close>

lemma close_fail_result [simp]: "close_fail s w = Done (rc, w') \<longleftrightarrow> rc = -1 \<and> w' = sys_close s w"
  by (auto simp: close_fail_def)

text \<open>A call whose failure leads to \<open>g\<close>.\<close>

lemma guarded_callE:
  assumes "obind (sys_call w1) (\<lambda>(rc, w). if P rc then g w else f w) = Done r"
  obtains (failed) w2 where "quiet w1 w2" "g w2 = Done r" | (passed) w2 where "quiet w1 w2" "f w2 = Done r"
  using assms sys_call_quiet by (fastforce elim!: obind_DoneE split: if_splits)

lemma quiet_closed: "opened s w w1 \<Longrightarrow> 0 \<le> s \<Longrightarrow> quiet w1 w2 \<Longrightarrow> quiet w (sys_close s w2)"
  by (rule opened_closed [OF opened_quiet])

lemma tcp_pi_listen_list_result:
  "tcp_pi_listen_list ais w = Done (s, w') \<Longrightarrow> (s < 0 \<longrightarrow> s = -1) \<and> opened s w w'"
proof (induction ais arbitrary: w)
  case Nil
  then show ?case by (simp add: opened_neg)
next
  case (Cons inet ais)
  from Cons.prems obtain s1 w1 where op: "sys_open w = Done (s1, w1)" by (auto elim!: obind_DoneE)
  note o = sys_open_opened [OF op]
  have next_address: "(s < 0 \<longrightarrow> s = -1) \<and> opened s w w'" if "quiet w w2" "tcp_pi_listen_list ais w2 = Done (s, w')" for w2
    using Cons.IH [OF that(2)] quiet_opened [OF that(1)] by blast
  show ?case
  proof (cases "s1 < 0")
    case True
    with Cons.prems op o next_address [of w1] show ?thesis by (simp add: opened_neg)
  next
    case False
    note closed = next_address [OF quiet_closed [OF o]]
    from False Cons.prems op have "obind (sys_call w1) (\<lambda>(rc, w). if rc \<noteq> 0 then tcp_pi_listen_list ais (sys_close s1 w)
        else obind (sys_call w) (\<lambda>(rc, w). if rc \<noteq> 0 then tcp_pi_listen_list ais (sys_close s1 w)
        else obind (sys_call w) (\<lambda>(rc, w). if rc \<noteq> 0 then tcp_pi_listen_list ais (sys_close s1 w)
        else Done (s1, w)))) = Done (s, w')" by simp
    then show ?thesis
      by (elim guarded_callE) (use False closed opened_quiet [OF o] in \<open>force dest: quiet_trans\<close>)+
  qed
qed

text \<open>The results of system calls are \<open>-1\<close> or not negative, as the system documents.\<close>

definition posix_results :: "world \<Rightarrow> bool" where
  "posix_results w \<longleftrightarrow> (\<forall>(r, e) \<in> set (w_calls w). -1 \<le> r)"

lemma sys_open_posix: "posix_results w \<Longrightarrow> sys_open w = Done (s, w') \<Longrightarrow> -1 \<le> s"
  by (auto simp: posix_results_def sys_open_def sys_call_def elim!: obind_DoneE split: list.splits if_splits)

lemma tcp_listen_result:
  assumes "modbus_tcp_listen (Some c) nb w = Done (s, w')" and "posix_results w" and tcp: "mb_backend c = Tcp t"
  shows "s = -1 \<and> quiet w w' \<or> 0 \<le> s \<and> opened s w w'"
proof -
  from assms(1) tcp obtain s1 w1 where op: "sys_open w = Done (s1, w1)"
    by (auto simp: modbus_tcp_listen_def elim!: obind_DoneE)
  note o = sys_open_opened [OF op]
  show ?thesis
  proof (cases "s1 = -1")
    case True
    with assms(1) tcp op o show ?thesis by (simp add: modbus_tcp_listen_def opened_neg)
  next
    case False
    with sys_open_posix [OF assms(2) op] have s1: "0 \<le> s1" by simp
    note closed = quiet_closed [OF o s1]
    let ?rest = "\<lambda>w. obind (sys_call w) (\<lambda>(rc, w). if rc = -1 then close_fail s1 w
       else obind (sys_call w) (\<lambda>(rc, w). if rc = -1 then close_fail s1 w else Done (s1, w)))"
    have rest: ?thesis if "?rest w2 = Done (s, w')" "quiet w1 w2" for w2
      using that(1) by (elim guarded_callE)
        (use that(2) closed s1 opened_quiet [OF o] in \<open>force dest: quiet_trans\<close>)+
    from False assms(1) tcp op have "obind (sys_call w1) (\<lambda>(rc, w). if rc = -1 then close_fail s1 w
        else obind (if tcp_ip t \<noteq> [] \<and> hd (tcp_ip t) = CHR ''0'' then Done (1, w) else sys_call w)
          (\<lambda>(rc, w). if rc \<le> 0 then close_fail s1 w else ?rest w)) = Done (s, w')"
      by (simp add: modbus_tcp_listen_def)
    then show ?thesis
    proof (cases rule: guarded_callE)
      case (failed w2)
      with closed show ?thesis by auto
    next
      case (passed w2)
      show ?thesis
      proof (cases "tcp_ip t \<noteq> [] \<and> hd (tcp_ip t) = CHR ''0''")
        case True
        with passed rest show ?thesis by simp
      next
        case False
        with passed(2) have "obind (sys_call w2) (\<lambda>(rc, w). if rc \<le> 0 then close_fail s1 w else ?rest w) = Done (s, w')"
          by simp
        then show ?thesis
          by (cases rule: guarded_callE) (use closed rest quiet_trans [OF passed(1)] in auto)
      qed
    qed
  qed
qed

lemma tcp_pi_listen_result:
  assumes "modbus_tcp_pi_listen (Some c) nb w = Done (s, w')" and tcp: "mb_backend c = TcpPi t"
  shows "s = -1 \<and> quiet w w' \<or> 0 \<le> s \<and> opened s w w'"
proof -
  from assms(1) tcp obtain rc w1 where call: "sys_call w = Done (rc, w1)"
    and "(if rc \<noteq> 0 then Done (fail_errno ECONNREFUSED w1)
          else obind (tcp_pi_listen_list (w_addrs w1) w1) (\<lambda>(s, w). if s < 0 then Done (-1, w) else Done (s, w))) = Done (s, w')"
    by (auto simp: modbus_tcp_pi_listen_def elim!: obind_DoneE)
  with sys_call_quiet [OF call] show ?thesis
    by (auto simp: opened_neg split: if_splits elim!: obind_DoneE dest!: tcp_pi_listen_list_result
        intro: quiet_trans quiet_opened)
qed

lemma tcp_accept_result:
  assumes "modbus_tcp_accept (Some c) w = Done (s, c', w') \<or> modbus_tcp_pi_accept (Some c) w = Done (s, c', w')"
  shows "(\<exists>k. c' = Some (c\<lparr>mb_s := k\<rparr>) \<and> (s = -1 \<and> k < 0 \<and> quiet w w' \<or> s = k \<and> 0 \<le> k \<and> k < FD_SETSIZE \<and> opened k w w'))"
proof -
  have same: "modbus_tcp_pi_accept = modbus_tcp_accept"
    by (intro ext) (simp add: modbus_tcp_pi_accept_def modbus_tcp_accept_def)
  with assms obtain k w1 where op: "sys_open w = Done (k, w1)"
    by (auto simp: modbus_tcp_accept_def elim!: obind_DoneE)
  note o = sys_open_opened [OF op]
  show ?thesis
    using assms op o opened_closed [OF o] unfolding same
    by (auto simp: modbus_tcp_accept_def opened_neg Let_def split: if_splits intro: exI [of _ k] exI [of _ "-1"])
qed

text \<open>The three timeouts are read back as they were set.\<close>

theorem timeouts_are_read_as_set:
  fixes sec usec :: u32
  shows "timeout_set c w (usec \<le> 999999 \<and> (sec \<noteq> 0 \<or> usec \<noteq> 0)) sec usec (modbus_get_response_timeout (Some a) (Some b))
      (modbus_set_response_timeout sec usec (Some c) w) \<and>
    timeout_set c w (usec \<le> 999999) sec usec (modbus_get_byte_timeout (Some a) (Some b)) (modbus_set_byte_timeout sec usec (Some c) w) \<and>
    timeout_set c w (usec \<le> 999999) sec usec (modbus_get_indication_timeout (Some a) (Some b))
      (modbus_set_indication_timeout sec usec (Some c) w)"
  by (intro conjI timeouts_set_and_get)

end
