(* ===== verification/Mb_Loop.thy ===== *)
theory Mb_Loop
  imports Mb_Session Mb_Config
begin

text \<open>
  A server at work: the operations of the library on one context, one query buffer and one mapping,
  in any order the application calls them, as a step relation. The invariant of its states is what
  makes every call safe, so no reachable state can make the library leave an array.
\<close>

section \<open>The exception response\<close>

lemma reply_exception_value:
  assumes len: "length rsp = 260" and q: "header_length c + 1 \<le> length req" and code: "uint code < 12"
  shows "modbus_reply_exception (Some c) (Some req) code rsp w =
    obind (send_frame c (be_frame c (exception_sft (sft_of c req)) [ucast code]) w)
      (\<lambda>(rc, c, w). Done (rc, Some c, w))"
proof -
  let ?h = "header_length c" and ?sft = "exception_sft (sft_of c req)"
  have fits: "?h + 1 \<le> length rsp" using len header_checksum_bounds(2) [of c] by linarith
  from be.basis_fits [OF fits, of ?sft] obtain rsp1 where b: "be_build_response_basis c ?sft rsp = Done (?h + 1, rsp1)"
    and l1: "length rsp1 = length rsp" by blast
  let ?m = "rsp1[?h + 1 := ucast code]"
  have in_range: "?h + 1 < length rsp1" using l1 len header_checksum_bounds(2) [of c] by linarith
  then have wr: "wr rsp1 (?h + 1) (ucast code) = Done ?m" by (simp only: wr_Done)
  have head: "take (?h + 1) ?m = take (?h + 1) rsp1" by (rule take_update_cancel) simp
  have body: "drop (?h + 1) (take (?h + 2) ?m) = [ucast code]"
  proof -
    have "take (?h + 2) ?m = take (?h + 1) ?m @ [?m ! (?h + 1)]"
      using in_range take_Suc_conv_app_nth [of "?h + 1" ?m] by simp
    then show ?thesis using in_range by simp
  qed
  have n: "?h + 1 \<le> ?h + 2" "?h + 2 + checksum_length c \<le> length ?m" "?h + 2 < 65536"
    using l1 len header_checksum_bounds(2) [of c] header_checksum_bounds(4) [of c] unfolding length_list_update by linarith+
  from send_msg_frame [OF b fits head n, of w, unfolded body] obtain msg' where
      send: "send_msg c ?m (?h + 2) w = obind (send_frame c (be_frame c ?sft [ucast code]) w)
        (\<lambda>(rc, ctx, w). Done (rc, ctx, msg', w))" by blast
  have rds: "rd req (?h - 1) = Done (req ! (?h - 1))" "rd req ?h = Done (req ! ?h)"
    using q by (auto intro!: rd_Done)
  have tid: "be_get_response_tid c req = Done (if is_rtu c then 0 else be16 (req ! 0) (req ! 1))"
    using q by (intro response_tid_value) simp
  have sft: "\<lparr>sft_slave = uint (req ! (?h - 1)), sft_function = uint (req ! ?h) + 0x80,
      sft_t_id = (if is_rtu c then 0 else be16 (req ! 0) (req ! 1))\<rparr> = ?sft"
    by (simp add: exception_sft_def sft_of_def)
  have l2: "?h + 1 + 1 = ?h + 2" by simp
  show ?thesis
    unfolding modbus_reply_exception_def prod.case option.case Let_def rds tid obind.simps sft b
    using code by (simp only: MODBUS_EXCEPTION_MAX_def if_True wr obind.simps l2 send obind_assoc case_prod_unfold fst_conv snd_conv)
qed

lemma reply_exception_refused:
  assumes "length rsp = 260" and q: "header_length c + 1 \<le> length req" and "12 \<le> uint code"
  shows "modbus_reply_exception (Some c) (Some req) code rsp w = Done (-1, Some c, set_errno EINVAL w)"
proof -
  let ?h = "header_length c"
  have fits: "?h + 1 \<le> length rsp" using assms(1) header_checksum_bounds(2) [of c] by linarith
  from be.basis_fits [OF fits, of "exception_sft (sft_of c req)"] obtain rsp1 where
    b: "be_build_response_basis c (exception_sft (sft_of c req)) rsp = Done (?h + 1, rsp1)" by blast
  have rds: "rd req (?h - 1) = Done (req ! (?h - 1))" "rd req ?h = Done (req ! ?h)"
    using q by (auto intro!: rd_Done)
  have tid: "be_get_response_tid c req = Done (if is_rtu c then 0 else be16 (req ! 0) (req ! 1))"
    using q by (intro response_tid_value) simp
  have sft: "\<lparr>sft_slave = uint (req ! (?h - 1)), sft_function = uint (req ! ?h) + 0x80,
      sft_t_id = (if is_rtu c then 0 else be16 (req ! 0) (req ! 1))\<rparr> = exception_sft (sft_of c req)"
    by (simp add: exception_sft_def sft_of_def)
  show ?thesis
    unfolding modbus_reply_exception_def prod.case option.case Let_def rds tid obind.simps sft b
    using assms(3) by simp
qed

section \<open>The states of a server\<close>

text \<open>
  The context, the query buffer, the length that the last reception returned, the mapping, and the
  outside world.
\<close>

record server =
  sv_ctx :: modbus
  sv_query :: "byte list"
  sv_len :: int
  sv_mapping :: mapping
  sv_world :: world

inductive server_step :: "server \<Rightarrow> server \<Rightarrow> bool" where
  receive: "modbus_receive (Some (sv_ctx s)) (sv_query s) (sv_world s) = Done (rc, Some c, query, w) \<Longrightarrow>
     server_step s (s\<lparr>sv_ctx := c, sv_query := query, sv_len := rc, sv_world := w\<rparr>)"
| reply: "length rsp = 260 \<Longrightarrow>
     modbus_reply (Some (sv_ctx s)) (Some (sv_query s)) (sv_len s) (Some (sv_mapping s)) rsp (sv_world s) =
       Done (rc, Some c, Some m, w) \<Longrightarrow>
     server_step s (s\<lparr>sv_ctx := c, sv_mapping := m, sv_world := w\<rparr>)"
| reply_exception: "length rsp = 260 \<Longrightarrow>
     modbus_reply_exception (Some (sv_ctx s)) (Some (sv_query s)) code rsp (sv_world s) = Done (rc, Some c, w) \<Longrightarrow>
     server_step s (s\<lparr>sv_ctx := c, sv_world := w\<rparr>)"
| call: "run_call call (Some (sv_ctx s)) (sv_world s) = Done (rc, Some c, w) \<Longrightarrow>
     server_step s (s\<lparr>sv_ctx := c, sv_world := w\<rparr>)"
| application: "sv_mapping s' = (sv_mapping s)\<lparr>mp_tab_registers := (mp_tab_registers (sv_mapping s))[i := v],
       mp_tab_input_registers := (mp_tab_input_registers (sv_mapping s))[j := u]\<rparr> \<Longrightarrow>
     s' = s\<lparr>sv_mapping := sv_mapping s'\<rparr> \<Longrightarrow> server_step s s'"
| application_bits: "b \<in> {0, 1} \<Longrightarrow> d \<in> {0, 1} \<Longrightarrow>
     sv_mapping s' = (sv_mapping s)\<lparr>mp_tab_bits := (mp_tab_bits (sv_mapping s))[i := b],
       mp_tab_input_bits := (mp_tab_input_bits (sv_mapping s))[j := d]\<rparr> \<Longrightarrow>
     s' = s\<lparr>sv_mapping := sv_mapping s'\<rparr> \<Longrightarrow> server_step s s'"

inductive server_reach :: "server \<Rightarrow> server \<Rightarrow> bool" where
  start: "server_reach s s"
| step: "server_reach s s' \<Longrightarrow> server_step s' s'' \<Longrightarrow> server_reach s s''"

section \<open>The invariant\<close>

text \<open>
  The context is well formed, the query buffer has its size, the last length is inside it, the
  mapping is well formed, its start addresses fit, and it still has the dimensions it had.
\<close>

definition same_dimensions :: "mapping \<Rightarrow> mapping \<Rightarrow> bool" where
  "same_dimensions m m' \<longleftrightarrow>
     m' = m\<lparr>mp_tab_bits := mp_tab_bits m', mp_tab_input_bits := mp_tab_input_bits m',
            mp_tab_input_registers := mp_tab_input_registers m', mp_tab_registers := mp_tab_registers m'\<rparr>"

definition server_ok :: "server \<Rightarrow> bool" where
  "server_ok s \<longleftrightarrow>
     wf_context (sv_ctx s) \<and> length (sv_query s) = 260 \<and> sv_len s \<le> 260 \<and> wf_mapping (sv_mapping s) \<and> addressable (sv_mapping s) \<and> bits_01 (sv_mapping s)"

lemma same_dimensions_refl [simp]: "same_dimensions m m"
  by (simp add: same_dimensions_def)

lemma same_dimensions_trans: "same_dimensions m m1 \<Longrightarrow> same_dimensions m1 m2 \<Longrightarrow> same_dimensions m m2"
  by (cases m; cases m1; cases m2) (simp add: same_dimensions_def)

lemma keeps_same_dimensions: "keeps m m' \<Longrightarrow> same_dimensions m m'"
  by (cases m; cases m') (simp add: same_dimensions_def keeps_def)

lemma application_mapping:
  assumes "m' = m\<lparr>mp_tab_registers := (mp_tab_registers m)[i := v], mp_tab_input_registers := (mp_tab_input_registers m)[j := u]\<rparr>"
  shows "same_dimensions m m'" and "wf_mapping m \<Longrightarrow> wf_mapping m'" and "bits_01 m \<Longrightarrow> bits_01 m'"
    and "addressable m \<Longrightarrow> addressable m'"
  by (simp_all add: assms same_dimensions_def wf_mapping_def bits_01_def addressable_def)

lemma application_bits_mapping:
  assumes "m' = m\<lparr>mp_tab_bits := (mp_tab_bits m)[i := b], mp_tab_input_bits := (mp_tab_input_bits m)[j := d]\<rparr>"
  shows "same_dimensions m m'" and "wf_mapping m \<Longrightarrow> wf_mapping m'"
    and "b \<in> {0, 1} \<Longrightarrow> d \<in> {0, 1} \<Longrightarrow> bits_01 m \<Longrightarrow> bits_01 m'"
    and "addressable m \<Longrightarrow> addressable m'"
  by (auto simp: assms same_dimensions_def wf_mapping_def bits_01_def addressable_def list_all_iff dest!: set_update_subset_insert [THEN subsetD])

text \<open>A reception changes nothing of the configuration; a serial server only keeps what to ignore.\<close>

lemma be_receive_wf:
  assumes len: "max_adu_length c \<le> length query" and r: "be_receive c query w = Done (rc, c', query', w')" and wf: "wf_context c"
  shows "wf_context c'"
proof -
  have msg: "wf_context c1" if "modbus_receive_msg c query mt w = Done (rc1, c1, query1, w1)" for mt rc1 c1 query1 w1
    using receive_msg_result [OF len that] wf by (auto intro: relinked_wf)
  have flag: "wf_context (c1\<lparr>mb_backend := Rtu (r\<lparr>rtu_confirmation_to_ignore := v\<rparr>)\<rparr>)"
    if "wf_context c1" "mb_backend c1 = Rtu r" for c1 r v
    using that by (simp add: wf_context_defs)
  show ?thesis
    using r msg flag
    by (cases "mb_backend c")
       (auto simp: be_receive_def modbus_rtu_receive_def modbus_tcp_receive_def Let_def split: if_splits backend_data.splits elim!: obind_DoneE)
qed

lemma server_receive:
  assumes ok: "server_ok s" and r: "modbus_receive (Some (sv_ctx s)) (sv_query s) (sv_world s) = Done (rc, Some c, query, w)"
  shows "length query = 260 \<and> rc \<le> 260 \<and> wf_context c"
proof -
  from r have "be_receive (sv_ctx s) (sv_query s) (sv_world s) = Done (rc, c, query, w)"
    by (auto simp: modbus_receive_def elim!: obind_DoneE)
  moreover have "max_adu_length (sv_ctx s) \<le> length (sv_query s)" using ok by (simp add: server_ok_def)
  ultimately have "length query = length (sv_query s)" "rc \<le> int (length query)" "wf_context c"
    using be_receive_result be_receive_wf ok unfolding server_ok_def by fastforce+
  then show ?thesis using ok by (simp add: server_ok_def)
qed

lemma server_step_ok:
  assumes step: "server_step s s'" and ok: "server_ok s"
  shows "server_ok s' \<and> same_dimensions (sv_mapping s) (sv_mapping s')"
  using step
proof (cases rule: server_step.cases)
  case (receive rc c query w)
  with server_receive [OF ok receive(2)] ok show ?thesis by (simp add: server_ok_def)
next
  case (reply rsp rc c m w)
  have n: "sv_len s \<le> int (length (sv_query s))" and wf: "wf_mapping (sv_mapping s)" "addressable (sv_mapping s)"
    using ok by (simp_all add: server_ok_def)
  from reply_keeps [OF wf reply(2) n reply(3)] have "keeps (sv_mapping s) m" "relinked (sv_ctx s) c" by simp_all
  with relinked_wf keeps_wf keeps_addressable keeps_bits keeps_same_dimensions reply ok show ?thesis by (auto simp: server_ok_def)
next
  case (reply_exception rsp code rc c w)
  have q: "header_length (sv_ctx s) + 1 \<le> length (sv_query s)"
    using ok header_checksum_bounds(2) [of "sv_ctx s"] unfolding server_ok_def by linarith
  have "relinked (sv_ctx s) c"
    using reply_exception(3) reply_exception_value [OF reply_exception(2) q] reply_exception_refused [OF reply_exception(2) q]
    by (cases "uint code < 12") (auto elim!: obind_DoneE dest!: send_frame_result)
  with relinked_wf reply_exception ok show ?thesis by (auto simp: server_ok_def)
next
  case (call call rc c w)
  from run_call_keeps [OF _ call(2)] ok call(1) show ?thesis by (auto simp: server_ok_def call_keeps_def)
next
  case (application_bits b d i j)
  with application_bits_mapping [OF application_bits(3)] ok show ?thesis
    by (metis server.select_convs(1,2,3) server.simps(4) server_ok_def server.update_convs(4) server.surjective)
next
  case (application i v j u)
  with application_mapping [OF application(1)] ok show ?thesis
    by (metis server.select_convs(1,2,3) server.simps(4) server_ok_def server.update_convs(4) server.surjective)
qed

lemma server_reach_ok:
  "server_reach s s' \<Longrightarrow> server_ok s \<Longrightarrow> server_ok s' \<and> same_dimensions (sv_mapping s) (sv_mapping s')"
  by (induction rule: server_reach.induct) (auto dest: server_step_ok intro: same_dimensions_trans)

text \<open>The calls of a reachable server: they end, or wait, and stay in their arrays.\<close>

lemma server_calls_safe:
  assumes ok: "server_ok s" and len: "length rsp = 260"
  shows "modbus_receive (Some (sv_ctx s)) (sv_query s) (sv_world s) \<noteq> Fault"
    and "modbus_reply (Some (sv_ctx s)) (Some (sv_query s)) (sv_len s) (Some (sv_mapping s)) rsp (sv_world s) \<noteq> Fault"
    and "modbus_reply_exception (Some (sv_ctx s)) (Some (sv_query s)) code rsp (sv_world s) \<noteq> Fault"
proof -
  have room: "max_adu_length (sv_ctx s) \<le> length (sv_query s)" using ok by (simp add: server_ok_def)
  show "modbus_receive (Some (sv_ctx s)) (sv_query s) (sv_world s) \<noteq> Fault"
    using be_receive_not_Fault [OF room] by (auto simp: modbus_receive_def outcome_iff)
  show "modbus_reply (Some (sv_ctx s)) (Some (sv_query s)) (sv_len s) (Some (sv_mapping s)) rsp (sv_world s) \<noteq> Fault"
    by (rule modbus_reply_not_Fault) (use ok len in \<open>simp_all add: server_ok_def\<close>)
  have q: "header_length (sv_ctx s) + 1 \<le> length (sv_query s)"
    using ok header_checksum_bounds(2) [of "sv_ctx s"] unfolding server_ok_def by linarith
  show "modbus_reply_exception (Some (sv_ctx s)) (Some (sv_query s)) code rsp (sv_world s) \<noteq> Fault"
  proof (cases "uint code < 12")
    case True
    then show ?thesis unfolding reply_exception_value [OF len q True] by (auto simp: outcome_iff)
  next
    case False
    then show ?thesis using reply_exception_refused [OF len q] by simp
  qed
qed

end
