(* ===== verification/Mb_Examples.thy ===== *)
theory Mb_Examples
  imports Mb_Loop
begin

text \<open>
  Small contexts, mappings, worlds and runs at which the properties of the development are
  instantiated: a RTU and a TCP context on descriptor 5, a mapping with a few values, and a client
  and a server that exchange a request and its response.
\<close>

section \<open>Contexts and worlds for the examples\<close>

definition example_rtu_data :: modbus_rtu where
  "example_rtu_data = \<lparr>rtu_device = ''/dev/ttyS0'', rtu_baud = 9600, rtu_data_bit = 8, rtu_stop_bit = 1,
     rtu_parity = CHR ''N'', rtu_serial_mode = 0, rtu_rts = 0, rtu_rts_delay = 0, rtu_onebyte_time = 1041,
     rtu_set_rts = Rtu_ioctl_rts, rtu_old_tios = no_tios, rtu_confirmation_to_ignore = False\<rparr>"

definition example_ctx :: "backend_data \<Rightarrow> modbus" where
  "example_ctx d = \<lparr>mb_slave = 1, mb_s = 5, mb_debug = 0, mb_error_recovery = 0, mb_quirks = 0,
     mb_response_timeout = \<lparr>tv_sec = 0, tv_usec = 500000\<rparr>, mb_byte_timeout = \<lparr>tv_sec = 0, tv_usec = 500000\<rparr>,
     mb_indication_timeout = \<lparr>tv_sec = 0, tv_usec = 0\<rparr>, mb_backend = d\<rparr>"

definition example_rtu :: modbus where
  "example_rtu = example_ctx (Rtu example_rtu_data)"

definition example_tcp :: modbus where
  "example_tcp = example_ctx (Tcp \<lparr>tcp_t_id = 6, tcp_port = 502, tcp_ip = ''127.0.0.1''\<rparr>)"

definition example_world :: "rx_event list \<Rightarrow> tx_event list \<Rightarrow> (int \<times> errno) list \<Rightarrow> world" where
  "example_world rx tx calls = \<lparr>w_errno = ENone, w_rx = rx, w_tx = tx, w_calls = calls, w_sent = [], w_fds = [5],
     w_slept = [], w_armed = [], w_rts = [], w_usleep = [], w_tios = no_tios, w_addrs = [True]\<rparr>"

definition example_mapping :: mapping where
  "example_mapping = \<lparr>mp_nb_bits = 3, mp_start_bits = 0, mp_nb_input_bits = 1, mp_start_input_bits = 10,
     mp_nb_input_registers = 1, mp_start_input_registers = 0, mp_nb_registers = 3, mp_start_registers = 16,
     mp_tab_bits = [1, 0, 1], mp_tab_input_bits = [1], mp_tab_input_registers = [7],
     mp_tab_registers = [0x1234, 0xFFFF, 0]\<rparr>"

lemmas example_defs =
  example_rtu_data_def example_ctx_def example_rtu_def example_tcp_def example_world_def example_mapping_def

lemma example_ctx_fields [simp]:
  "is_rtu example_rtu" "\<not> is_rtu example_tcp" "mb_s example_rtu = 5" "mb_s example_tcp = 5"
  "mb_slave example_rtu = 1" "mb_slave example_tcp = 1"
  "mb_error_recovery example_rtu = 0" "mb_error_recovery example_tcp = 0"
  by (simp_all add: example_defs is_rtu_def)

lemma example_lengths [simp]:
  "header_length example_rtu = 1" "header_length example_tcp = 7" "checksum_length example_rtu = 2"
  "checksum_length example_tcp = 0" "max_adu_length example_rtu = 256" "max_adu_length example_tcp = 260"
  by (simp_all add: header_length_def checksum_length_def max_adu_length_def)

lemma example_world_fields [simp]:
  "w_rx (example_world rx tx calls) = rx" "w_tx (example_world rx tx calls) = tx"
  "w_calls (example_world rx tx calls) = calls" "w_sent (example_world rx tx calls) = []"
  "w_fds (example_world rx tx calls) = [5]" "w_errno (example_world rx tx calls) = ENone"
  by (simp_all add: example_world_def)

lemma example_backends [simp]:
  "mb_backend example_rtu = Rtu example_rtu_data"
  "mb_backend example_tcp = Tcp \<lparr>tcp_t_id = 6, tcp_port = 502, tcp_ip = ''127.0.0.1''\<rparr>"
  by (simp_all add: example_rtu_def example_tcp_def example_ctx_def)

lemma example_addressable [simp]: "addressable example_mapping" "start_fits (served_start f example_mapping)"
proof -
  show "addressable example_mapping" by (simp add: addressable_def start_fits_def example_mapping_def)
  then show "start_fits (served_start f example_mapping)" by (rule addressable_start)
qed

lemma example_wf_mapping [simp]: "wf_mapping example_mapping" "bits_01 example_mapping"
  by (simp_all add: wf_mapping_def bits_01_def example_mapping_def)

lemma example_mapping_fields [simp]:
  "mp_start_bits example_mapping = 0" "mp_tab_bits example_mapping = [1, 0, 1]"
  "mp_start_registers example_mapping = 16" "mp_tab_registers example_mapping = [0x1234, 0xFFFF, 0]"
  by (simp_all add: example_mapping_def)

definition example_server :: server where
  "example_server = \<lparr>sv_ctx = example_tcp, sv_query = replicate 260 0, sv_len = -1, sv_mapping = example_mapping,
     sv_world = example_world [] [] []\<rparr>"

lemma example_wf_context: "wf_context example_tcp" "wf_context example_rtu"
  by (simp_all add: wf_context_defs wf_timeval_def example_defs)

lemma example_server_ok: "server_ok example_server"
  by (simp add: server_ok_def example_server_def example_wf_context)

text \<open>What a run of an example unfolds.\<close>

lemmas example_reply =
  serve_request_def meta_length_def message_length_def data_length_def compute_meta_length_after_function_def
  serve_def answer_mapping_def answer_world_def answer_frame_def canonical_header_def broadcast_silent_def be_type_def
  in_table_def slice_def arg_def be_frame_def sft_of_def

lemma example_be_send [simp]:
  "length f \<le> k \<Longrightarrow> be_send example_tcp f (example_world rx (Tx_sent k # tx) calls) =
     Done (int (length f), (example_world rx tx calls)\<lparr>w_sent := [f]\<rparr>)"
  by (simp add: be_send_def sys_send_def Let_def) (simp add: example_world_def)

lemma example_send [simp]:
  "length f \<le> k \<Longrightarrow> send_frame example_tcp f (example_world rx (Tx_sent k # tx) calls) =
     Done (int (length f), example_tcp, (example_world rx tx calls)\<lparr>w_sent := [f]\<rparr>)"
  by (rule send_frame_whole) simp

lemmas example_run = example_reply serve_registers_def tcp_frame_def Let_def
  int_hi8_def int_lo8_def hi8_def lo8_def be16_eq

text \<open>A client and a server, both \<open>example_tcp\<close>: requests, the runs that answer them, the line between them.\<close>

lemma example_sizes: "length (replicate 260 (0 :: byte)) = 260" "length (replicate 12 (0 :: byte)) = 12"
  by simp_all

lemma example_usable: "usable example_tcp"
  by (simp add: usable_def)

lemma example_request_ctx [simp]:
  "mb_backend (request_ctx example_tcp) = Tcp \<lparr>tcp_t_id = 7, tcp_port = 502, tcp_ip = ''127.0.0.1''\<rparr>"
  by (simp add: request_ctx_def set_backend_t_id_def next_t_id_def backend_t_id_def)

lemma example_sft: "request_sft example_tcp f = \<lparr>sft_slave = 1, sft_function = f, sft_t_id = 7\<rparr>"
  by (simp add: request_sft_def next_t_id_def backend_t_id_def)

lemma example_be_send_request:
  "length f \<le> k \<Longrightarrow> be_send (request_ctx example_tcp) f (example_world rx (Tx_sent k # tx) calls) =
     Done (int (length f), (example_world rx tx calls)\<lparr>w_sent := [f]\<rparr>)"
  by (simp add: be_send_def sys_send_def Let_def) (simp add: example_world_def)

lemma example_answered:
  assumes "[] \<notin> set cs" and "length q \<le> k"
  shows "answered (request_ctx example_tcp) q (concat cs) (example_world (map Rx_data cs) [Tx_sent k] [])"
  unfolding answered_def
  using assms example_be_send_request [of q k "map Rx_data cs" "[]" "[]"]
  by (intro exI [of _ "(example_world (map Rx_data cs) [] [])\<lparr>w_sent := [q]\<rparr>"] exI [of _ cs] exI [of _ "[]"]) simp

lemma example_send_frame:
  assumes "w_tx w = Tx_sent k # tx" and "length f \<le> k"
  shows "send_frame example_tcp f w = Done (int (length f), example_tcp, w\<lparr>w_tx := tx, w_sent := w_sent w @ [f]\<rparr>)"
  by (rule send_frame_whole) (use assms in \<open>simp add: be_send_def sys_send_def Let_def\<close>)

lemmas example_receive = complete_def message_length_def meta_length_def data_length_def compute_meta_length_after_function_def
  be_check_integrity_def modbus_tcp_check_integrity_def

text \<open>A turn of the server: the request arrives at once.\<close>

lemma example_served:
  fixes q :: "byte list"
  defines "buf \<equiv> q @ replicate (260 - length q) 0"
  assumes q: "8 \<le> length q" "q ! 2 = 0" "q ! 3 = 0" and complete: "complete example_tcp MSG_INDICATION q"
    and ans: "serve_request example_tcp buf (length q) example_mapping = Answer b m1"
    and fr: "answer_frame example_tcp buf (Answer b m1) = fr" "length fr \<le> 100" "0 < length fr"
  shows "served example_tcp example_mapping q fr m1"
proof -
  let ?w0 = "example_world [Rx_data q] [Tx_sent 100] []" and ?query = "replicate 260 (0 :: byte)"
  have "max_adu_length example_tcp \<le> length ?query" by simp
  moreover have "q \<noteq> []" using q(1) by auto
  ultimately obtain a where
    "modbus_receive_msg example_tcp ?query MSG_INDICATION ?w0 = Done (int (length q), example_tcp, buf, armed_and_read a [] ?w0)"
    using receive_msg_chunks [OF complete, of ?query ?w0 "[q]" "[]"]
    by (auto simp: buf_def be_check_integrity_def modbus_tcp_check_integrity_def)
  then have rcv: "modbus_receive (Some example_tcp) ?query ?w0 = Done (int (length q), Some example_tcp, buf, armed_and_read a [] ?w0)"
    by (simp add: modbus_receive_def be_receive_def modbus_tcp_receive_def)
  have len: "length q \<le> length buf" "canonical_header example_tcp buf"
    using q by (simp_all add: buf_def canonical_header_def nth_append)
  define w where "w = armed_and_read a [] ?w0"
  have "send_frame example_tcp fr w = Done (int (length fr), example_tcp, w\<lparr>w_tx := [], w_sent := w_sent w @ [fr]\<rparr>)"
    by (rule example_send_frame) (use fr in \<open>simp_all add: armed_and_read_def w_def\<close>)
  then have reply: "modbus_reply (Some example_tcp) (Some buf) (int (length q)) (Some example_mapping) ?query w =
      Done (int (length fr), Some example_tcp, Some m1, w\<lparr>w_tx := [], w_sent := w_sent w @ [fr]\<rparr>)"
    using modbus_reply_value [of example_mapping ?query example_tcp "length q" buf w] q(1) len ans fr(1)
    by (simp add: broadcast_silent_def be_type_def answer_world_def answer_mapping_def)
  have rx: "w_rx ?w0 = map Rx_data [q] @ []" "[] \<notin> set [q]" "concat [q] = q" using q(1) by auto
  have pos: "0 < int (length q)" "0 < int (length fr)" using q(1) fr(3) by linarith+
  have sent: "w_sent (w\<lparr>w_tx := [], w_sent := w_sent w @ [fr]\<rparr>) = w_sent ?w0 @ [fr]" by (simp add: armed_and_read_def w_def)
  show ?thesis unfolding served_def using rx example_sizes(1) rcv [folded w_def] reply pos sent by blast
qed

lemma example_registers_request: "request_frame example_tcp 3 (req4 16 2) = [0, 7, 0, 0, 0, 6, 1, 3, 0, 16, 0, 2]"
  by (simp add: request_frame_def example_sft example_run)

lemma example_served_registers:
  "served example_tcp example_mapping (request_frame example_tcp 3 (req4 16 2))
     [0, 7, 0, 0, 0, 7, 1, 3, 4, 0x12, 0x34, 0xFF, 0xFF] example_mapping"
  unfolding example_registers_request by (rule example_served [where b = "[4, 0x12, 0x34, 0xFF, 0xFF]"]) (simp_all add: example_run example_receive)

lemma example_answered_registers:
  "answered (request_ctx example_tcp) (request_frame example_tcp 3 (req4 16 2))
     [0, 7, 0, 0, 0, 7, 1, 3, 4, 0x12, 0x34, 0xFF, 0xFF]
     (example_world [Rx_data [0, 7, 0], Rx_data [0, 0, 7, 1, 3, 4, 0x12, 0x34, 0xFF, 0xFF]] [Tx_sent 12] [])"
  using example_answered [of "[[0, 7, 0], [0, 0, 7, 1, 3, 4, 0x12, 0x34, 0xFF, 0xFF]]" "request_frame example_tcp 3 (req4 16 2)" 12]
  by (simp add: example_registers_request)

lemma example_bits_request: "request_frame example_tcp 1 (req4 0 3) = [0, 7, 0, 0, 0, 6, 1, 1, 0, 0, 0, 3]"
  by (simp add: request_frame_def example_sft example_run)

lemma example_served_bits:
  "served example_tcp example_mapping (request_frame example_tcp 1 (req4 0 3))
     [0, 7, 0, 0, 0, 4, 1, 1, 1, 5] example_mapping"
  unfolding example_bits_request
  by (rule example_served [where b = "[1, 5]"]) (simp_all add: example_run example_receive serve_bits_def)

lemma example_answered_bits:
  "answered (request_ctx example_tcp) (request_frame example_tcp 1 (req4 0 3)) [0, 7, 0, 0, 0, 4, 1, 1, 1, 5]
     (example_world [Rx_data [0, 7, 0, 0, 0, 4, 1], Rx_data [1, 1, 5]] [Tx_sent 12] [])"
  using example_answered [of "[[0, 7, 0, 0, 0, 4, 1], [1, 1, 5]]" "request_frame example_tcp 1 (req4 0 3)" 12]
  by (simp add: example_bits_request)

lemma example_write_request:
  "[0, 7, 0, 0, 0, 9, 1, 16, 0, 17, 0, 1, 2, 0xBE, 0xEF] =
     request_frame example_tcp 16 (req4 17 1 @ word_of_int (1 * 2) # bytes_of_regs (take (nat 1) [0xBEEF]))"
  by (simp add: request_frame_def example_sft example_run)

lemma example_served_write:
  "served example_tcp example_mapping [0, 7, 0, 0, 0, 9, 1, 16, 0, 17, 0, 1, 2, 0xBE, 0xEF]
     [0, 7, 0, 0, 0, 6, 1, 16, 0, 17, 0, 1] (example_mapping\<lparr>mp_tab_registers := [0x1234, 0xBEEF, 0]\<rparr>)"
  by (rule example_served [where b = "[0, 17, 0, 1]"]) (simp_all add: example_run example_receive serve_write_registers_def overwrite_def)

lemma example_answered_write:
  "answered (request_ctx example_tcp) [0, 7, 0, 0, 0, 9, 1, 16, 0, 17, 0, 1, 2, 0xBE, 0xEF] [0, 7, 0, 0, 0, 6, 1, 16, 0, 17, 0, 1]
     (example_world [Rx_data [0, 7, 0, 0, 0, 6, 1, 16, 0, 17, 0, 1]] [Tx_sent 15] [])"
  using example_answered [of "[[0, 7, 0, 0, 0, 6, 1, 16, 0, 17, 0, 1]]"] by simp

lemma example_coils_request:
  "[0, 7, 0, 0, 0, 8, 1, 15, 0, 1, 0, 2, 1, 1] =
     request_frame example_tcp 15 (req4 1 2 @ word_of_int ((2 + 7) div 8) # pack_bits (map as_bit (take (nat 2) [7, 0])))"
  by (simp add: request_frame_def example_sft example_run as_bit_def)

lemma example_served_coils:
  "served example_tcp example_mapping [0, 7, 0, 0, 0, 8, 1, 15, 0, 1, 0, 2, 1, 1]
     [0, 7, 0, 0, 0, 6, 1, 15, 0, 1, 0, 2] (example_mapping\<lparr>mp_tab_bits := [1, 1, 0]\<rparr>)"
  by (rule example_served [where b = "[0, 1, 0, 2]"]) (simp_all add: example_run example_receive serve_write_coils_def overwrite_def unpack_bits_def bit_byte_def upt_rec)

lemma example_answered_coils:
  "answered (request_ctx example_tcp) [0, 7, 0, 0, 0, 8, 1, 15, 0, 1, 0, 2, 1, 1] [0, 7, 0, 0, 0, 6, 1, 15, 0, 1, 0, 2]
     (example_world [Rx_data [0, 7, 0, 0, 0, 6, 1, 15, 0, 1, 0, 2]] [Tx_sent 14] [])"
  using example_answered [of "[[0, 7, 0, 0, 0, 6, 1, 15, 0, 1, 0, 2]]"] by simp

text \<open>Frames of the serial line, with their CRC evaluated.\<close>

lemma funpow_8: "(f ^^ 8) x = f (f (f (f (f (f (f (f x)))))))"
  by (simp add: eval_nat_numeral)

lemma example_rtu_frames:
  "be_frame example_rtu \<lparr>sft_slave = 1, sft_function = 3, sft_t_id = 0\<rparr> [0, 16, 0, 2] = [1, 3, 0, 16, 0, 2, 197, 206]"
  "be_frame example_rtu \<lparr>sft_slave = 2, sft_function = 3, sft_t_id = 0\<rparr> [0, 16, 0, 1] = [2, 3, 0, 16, 0, 1, 133, 252]"
  "be_frame example_rtu \<lparr>sft_slave = 2, sft_function = 3, sft_t_id = 0\<rparr> [2, 7, 8] = [2, 3, 2, 7, 8, 255, 178]"
  by (simp_all add: be_frame_def rtu_frame_def Let_def crc_ref_def crc_byte_def funpow_8 crc_bit_def lo8_def hi8_def)

end
