(* ===== verification/Mb_Proxy.thy ===== *)
theory Mb_Proxy
  imports Mb_Loop
begin

text \<open>
  The gateway \<open>modbus_proxy\<close> (modbus.c): a request that was received on the frontend is sent on the
  backend and its response is sent back. Each context has its own world (its descriptor, its
  input and output); \<open>errno\<close>, which belongs to the process, is handed from one to the other. The five
  stack arrays are \<open>stk 0\<close> (\<open>backend_req\<close>), \<open>stk 1\<close> (the array of \<open>modbus_send_raw_request_tid\<close>),
  \<open>stk 2\<close> (\<open>backend_rsp\<close>), \<open>stk 3\<close> (\<open>check_req\<close>), \<open>stk 4\<close> (\<open>frontend_rsp\<close>) and \<open>stk 5\<close> (the array of
  \<open>modbus_reply_exception\<close>).
\<close>

type_synonym proxied = "(int \<times> modbus option \<times> modbus option \<times> world \<times> world) outcome"

abbreviation errno_of :: "world \<Rightarrow> world \<Rightarrow> world" where
  "errno_of w w' \<equiv> w'\<lparr>w_errno := w_errno w\<rparr>"

text \<open>\<open>modbus_reply_exception(frontend_ctx, req, code); return -1;\<close>\<close>

definition gateway_exception :: "modbus \<Rightarrow> modbus option \<Rightarrow> byte list \<Rightarrow> int \<Rightarrow> byte list \<Rightarrow> world \<Rightarrow> world \<Rightarrow> proxied" where
  "gateway_exception f b req code rsp wfe wbe =
     obind (modbus_reply_exception (Some f) (Some req) (word_of_int code) rsp (errno_of wbe wfe)) (\<lambda>(rc, f, wfe). Done (-1, f, b, wfe, wbe))"

text \<open>The response of the backend in the frame of the frontend.\<close>

definition proxy_relay ::
    "modbus \<Rightarrow> modbus \<Rightarrow> byte list \<Rightarrow> int \<Rightarrow> byte list \<Rightarrow> int \<Rightarrow> (nat \<Rightarrow> byte list) \<Rightarrow> world \<Rightarrow> world \<Rightarrow> proxied" where
  "proxy_relay f b req t_id backend_rsp backend_rsp_length stk wfe wbe =
     (let pdu_length = backend_rsp_length - int (header_length b) - int (checksum_length b) in
      if pdu_length < 1 then gateway_exception f (Some b) req MODBUS_EXCEPTION_GATEWAY_TARGET (stk 5) wfe wbe
      else
        obind (rd backend_rsp (header_length b - 1)) (\<lambda>slave. obind (rd backend_rsp (header_length b)) (\<lambda>function.
        let sft = \<lparr>sft_slave = uint slave, sft_function = uint function, sft_t_id = t_id\<rparr> in
        obind (be_build_response_basis f sft (stk 4)) (\<lambda>(frontend_rsp_length, frontend_rsp).
        obind (if pdu_length > 1 then
                 obind (memcpy frontend_rsp frontend_rsp_length backend_rsp (header_length b + 1) (nat (pdu_length - 1)))
                   (\<lambda>frontend_rsp. Done (frontend_rsp_length + nat (pdu_length - 1), frontend_rsp))
               else Done (frontend_rsp_length, frontend_rsp)) (\<lambda>(frontend_rsp_length, frontend_rsp).
        obind (send_msg f frontend_rsp frontend_rsp_length (errno_of wbe wfe)) (\<lambda>(rc, f, rsp, wfe).
          Done (rc, Some f, Some b, wfe, wbe)))))))"

text \<open>The reception on the backend and the check of what came in.\<close>

definition proxy_answer ::
    "modbus \<Rightarrow> modbus \<Rightarrow> byte list \<Rightarrow> int \<Rightarrow> byte list \<Rightarrow> int \<Rightarrow> (nat \<Rightarrow> byte list) \<Rightarrow> world \<Rightarrow> world \<Rightarrow> proxied" where
  "proxy_answer f b req t_id backend_req backend_req_length stk wfe wbe =
     obind (modbus_receive_msg b (stk 2) MSG_CONFIRMATION wbe) (\<lambda>(backend_rsp_length, b, backend_rsp, wbe).
     if backend_rsp_length = -1 then
       gateway_exception f (Some b) req
         (if w_errno wbe = ETIMEDOUT then MODBUS_EXCEPTION_GATEWAY_TARGET else MODBUS_EXCEPTION_GATEWAY_PATH) (stk 5) wfe wbe
     else
       obind (rd backend_req 0) (\<lambda>slave. obind (rd backend_req 1) (\<lambda>function.
       let check_sft = \<lparr>sft_slave = uint slave, sft_function = uint function, sft_t_id = 0\<rparr> in
       obind (be_build_response_basis b check_sft (stk 3)) (\<lambda>(check_req_length, check_req).
       obind (if backend_req_length > 2 then memcpy check_req check_req_length backend_req 2 (nat (backend_req_length - 2))
              else Done check_req) (\<lambda>check_req.
       obind (be_pre_check_confirmation b check_req backend_rsp wbe) (\<lambda>(rc, wbe).
         if rc = -1 then gateway_exception f (Some b) req MODBUS_EXCEPTION_GATEWAY_TARGET (stk 5) wfe wbe
         else proxy_relay f b req t_id backend_rsp backend_rsp_length stk wfe wbe))))))"

definition modbus_proxy ::
    "modbus option \<Rightarrow> modbus option \<Rightarrow> byte list option \<Rightarrow> int \<Rightarrow> (nat \<Rightarrow> byte list) \<Rightarrow> world \<Rightarrow> world \<Rightarrow> proxied" where
  "modbus_proxy frontend_ctx backend_ctx req req_length stk wfe wbe =
     (case (frontend_ctx, backend_ctx, req) of
        (Some f, Some b, Some req) \<Rightarrow>
          if req_length < 1 then Done (-1, frontend_ctx, backend_ctx, set_errno EINVAL wfe, wbe)
          else
            let pdu_length = req_length - int (header_length f) - int (checksum_length f) in
            if pdu_length < 1 \<or> pdu_length > MODBUS_MAX_PDU_LENGTH + 1
            then Done (-1, frontend_ctx, backend_ctx, set_errno EMBBADDATA wfe, wbe)
            else
              obind (rd req (header_length f - 1)) (\<lambda>slave.
              case modbus_set_slave (uint slave) (Some b) (errno_of wfe wbe) of (rc, backend_ctx, wbe) \<Rightarrow>
              if rc = -1 then gateway_exception f backend_ctx req MODBUS_EXCEPTION_GATEWAY_PATH (stk 5) wfe wbe
              else
                obind (memcpy (stk 0) 0 req (header_length f - 1) (nat (pdu_length + 1))) (\<lambda>backend_req.
                obind (be_get_response_tid f req) (\<lambda>t_id.
                obind (modbus_send_raw_request_tid backend_ctx (Some backend_req) (pdu_length + 1) 0 (stk 1) wbe)
                  (\<lambda>(rc, backend_ctx, wbe).
                  if rc = -1 then gateway_exception f backend_ctx req MODBUS_EXCEPTION_GATEWAY_PATH (stk 5) wfe wbe
                  else (case backend_ctx of
                          None \<Rightarrow> Fault
                        | Some b \<Rightarrow> proxy_answer f b req t_id backend_req (pdu_length + 1) stk wfe wbe)))))
      | _ \<Rightarrow> Done (-1, frontend_ctx, backend_ctx, set_errno EINVAL wfe, wbe))"

section \<open>Safety\<close>

lemma gateway_exception_eq:
  assumes "length rsp = 260" and "header_length f + 1 \<le> length req" and "0 \<le> code" "code < 12"
  shows "gateway_exception f b req code rsp wfe wbe =
    obind (send_frame f (be_frame f (exception_sft (sft_of f req)) [word_of_int code]) (errno_of wbe wfe))
      (\<lambda>(rc, f, wfe). Done (-1, Some f, b, wfe, wbe))"
proof -
  have "uint (word_of_int code :: u32) < 12" using assms(3,4) by (simp add: uint_word_of_int_eq take_bit_int_eq_self)
  moreover have "ucast (word_of_int code :: u32) = (word_of_int code :: byte)" by (rule bit_word_eqI) (simp add: bit_ucast_iff bit_word_of_int_iff)
  ultimately show ?thesis
    using reply_exception_value [OF assms(1,2), of "word_of_int code"] by (simp add: gateway_exception_def obind_assoc case_prod_unfold)
qed

lemma gateway_exception_not_Fault:
  "length rsp = 260 \<Longrightarrow> header_length f + 1 \<le> length req \<Longrightarrow> 0 \<le> code \<Longrightarrow> code < 12 \<Longrightarrow>
   gateway_exception f b req code rsp wfe wbe \<noteq> Fault"
  by (auto simp: gateway_exception_eq outcome_iff)

text \<open>What the relay sends: the function and the data of the backend's response under the frontend's identity.\<close>

lemma proxy_relay_eq:
  assumes stk: "\<forall>i :: nat. length (stk i) = 260" and len: "length rsp = 260"
    and n: "n \<le> max_adu_length b" "header_length b + 1 + checksum_length b \<le> n"
  shows "proxy_relay f b req t_id rsp (int n) stk wfe wbe =
    obind (send_frame f (be_frame f \<lparr>sft_slave = uint (rsp ! (header_length b - 1)),
               sft_function = uint (rsp ! header_length b), sft_t_id = t_id\<rparr>
             (take (n - header_length b - 1 - checksum_length b) (drop (header_length b + 1) rsp))) (errno_of wbe wfe))
      (\<lambda>(rc, f, wfe). Done (rc, Some f, Some b, wfe, wbe))"
proof -
  let ?h = "header_length b" and ?hf = "header_length f"
  define k where "k = n - header_length b - 1 - checksum_length b"
  let ?sft = "\<lparr>sft_slave = uint (rsp ! (?h - 1)), sft_function = uint (rsp ! ?h), sft_t_id = t_id\<rparr>"
  let ?body = "take k (drop (?h + 1) rsp)"
  have adu: "max_adu_length b \<le> ?h + 253 + checksum_length b"
    by (simp add: header_length_def checksum_length_def max_adu_length_def)
  have k: "k \<le> 252" "?h + 1 + k \<le> length rsp" using n adu len max_adu_bounds(2) [of b] unfolding k_def by linarith+
  have pdu: "int n - int ?h - int (checksum_length b) = int k + 1" using n(2) unfolding k_def by linarith
  have fits: "?hf + 1 \<le> length (stk 4)" using spec [OF stk, of 4] header_checksum_bounds(2) [of f] by linarith
  from be.basis_fits [OF fits, of ?sft] obtain rsp1 where basis: "be_build_response_basis f ?sft (stk 4) = Done (?hf + 1, rsp1)"
    and l1: "length rsp1 = length (stk 4)" by blast
  let ?m = "take (?hf + 1) rsp1 @ ?body @ drop (?hf + 1 + k) rsp1"
  have room: "?hf + 1 + k + checksum_length f \<le> length rsp1"
    using k(1) l1 spec [OF stk, of 4] header_checksum_bounds(4) [of f] by linarith
  have copy: "(if int k + 1 > 1 then obind (memcpy rsp1 (?hf + 1) rsp (?h + 1) (nat (int k + 1 - 1)))
        (\<lambda>rsp. Done (?hf + 1 + nat (int k + 1 - 1), rsp)) else Done (?hf + 1, rsp1)) = Done (?hf + 1 + k, ?m)"
    using room k(2) by (cases "k = 0") (simp_all del: One_nat_def)
  have rds: "rd rsp (?h - 1) = Done (rsp ! (?h - 1))" "rd rsp ?h = Done (rsp ! ?h)"
    using k(2) by (auto intro!: rd_Done)
  have lb: "length ?body = k" using k(2) by simp
  have head: "take (?hf + 1) ?m = take (?hf + 1) rsp1" using room by simp
  have body: "drop (?hf + 1) (take (?hf + 1 + k) ?m) = ?body"
  proof -
    have "length (take (?hf + 1) rsp1 @ ?body) = ?hf + 1 + k" using room lb by simp
    then have "take (?hf + 1 + k) ?m = take (?hf + 1) rsp1 @ ?body" by (metis append_assoc append_eq_conv_conj)
    moreover have "length (take (?hf + 1) rsp1) = ?hf + 1" using room by simp
    ultimately show ?thesis by (metis append_eq_conv_conj)
  qed
  have lm: "length ?m = length rsp1" using room lb by simp
  have size: "?hf + 1 \<le> ?hf + 1 + k" "?hf + 1 + k + checksum_length f \<le> length ?m" "?hf + 1 + k < 65536"
    unfolding lm using room k(1) header_checksum_bounds(2) [of f] by linarith+
  from send_msg_frame [OF basis fits head size, of "errno_of wbe wfe", unfolded body] obtain msg' where
      send: "send_msg f ?m (?hf + 1 + k) (errno_of wbe wfe) =
        obind (send_frame f (be_frame f ?sft ?body) (errno_of wbe wfe)) (\<lambda>(rc, ctx, w). Done (rc, ctx, msg', w))" by blast
  have "\<not> int k + 1 < 1" by simp
  then show ?thesis
    unfolding proxy_relay_def Let_def pdu k_def [symmetric] rds obind.simps basis prod.case
    by (simp only: if_False copy obind.simps prod.case send obind_assoc case_prod_unfold fst_conv snd_conv)
qed

lemma complete_bounds:
  assumes "complete ctx mt (take n msg)" and "n \<le> length msg"
  shows "n \<le> max_adu_length ctx" and "header_length ctx + 1 + checksum_length ctx \<le> n"
proof -
  have len: "length (take n msg) = n" using assms(2) by simp
  show "n \<le> max_adu_length ctx" using assms(1) unfolding complete_def len by simp
  show "header_length ctx + 1 + checksum_length ctx \<le> n"
    using assms(1) unfolding complete_def len message_length_def data_length_def Let_def by simp
qed

text \<open>The request that the check of the response compares it with.\<close>

lemma check_req_built:
  assumes stk: "\<forall>i :: nat. length (stk i) = 260" and q: "length backend_req = 260" and n: "2 \<le> n" "n \<le> 254"
  shows "\<exists>check_req. obind (be_build_response_basis b sft (stk 3)) (\<lambda>(check_req_length, check_req).
      obind (if n > 2 then memcpy check_req check_req_length backend_req 2 (nat (n - 2)) else Done check_req) g) = g check_req \<and>
    length check_req = 260 \<and>
    (\<exists>req1. be_build_response_basis b sft (stk 3) = Done (header_length b + 1, req1) \<and>
       take (header_length b + 1) check_req = take (header_length b + 1) req1)"
proof -
  let ?h = "header_length b" and ?k = "nat (n - 2)"
  have fits: "?h + 1 \<le> length (stk 3)" using spec [OF stk, of 3] header_checksum_bounds(2) [of b] by linarith
  from be.basis_fits [OF fits, of sft] obtain req1 where basis: "be_build_response_basis b sft (stk 3) = Done (?h + 1, req1)"
    and l1: "length req1 = length (stk 3)" by blast
  let ?m = "take (?h + 1) req1 @ take ?k (drop 2 backend_req) @ drop (?h + 1 + ?k) req1"
  have room: "?h + 1 + ?k \<le> length req1" "2 + ?k \<le> length backend_req"
    using l1 spec [OF stk, of 3] q n header_checksum_bounds(2) [of b] by linarith+
  have copy: "(if n > 2 then memcpy req1 (?h + 1) backend_req 2 ?k else Done req1) = Done ?m"
  proof (cases "n > 2")
    case True
    then show ?thesis using room by simp
  next
    case False
    then have "?k = 0" by simp
    with False show ?thesis by simp
  qed
  have "length ?m = 260" using room l1 spec [OF stk, of 3] by simp
  moreover have "take (?h + 1) ?m = take (?h + 1) req1" using room by simp
  moreover have "obind (be_build_response_basis b sft (stk 3)) (\<lambda>(check_req_length, check_req).
      obind (if n > 2 then memcpy check_req check_req_length backend_req 2 ?k else Done check_req) g) = g ?m"
    unfolding basis obind.simps prod.case copy ..
  ultimately show ?thesis using basis by blast
qed

lemma proxy_relay_not_Fault:
  assumes stk: "\<forall>i :: nat. length (stk i) = 260" and len: "length rsp = 260" and q: "header_length f + 1 \<le> length req"
    and n: "n \<le> max_adu_length b"
  shows "proxy_relay f b req t_id rsp (int n) stk wfe wbe \<noteq> Fault"
proof (cases "header_length b + 1 + checksum_length b \<le> n")
  case True
  show ?thesis unfolding proxy_relay_eq [OF stk len n True] by (auto simp: outcome_iff)
next
  case False
  then have "int n - int (header_length b) - int (checksum_length b) < 1" by linarith
  moreover have "gateway_exception f (Some b) req 11 (stk 5) wfe wbe \<noteq> Fault"
    by (rule gateway_exception_not_Fault) (use stk q in simp_all)
  ultimately show ?thesis unfolding proxy_relay_def Let_def by (simp only: if_True) simp
qed

lemma proxy_answer_not_Fault:
  assumes stk: "\<forall>i :: nat. length (stk i) = 260" and q: "header_length f + 1 \<le> length req"
    and bq: "length backend_req = 260" and n: "2 \<le> n" "n \<le> 254"
  shows "proxy_answer f b req t_id backend_req n stk wfe wbe \<noteq> Fault"
proof (cases "modbus_receive_msg b (stk 2) MSG_CONFIRMATION wbe")
  case Fault
  have "max_adu_length b \<le> length (stk 2)" using stk by simp
  from receive_msg_not_Fault [OF this] Fault show ?thesis by simp
next
  case Pending
  then show ?thesis by (simp add: proxy_answer_def)
next
  case (Done r)
  then obtain k b1 rsp w1 where rcv: "modbus_receive_msg b (stk 2) MSG_CONFIRMATION wbe = Done (k, b1, rsp, w1)" by (cases r) auto
  have room: "max_adu_length b \<le> length (stk 2)" using stk by simp
  note res = receive_msg_result [OF room rcv]
  have gw: "gateway_exception f (Some b1) req code (stk 5) wfe w \<noteq> Fault" if "0 \<le> code" "code < 12" for code w
    by (rule gateway_exception_not_Fault) (use stk q that in simp_all)
  show ?thesis
  proof (cases "k = -1")
    case True
    with rcv gw show ?thesis by (simp add: proxy_answer_def)
  next
    case False
    with res have same: "b1 = b" and len: "length rsp = 260" using spec [OF stk, of 2] by auto
    have k: "0 \<le> k" "nat k \<le> max_adu_length b"
      using res False complete_bounds(1) [of b MSG_CONFIRMATION "nat k" rsp] by auto
    let ?sft = "\<lparr>sft_slave = uint (backend_req ! 0), sft_function = uint (backend_req ! 1), sft_t_id = 0\<rparr>"
    let ?g = "\<lambda>check_req. obind (be_pre_check_confirmation b check_req rsp w1) (\<lambda>(rc, wbe).
         if rc = -1 then gateway_exception f (Some b) req MODBUS_EXCEPTION_GATEWAY_TARGET (stk 5) wfe wbe
         else proxy_relay f b req t_id rsp k stk wfe wbe)"
    from check_req_built [OF stk bq n, where b = b and sft = ?sft and g = ?g] obtain check_req where
        built: "obind (be_build_response_basis b ?sft (stk 3)) (\<lambda>(check_req_length, check_req).
          obind (if n > 2 then memcpy check_req check_req_length backend_req 2 (nat (n - 2)) else Done check_req) ?g) = ?g check_req"
      and lc: "length check_req = 260" by blast
    have rds: "rd backend_req 0 = Done (backend_req ! 0)" "rd backend_req 1 = Done (backend_req ! 1)"
      using bq by (simp_all add: rd_Done)
    have eq: "proxy_answer f b req t_id backend_req n stk wfe wbe = ?g check_req"
      unfolding proxy_answer_def rcv obind.simps prod.case rds Let_def same built using False by simp
    have h: "header_length b < length check_req" "header_length b < length rsp"
      unfolding lc len using header_checksum_bounds(2) [of b] by linarith+
    have relay: "proxy_relay f b req t_id rsp k stk wfe w \<noteq> Fault" for w
      using proxy_relay_not_Fault [OF stk len q k(2)] k(1) by simp
    show ?thesis unfolding eq pre_check_value [OF h] using gw [unfolded same] relay by simp
  qed
qed

lemma set_slave_result:
  "modbus_set_slave slave (Some b) w = (rc, b', w') \<Longrightarrow>
   \<exists>b1. b' = Some b1 \<and> is_rtu b1 = is_rtu b \<and> mb_s b1 = mb_s b \<and> (rc = 0 \<and> mb_slave b1 = slave \<and> w' = w \<or> rc = -1 \<and> b1 = b)"
  by (auto simp: modbus_set_slave_def be_set_slave_def modbus_rtu_set_slave_def modbus_tcp_set_slave_def is_rtu_def
        Let_def split: if_splits)

lemma send_raw_not_Fault:
  assumes "2 \<le> n" and "n \<le> int (length raw)" and "length req = 260"
  shows "modbus_send_raw_request_tid (Some b) (Some raw) n tid req w \<noteq> Fault"
    and "modbus_send_raw_request_tid (Some b) (Some raw) n tid req w = Done (rc, b', w') \<Longrightarrow> \<exists>b1. b' = Some b1"
    and "modbus_send_raw_request_tid (Some b) (Some raw) n tid req w = Done (rc, b', w') \<Longrightarrow> 254 < n \<Longrightarrow> rc = -1"
proof -
  have small: "modbus_send_raw_request_tid (Some b) (Some raw) n tid req w =
      obind (send_frame b (be_frame b \<lparr>sft_slave = uint (raw ! 0), sft_function = uint (raw ! 1), sft_t_id = tid\<rparr>
             (drop 2 (take (nat n) raw))) w) (\<lambda>(rc, c, w). Done (rc, Some c, w))" if "n \<le> 254"
    using send_raw_request_tid_eq [of n raw req b tid w] assms that by simp
  have large: "modbus_send_raw_request_tid (Some b) (Some raw) n tid req w = Done (-1, Some b, set_errno EINVAL w)" if "254 < n"
    using that by (simp add: modbus_send_raw_request_tid_def)
  show "modbus_send_raw_request_tid (Some b) (Some raw) n tid req w \<noteq> Fault"
    by (cases "n \<le> 254") (auto simp: small large outcome_iff)
  show "\<exists>b1. b' = Some b1" if "modbus_send_raw_request_tid (Some b) (Some raw) n tid req w = Done (rc, b', w')"
    using that by (cases "n \<le> 254") (auto simp: small large outcome_iff)
  show "rc = -1" if "modbus_send_raw_request_tid (Some b) (Some raw) n tid req w = Done (rc, b', w')" "254 < n"
    using that large by simp
qed

text \<open>The way of a request that passes the guards, up to the backend.\<close>

definition forwarded :: "modbus \<Rightarrow> byte list \<Rightarrow> int \<Rightarrow> byte list \<Rightarrow> byte list" where
  "forwarded f req n buf =
     (let k = nat (n - int (header_length f) - int (checksum_length f) + 1)
      in take k (drop (header_length f - 1) req) @ drop k buf)"

lemma proxy_forward_eq:
  assumes stk: "\<forall>i :: nat. length (stk i) = 260" and n: "n \<le> int (length req)"
    and pdu: "1 \<le> n - int (header_length f) - int (checksum_length f)" "n - int (header_length f) - int (checksum_length f) \<le> 254"
    and set: "modbus_set_slave (uint (req ! (header_length f - 1))) (Some b) (errno_of wfe wbe) = (rc, Some b1, wbe1)"
  shows "length (forwarded f req n (stk 0)) = 260" and "header_length f + 1 \<le> length req"
    and "modbus_proxy (Some f) (Some b) (Some req) n stk wfe wbe =
        (if rc = -1 then gateway_exception f (Some b1) req MODBUS_EXCEPTION_GATEWAY_PATH (stk 5) wfe wbe1
         else obind (modbus_send_raw_request_tid (Some b1) (Some (forwarded f req n (stk 0)))
                (n - int (header_length f) - int (checksum_length f) + 1) 0 (stk 1) wbe1) (\<lambda>(rc, backend_ctx, wbe).
           if rc = -1 then gateway_exception f backend_ctx req MODBUS_EXCEPTION_GATEWAY_PATH (stk 5) wfe wbe
           else (case backend_ctx of
                   None \<Rightarrow> Fault
                 | Some b \<Rightarrow> proxy_answer f b req (if is_rtu f then 0 else be16 (req ! 0) (req ! 1)) (forwarded f req n (stk 0))
                               (n - int (header_length f) - int (checksum_length f) + 1) stk wfe wbe)))"
proof -
  let ?pdu = "n - int (header_length f) - int (checksum_length f)"
  show q: "header_length f + 1 \<le> length req" using pdu n by linarith
  have slave: "rd req (header_length f - 1) = Done (req ! (header_length f - 1))" using q by (intro rd_Done) linarith
  have k: "header_length f - 1 + nat (?pdu + 1) \<le> length req" "nat (?pdu + 1) \<le> length (stk 0)"
    using pdu n spec [OF stk, of 0] header_checksum_bounds(1) [of f] by linarith+
  then have copy: "memcpy (stk 0) 0 req (header_length f - 1) (nat (?pdu + 1)) = Done (forwarded f req n (stk 0))"
    by (simp add: forwarded_def Let_def)
  show "length (forwarded f req n (stk 0)) = 260" using k spec [OF stk, of 0] by (simp add: forwarded_def Let_def)
  have tid: "be_get_response_tid f req = Done (if is_rtu f then 0 else be16 (req ! 0) (req ! 1))"
    using q by (intro response_tid_value) simp
  have "\<not> n < 1" using pdu(1) by linarith
  then have guards: "(n < 1) = False" "(?pdu < 1 \<or> ?pdu > MODBUS_MAX_PDU_LENGTH + 1) = False" using pdu by simp_all
  show "modbus_proxy (Some f) (Some b) (Some req) n stk wfe wbe =
        (if rc = -1 then gateway_exception f (Some b1) req MODBUS_EXCEPTION_GATEWAY_PATH (stk 5) wfe wbe1
         else obind (modbus_send_raw_request_tid (Some b1) (Some (forwarded f req n (stk 0))) (?pdu + 1) 0 (stk 1) wbe1)
           (\<lambda>(rc, backend_ctx, wbe).
           if rc = -1 then gateway_exception f backend_ctx req MODBUS_EXCEPTION_GATEWAY_PATH (stk 5) wfe wbe
           else (case backend_ctx of
                   None \<Rightarrow> Fault
                 | Some b \<Rightarrow> proxy_answer f b req (if is_rtu f then 0 else be16 (req ! 0) (req ! 1)) (forwarded f req n (stk 0))
                               (?pdu + 1) stk wfe wbe)))"
    by (simp only: modbus_proxy_def prod.case option.case Let_def guards if_False slave obind.simps set copy tid)
qed

text \<open>
  Whatever the frontend's request, the two lines and the device behind the backend do, the gateway
  makes no access outside the request and its six stack arrays.
\<close>

lemma modbus_proxy_not_Fault:
  assumes stk: "\<forall>i :: nat. length (stk i) = 260" and n: "n \<le> int (length req)"
  shows "modbus_proxy (Some f) (Some b) (Some req) n stk wfe wbe \<noteq> Fault"
proof -
  let ?pdu = "n - int (header_length f) - int (checksum_length f)"
  show ?thesis
  proof (cases "n < 1 \<or> ?pdu < 1 \<or> ?pdu > 254")
    case True
    then show ?thesis by (auto simp: modbus_proxy_def Let_def)
  next
    case False
    then have pdu: "1 \<le> ?pdu" "?pdu \<le> 254" by linarith+
    obtain rc b' wbe1 where set: "modbus_set_slave (uint (req ! (header_length f - 1))) (Some b) (errno_of wfe wbe) = (rc, b', wbe1)"
      by (rule prod_cases3)
    from set_slave_result [OF set] obtain b1 where b1: "b' = Some b1" by blast
    note eq = proxy_forward_eq [OF stk n pdu set [unfolded b1]]
    let ?breq = "forwarded f req n (stk 0)"
    have gw: "gateway_exception f c req code (stk 5) wfe w \<noteq> Fault" if "0 \<le> code" "code < 12" for code w c
      by (rule gateway_exception_not_Fault) (use stk eq(2) that in simp_all)
    have raw: "2 \<le> ?pdu + 1" "?pdu + 1 \<le> int (length ?breq)" using pdu eq(1) by linarith+
    note send = send_raw_not_Fault [OF raw spec [OF stk, of 1], of b1 0 wbe1]
    show ?thesis
    proof (cases "rc = -1")
      case True
      then show ?thesis using gw by (simp add: eq(3))
    next
      case False
      show ?thesis
        unfolding eq(3) if_not_P [OF False]
      proof (rule obind_neq_Fault [OF send(1)], clarify)
        fix rc2 b2 wbe2
        assume sent: "modbus_send_raw_request_tid (Some b1) (Some ?breq) (?pdu + 1) 0 (stk 1) wbe1 = Done (rc2, b2, wbe2)"
          and fault: "(if rc2 = -1 then gateway_exception f b2 req MODBUS_EXCEPTION_GATEWAY_PATH (stk 5) wfe wbe2
            else (case b2 of
                    None \<Rightarrow> Fault
                  | Some b \<Rightarrow> proxy_answer f b req (if is_rtu f then 0 else be16 (req ! 0) (req ! 1)) ?breq (?pdu + 1) stk wfe wbe2)) = Fault"
        from send(2) [OF sent] obtain b3 where b3: "b2 = Some b3" by blast
        have "proxy_answer f b3 req t ?breq (?pdu + 1) stk wfe wbe2 \<noteq> Fault" if "rc2 \<noteq> -1" for t
        proof (rule proxy_answer_not_Fault [OF stk eq(2,1) raw(1)])
          show "?pdu + 1 \<le> 254" using send(3) [OF sent] that by linarith
        qed
        with gw b3 fault show False by (simp split: if_splits)
      qed
    qed
  qed
qed

section \<open>Transparency\<close>

text \<open>
  A request that the device behind the backend answers: the frontend gets the answer's function and
  data under the identity of its own request, whatever the two backends are.
\<close>

lemma proxy_answer_relays:
  assumes stk: "\<forall>i :: nat. length (stk i) = 260" and q: "header_length f + 1 \<le> length req"
    and bq: "length backend_req = 260" and n: "2 \<le> n" "n \<le> 254"
    and head: "backend_req ! 0 = word_of_int slave" 
    and id: "0 \<le> slave" "slave \<le> 255" "is_rtu b \<Longrightarrow> mb_slave b = slave"
    and link: "0 \<le> mb_s b" "mb_s b < FD_SETSIZE"
    and rx: "w_rx wbe = map Rx_data cs @ es" "[] \<notin> set cs"
    and frame: "concat cs = be_frame b \<lparr>sft_slave = slave, sft_function = fn, sft_t_id = 0\<rparr> body"
    and whole: "complete b MSG_CONFIRMATION (concat cs)"
  shows "\<exists>wbe'. proxy_answer f b req t_id backend_req n stk wfe wbe =
      obind (send_frame f (be_frame f \<lparr>sft_slave = slave, sft_function = fn, sft_t_id = t_id\<rparr> body) (errno_of wbe' wfe))
        (\<lambda>(rc, f, wfe). Done (rc, Some f, Some b, wfe, wbe')) \<and> w_sent wbe' = w_sent wbe \<and> w_rx wbe' = es"
proof -
  let ?F = "concat cs" and ?h = "header_length b"
  let ?sft = "\<lparr>sft_slave = slave, sft_function = fn, sft_t_id = 0\<rparr>"
  have room: "max_adu_length b \<le> length (stk 2)" using stk by simp
  from receive_msg_chunks [OF whole link room rx refl] obtain a where
      rcv: "modbus_receive_msg b (stk 2) MSG_CONFIRMATION wbe =
        obind (be_check_integrity b (?F @ drop (length ?F) (stk 2)) (length ?F) (armed_and_read a es wbe))
          (\<lambda>(rc, w). Done (rc, b, ?F @ drop (length ?F) (stk 2), w))" by blast
  let ?rsp = "?F @ drop (length ?F) (stk 2)" and ?w = "armed_and_read a es wbe"
  have lF: "length ?F = ?h + 1 + length body + checksum_length b" unfolding frame by (rule be.frame_length)
  have bound: "length ?F \<le> 260" using whole max_adu_bounds(2) [of b] unfolding complete_def by linarith
  have take: "take (length ?F) ?rsp = be_frame b ?sft body" unfolding frame by simp
  have sl: "uint (word_of_int slave :: byte) = slave" using id(1,2) by (simp add: uint_word_of_int)
  have integrity: "be_check_integrity b ?rsp (length ?F) ?w = Done (int (length ?F), ?w)"
    by (rule be_check_integrity_frame [OF take lF]) (use bound sl id(3) in simp_all)
  have rcv': "modbus_receive_msg b (stk 2) MSG_CONFIRMATION wbe = Done (int (length ?F), b, ?rsp, ?w)"
    by (simp add: rcv integrity)
  have lr: "length ?rsp = 260" using bound spec [OF stk, of 2] by simp
  have adu: "length ?F \<le> max_adu_length b" "?h + 1 + checksum_length b \<le> length ?F"
    using whole lF by (simp_all add: complete_def)
  let ?csft = "\<lparr>sft_slave = uint (backend_req ! 0), sft_function = uint (backend_req ! 1), sft_t_id = 0\<rparr>"
  let ?g = "\<lambda>check_req. obind (be_pre_check_confirmation b check_req ?rsp ?w) (\<lambda>(rc, wbe).
         if rc = -1 then gateway_exception f (Some b) req MODBUS_EXCEPTION_GATEWAY_TARGET (stk 5) wfe wbe
         else proxy_relay f b req t_id ?rsp (int (length ?F)) stk wfe wbe)"
  from check_req_built [OF stk bq n, where b = b and sft = ?csft and g = ?g] obtain check_req req1 where
      built: "obind (be_build_response_basis b ?csft (stk 3)) (\<lambda>(check_req_length, check_req).
        obind (if n > 2 then memcpy check_req check_req_length backend_req 2 (nat (n - 2)) else Done check_req) ?g) = ?g check_req"
    and lc: "length check_req = 260" and basis: "be_build_response_basis b ?csft (stk 3) = Done (?h + 1, req1)"
    and same_head: "take (?h + 1) check_req = take (?h + 1) req1" by blast
  have rds: "rd backend_req 0 = Done (backend_req ! 0)" "rd backend_req 1 = Done (backend_req ! 1)"
    using bq by (simp_all add: rd_Done)
  have h: "?h < length check_req" "?h < length ?rsp"
    unfolding lc lr using header_checksum_bounds(2) [of b] by linarith+
  have pre: "pre_check_ok b check_req ?rsp"
  proof -
    have nth: "check_req ! i = req1 ! i" if "i < ?h + 1" for i using arg_cong [OF same_head, of "\<lambda>l. l ! i"] that by simp
    have rs: "?rsp ! i = be_frame b ?sft body ! i" if "i < ?h + 1" for i using frame_in_buffer(3) [OF take that] .
    have "?h + 1 \<le> length (stk 3)" using spec [OF stk, of 3] header_checksum_bounds(2) [of b] by linarith
    then show ?thesis
    proof (cases "is_rtu b")
      case True
      with basis \<open>?h + 1 \<le> length (stk 3)\<close> have "req1 ! 0 = word_of_int slave"
        using rtu_basis_value [of "stk 3" ?csft] head sl
        by (auto simp: be_build_response_basis_def backend_lengths numeral_2_eq_2)
      moreover have "?rsp ! 0 = word_of_int slave" using rs [of 0] True by (simp add: be_frame_def rtu_frame_def Let_def)
      ultimately show ?thesis using nth [of 0] True by (simp add: pre_check_ok_def)
    next
      case False
      with basis \<open>?h + 1 \<le> length (stk 3)\<close> have "req1 ! 0 = int_hi8 0" "req1 ! 1 = int_lo8 0"
        using tcp_basis_value [of "stk 3" ?csft] by (auto simp: be_build_response_basis_def backend_lengths)
      moreover have "?rsp ! 0 = int_hi8 0" "?rsp ! 1 = int_lo8 0" "?rsp ! 2 = 0" "?rsp ! 3 = 0"
        using rs [of 0] rs [of 1] rs [of 2] rs [of 3] False by (simp_all add: be_frame_def tcp_frame_def backend_lengths)
      ultimately show ?thesis using nth [of 0] nth [of 1] False by (simp add: pre_check_ok_def backend_lengths)
    qed
  qed
  have "proxy_answer f b req t_id backend_req n stk wfe wbe = ?g check_req"
    unfolding proxy_answer_def rcv' obind.simps prod.case rds Let_def built by simp
  also have "\<dots> = proxy_relay f b req t_id ?rsp (int (length ?F)) stk wfe ?w"
    unfolding pre_check_value [OF h] using pre by simp
  also have "\<dots> = obind (send_frame f (be_frame f \<lparr>sft_slave = uint (?rsp ! (?h - 1)),
               sft_function = uint (?rsp ! ?h), sft_t_id = t_id\<rparr>
             (take (length ?F - ?h - 1 - checksum_length b) (drop (?h + 1) ?rsp))) (errno_of ?w wfe))
      (\<lambda>(rc, f, wfe). Done (rc, Some f, Some b, wfe, ?w))"
    by (rule proxy_relay_eq [OF stk lr adu])
  also have "be_frame f \<lparr>sft_slave = uint (?rsp ! (?h - 1)), sft_function = uint (?rsp ! ?h), sft_t_id = t_id\<rparr>
        (take (length ?F - ?h - 1 - checksum_length b) (drop (?h + 1) ?rsp)) =
      be_frame f \<lparr>sft_slave = slave, sft_function = fn, sft_t_id = t_id\<rparr> body"
  proof -
    have "?rsp ! (?h - 1) = word_of_int slave"
      using frame_in_buffer(3) [OF take, of "?h - 1"] be.frame_slave [of b ?sft body] by simp
    moreover have "?rsp ! ?h = word_of_int fn" using frame_in_buffer(1) [OF take] by simp
    moreover have "take (length ?F - ?h - 1 - checksum_length b) (drop (?h + 1) ?rsp) = body"
    proof -
      have k: "length ?F - ?h - 1 - checksum_length b = length body" using lF by simp
      from buffer_body [of b ?sft body ?rsp] obtain post where "drop (?h + 1) ?rsp = body @ post"
        using take unfolding frame by auto
      then show ?thesis unfolding k by simp
    qed
    ultimately show ?thesis by (simp add: be_frame_def rtu_frame_def tcp_frame_def)
  qed
  finally show ?thesis by (intro exI [of _ ?w]) (simp add: armed_and_read_def)
qed

lemma forwarded_value:
  assumes pdu: "1 \<le> n - int (header_length f) - int (checksum_length f)" and n: "n \<le> int (length req)"
  defines "k \<equiv> nat (n - int (header_length f) - int (checksum_length f))"
  shows "forwarded f req n buf ! 0 = req ! (header_length f - 1)" and "forwarded f req n buf ! 1 = req ! header_length f"
    and "drop 2 (take (k + 1) (forwarded f req n buf)) = take (k - 1) (drop (header_length f + 1) req)"
proof -
  have k: "nat (n - int (header_length f) - int (checksum_length f) + 1) = Suc k" using pdu unfolding k_def by linarith
  have room: "header_length f + k \<le> length req" "1 \<le> k" using pdu n unfolding k_def by linarith+
  have f: "forwarded f req n buf = take (Suc k) (drop (header_length f - 1) req) @ drop (Suc k) buf"
    by (simp only: forwarded_def Let_def k)
  have h: "0 < header_length f" by simp
  have l: "length (take (Suc k) (drop (header_length f - 1) req)) = Suc k"
    unfolding length_take length_drop by (intro min_absorb2) (use room h in linarith)
  have nth: "forwarded f req n buf ! i = req ! (header_length f - 1 + i)" if "i < Suc k" for i
  proof -
    have "forwarded f req n buf ! i = take (Suc k) (drop (header_length f - 1) req) ! i"
      unfolding f nth_append l using that by simp
    also have "\<dots> = drop (header_length f - 1) req ! i" using that by simp
    also have "\<dots> = req ! (header_length f - 1 + i)" using room by (intro nth_drop) linarith
    finally show ?thesis .
  qed
  show "forwarded f req n buf ! 0 = req ! (header_length f - 1)" "forwarded f req n buf ! 1 = req ! header_length f"
    using nth [of 0] nth [of 1] room h by simp_all
  have "drop 2 (take (k + 1) (forwarded f req n buf)) = drop 2 (take (Suc k) (drop (header_length f - 1) req))"
    unfolding f using l by simp
  also have "\<dots> = take (k - 1) (drop (header_length f + 1) req)"
    using h by (simp add: drop_take numeral_2_eq_2)
  finally show "drop 2 (take (k + 1) (forwarded f req n buf)) = take (k - 1) (drop (header_length f + 1) req)" .
qed

lemma proxy_transparent:
  fixes f b :: modbus and req :: "byte list"
  defines "slave \<equiv> uint (req ! (header_length f - 1))"
  assumes stk: "\<forall>i :: nat. length (stk i) = 260" and n: "n \<le> int (length req)"
    and pdu: "1 \<le> n - int (header_length f) - int (checksum_length f)" "n - int (header_length f) - int (checksum_length f) \<le> 253"
    and p: "p = take (nat (n - int (header_length f) - int (checksum_length f)) - 1) (drop (header_length f + 1) req)"
    and set: "modbus_set_slave slave (Some b) (errno_of wfe wbe) = (0, Some b1, errno_of wfe wbe)"
    and link: "0 \<le> mb_s b" "mb_s b < FD_SETSIZE"
    and q: "q = be_frame b \<lparr>sft_slave = slave, sft_function = uint (req ! header_length f), sft_t_id = 0\<rparr> p"
    and send: "be_send b1 q (errno_of wfe wbe) = Done (int (length q), w1)"
    and rx: "w_rx wbe = map Rx_data cs @ es" "[] \<notin> set cs"
    and frame: "concat cs = be_frame b \<lparr>sft_slave = slave, sft_function = fn, sft_t_id = 0\<rparr> body"
    and whole: "complete b MSG_CONFIRMATION (concat cs)"
  shows "\<exists>wbe'. modbus_proxy (Some f) (Some b) (Some req) n stk wfe wbe =
      obind (send_frame f (be_frame f \<lparr>sft_slave = slave, sft_function = fn,
          sft_t_id = (if is_rtu f then 0 else be16 (req ! 0) (req ! 1))\<rparr> body) (errno_of wbe' wfe))
        (\<lambda>(rc, f, wfe). Done (rc, Some f, Some b1, wfe, wbe')) \<and>
      w_sent wbe' = w_sent wbe @ [q] \<and> w_rx wbe' = es"
proof -
  let ?pdu = "n - int (header_length f) - int (checksum_length f)"
  let ?breq = "forwarded f req n (stk 0)" and ?t = "if is_rtu f then 0 else be16 (req ! 0) (req ! 1)"
  from set_slave_result [OF set] have b1: "is_rtu b1 = is_rtu b" "mb_s b1 = mb_s b" "mb_slave b1 = slave" by auto
  have frames: "be_frame b1 = be_frame b" "complete b1 = complete b"
    using b1(1) by (simp_all add: be_frame_def complete_def header_length_def max_adu_length_def message_length_def
        meta_length_def data_length_def checksum_length_def fun_eq_iff)
  have pdu': "?pdu \<le> 254" using pdu(2) by linarith
  note eq = proxy_forward_eq [OF stk n pdu(1) pdu' set [unfolded slave_def]]
  have raw: "2 \<le> ?pdu + 1" "?pdu + 1 \<le> 254" "?pdu + 1 \<le> int (length ?breq)" using pdu eq(1) by linarith+
  have k: "nat (?pdu + 1) = nat ?pdu + 1" using pdu(1) by linarith
  note value' = forwarded_value [OF pdu(1) n, of "stk 0"]
  have pos: "0 < length q" unfolding q by (simp add: be.frame_length)
  have "modbus_send_raw_request_tid (Some b1) (Some ?breq) (?pdu + 1) 0 (stk 1) (errno_of wfe wbe) =
      obind (send_frame b1 q (errno_of wfe wbe)) (\<lambda>(rc, c, w). Done (rc, Some c, w))"
    using send_raw_request_tid_eq [OF raw, of "stk 1" b1 0 "errno_of wfe wbe"] spec [OF stk, of 1]
    by (simp only: MAX_MESSAGE_LENGTH_def k value' frames q p slave_def)
  then have sent: "modbus_send_raw_request_tid (Some b1) (Some ?breq) (?pdu + 1) 0 (stk 1) (errno_of wfe wbe) =
      Done (int (length q), Some b1, w1)" by (simp add: send_frame_whole [OF send])
  note w1 = send_whole_frame [OF send pos]
  have rx1: "w_rx w1 = map Rx_data cs @ es" using w1(1) rx(1) by simp
  have link1: "0 \<le> mb_s b1" "mb_s b1 < FD_SETSIZE" using link b1(2) by simp_all
  have slave: "0 \<le> slave" "slave \<le> 255" unfolding slave_def using byte_bounds by simp_all
  have head: "?breq ! 0 = word_of_int slave" unfolding value'(1) slave_def by simp
  have "\<exists>wbe'. proxy_answer f b1 req ?t ?breq (?pdu + 1) stk wfe w1 =
      obind (send_frame f (be_frame f \<lparr>sft_slave = slave, sft_function = fn, sft_t_id = ?t\<rparr> body) (errno_of wbe' wfe))
        (\<lambda>(rc, f, wfe). Done (rc, Some f, Some b1, wfe, wbe')) \<and> w_sent wbe' = w_sent w1 \<and> w_rx wbe' = es"
    by (rule proxy_answer_relays [OF stk eq(2,1) raw(1,2) head slave _ link1 rx1 rx(2)])
       (use b1 frame whole frames in simp_all)
  moreover have "modbus_proxy (Some f) (Some b) (Some req) n stk wfe wbe = proxy_answer f b1 req ?t ?breq (?pdu + 1) stk wfe w1"
    unfolding eq(3) sent obind.simps prod.case option.case by simp
  ultimately show ?thesis using w1(2) by auto
qed

end
