(* ===== verification/Mb_Wire.thy ===== *)
theory Mb_Wire
  imports Mb_Examples Mb_Proxy
begin

text \<open>
  What passes over the line between the two ends: the request of a client as its server receives it,
  the traffic of the other slaves of a serial line, raw requests, and whole frames in general.
\<close>

section \<open>A request reaches its server\<close>

lemma request_received:
  fixes s c sft p
  defines "q \<equiv> be_frame c sft p"
  assumes same: "is_rtu s = is_rtu c" and whole: "whole_request f p" "length p \<le> 252" and sft: "sft_function sft = f"
    and fd: "0 \<le> mb_s s" "mb_s s < FD_SETSIZE" and len: "length query = 260"
    and addressed: "is_rtu s \<Longrightarrow> uint (word_of_int (sft_slave sft) :: byte) = mb_slave s \<or> sft_slave sft mod 256 = MODBUS_BROADCAST_ADDRESS"
    and awaiting: "\<forall>r. mb_backend s = Rtu r \<longrightarrow> \<not> rtu_confirmation_to_ignore r"
    and rx: "w_rx w = map Rx_data cs @ es" "[] \<notin> set cs" "concat cs = q"
  shows "\<exists>w'. modbus_receive (Some s) query w = Done (int (length q), Some s, q @ drop (length q) query, w') \<and>
    w_sent w' = w_sent w \<and> w_tx w' = w_tx w \<and> w_rx w' = es"
proof -
  have complete: "complete s MSG_INDICATION q" unfolding q_def by (rule whole_complete [OF same whole(1) sft whole(2)])
  have room: "max_adu_length s \<le> length query" using len by simp
  from receive_msg_chunks [OF complete fd room rx] obtain a where
    rcv: "modbus_receive_msg s query MSG_INDICATION w =
      obind (be_check_integrity s (q @ drop (length q) query) (length q) (armed_and_read a es w))
        (\<lambda>(rc, w). Done (rc, s, q @ drop (length q) query, w))" by blast
  have "be_frame s = be_frame c" using same by (simp add: be_frame_def fun_eq_iff)
  then have take: "take (length q) (q @ drop (length q) query) = be_frame s sft p" by (simp add: q_def)
  have lq: "length q = header_length s + 1 + length p + checksum_length s"
    unfolding q_def by (rule whole_indication(2) [OF same whole(1) sft])
  have "length q < 65536" using complete max_adu_bounds(2) [of s] unfolding complete_def by linarith
  from be_check_integrity_frame [OF take lq this addressed] rcv
  have "modbus_receive_msg s query MSG_INDICATION w =
      Done (int (length q), s, q @ drop (length q) query, armed_and_read a es w)" by simp
  moreover have "int (length q) \<noteq> 0" using lq by simp
  ultimately have "modbus_receive (Some s) query w =
      Done (int (length q), Some s, q @ drop (length q) query, armed_and_read a es w)"
    using awaiting by (cases "mb_backend s")
      (simp_all add: modbus_receive_def be_receive_def modbus_rtu_receive_def modbus_tcp_receive_def)
  then show ?thesis by (simp add: armed_and_read_def)
qed

section \<open>The other slaves of a serial line\<close>

text \<open>
  A serial server that has seen a request for another slave ignores the next message, which is the
  confirmation of that slave, and is then ready for a request again.
\<close>

definition ignoring :: "bool \<Rightarrow> modbus_rtu \<Rightarrow> modbus \<Rightarrow> modbus" where
  "ignoring v r s = s\<lparr>mb_backend := Rtu (r\<lparr>rtu_confirmation_to_ignore := v\<rparr>)\<rparr>"

lemma check_integrity_other:
  assumes rtu: "is_rtu s" and frame: "take n msg = be_frame s sft body" "n = length (be_frame s sft body)" and small: "n < 65536"
    and other: "uint (word_of_int (sft_slave sft) :: byte) \<noteq> mb_slave s" "sft_slave sft mod 256 \<noteq> MODBUS_BROADCAST_ADDRESS"
  shows "be_check_integrity s msg n w = Done (0, w)"
proof -
  have f: "take n msg = rtu_frame sft body" using frame(1) rtu by (simp add: be_frame_def)
  have n4: "n = length body + 4" using frame(2) be.frame_length [of s sft body] rtu backend_lengths(1) [OF rtu] by simp
  have len: "n \<le> length msg" using arg_cong [OF f, of length] n4 by (simp add: rtu_frame_def Let_def)
  have "msg ! 0 = word_of_int (sft_slave sft)"
    using arg_cong [OF f, of "\<lambda>m. m ! 0"] n4 by (simp add: rtu_frame_def Let_def)
  with rtu other len n4 small rtu_crc_ok_frame [OF f n4] show ?thesis
    by (simp add: be_check_integrity_def rtu_check_integrity_value uint_word_of_int)
qed

lemma receive_other:
  assumes rtu: "is_rtu s" and complete: "complete s mt (be_frame s sft body)"
    and fd: "0 \<le> mb_s s" "mb_s s < FD_SETSIZE" and len: "length query = 260"
    and other: "uint (word_of_int (sft_slave sft) :: byte) \<noteq> mb_slave s" "sft_slave sft mod 256 \<noteq> MODBUS_BROADCAST_ADDRESS"
    and rx: "w_rx w = map Rx_data cs @ es" "[] \<notin> set cs" "concat cs = be_frame s sft body"
  shows "\<exists>query' w'. modbus_receive_msg s query mt w = Done (0, s, query', w') \<and> length query' = 260 \<and>
    w_sent w' = w_sent w \<and> w_tx w' = w_tx w \<and> w_rx w' = es"
proof -
  let ?q = "be_frame s sft body"
  have room: "max_adu_length s \<le> length query" using len by simp
  have small: "length ?q \<le> 260" using complete max_adu_bounds(2) [of s] unfolding complete_def by linarith
  from receive_msg_chunks [OF complete fd room rx] obtain a where
    rcv: "modbus_receive_msg s query mt w =
      obind (be_check_integrity s (?q @ drop (length ?q) query) (length ?q) (armed_and_read a es w))
        (\<lambda>(rc, w). Done (rc, s, ?q @ drop (length ?q) query, w))" by blast
  have "be_check_integrity s (?q @ drop (length ?q) query) (length ?q) (armed_and_read a es w) = Done (0, armed_and_read a es w)"
    by (rule check_integrity_other [OF rtu _ refl _ other]) (use small in simp_all)
  with rcv show ?thesis using small len
    by (intro exI [of _ "?q @ drop (length ?q) query"] exI [of _ "armed_and_read a es w"]) (simp add: armed_and_read_def)
qed

lemma ignoring_same [simp]:
  assumes "mb_backend s = Rtu r"
  shows "is_rtu (ignoring v r s)" "mb_s (ignoring v r s) = mb_s s" "mb_slave (ignoring v r s) = mb_slave s"
    "be_frame (ignoring v r s) = be_frame s" "complete (ignoring v r s) = complete s"
    "mb_backend (ignoring v r s) = Rtu (r\<lparr>rtu_confirmation_to_ignore := v\<rparr>)"
  using assms
  by (auto simp: ignoring_def is_rtu_def be_frame_def fun_eq_iff complete_def message_length_def meta_length_def data_length_def
      header_length_def checksum_length_def max_adu_length_def Let_def)

lemma other_slave_ignored:
  assumes s: "mb_backend s = Rtu r" "\<not> rtu_confirmation_to_ignore r"
    and fd: "0 \<le> mb_s s" "mb_s s < FD_SETSIZE" and len: "length query = 260"
    and other: "uint (word_of_int (sft_slave sft) :: byte) \<noteq> mb_slave s" "sft_slave sft mod 256 \<noteq> MODBUS_BROADCAST_ADDRESS"
    and request: "complete s MSG_INDICATION (be_frame s sft p)" and answer: "complete s MSG_CONFIRMATION (be_frame s sft b)"
    and rx: "w_rx w = map Rx_data cs @ map Rx_data ds @ es" "[] \<notin> set cs" "[] \<notin> set ds"
      "concat cs = be_frame s sft p" "concat ds = be_frame s sft b"
  shows "\<exists>query1 w1 query2 w2.
    modbus_receive (Some s) query w = Done (0, Some (ignoring True r s), query1, w1) \<and>
    modbus_receive (Some (ignoring True r s)) query1 w1 = Done (0, Some s, query2, w2) \<and>
    w_sent w2 = w_sent w \<and> w_tx w2 = w_tx w \<and> w_rx w2 = es"
proof -
  have rtu: "is_rtu s" using s by (simp add: is_rtu_def)
  from receive_other [OF rtu request fd len other rx(1,2,4)] obtain query1 w1 where
    1: "modbus_receive_msg s query MSG_INDICATION w = Done (0, s, query1, w1)" "length query1 = 260"
      "w_sent w1 = w_sent w" "w_tx w1 = w_tx w" "w_rx w1 = map Rx_data ds @ es" by blast
  let ?s = "ignoring True r s"
  have 2: "complete ?s MSG_CONFIRMATION (be_frame ?s sft b)" "0 \<le> mb_s ?s" "mb_s ?s < FD_SETSIZE"
    "uint (word_of_int (sft_slave sft) :: byte) \<noteq> mb_slave ?s" "concat ds = be_frame ?s sft b"
    using s answer fd other rx(5) by simp_all
  from receive_other [OF ignoring_same(1) [OF s(1)] 2(1-3) 1(2) 2(4) other(2) 1(5) rx(3) 2(5)] obtain query2 w2 where
    3: "modbus_receive_msg ?s query1 MSG_CONFIRMATION w1 = Done (0, ?s, query2, w2)"
      "w_sent w2 = w_sent w1" "w_tx w2 = w_tx w1" "w_rx w2 = es" by blast
  have "modbus_receive (Some s) query w = Done (0, Some ?s, query1, w1)"
    using 1(1) s by (simp add: modbus_receive_def be_receive_def modbus_rtu_receive_def Let_def ignoring_def)
  moreover have "?s\<lparr>mb_backend := Rtu (r\<lparr>rtu_confirmation_to_ignore := False\<rparr>)\<rparr> = s"
    using s by (simp add: ignoring_def)
  then have "modbus_receive (Some ?s) query1 w1 = Done (0, Some s, query2, w2)"
    using 3(1) s by (simp add: modbus_receive_def be_receive_def modbus_rtu_receive_def Let_def)
  ultimately show ?thesis using 1 3 by metis
qed

end
