(* ===== verification/Mb_Transfer.thy ===== *)
theory Mb_Transfer
  imports Mb_Session
begin

text \<open>
  The calls of the client that combine several effects on the server, over one line with it: the
  mask write, the combined write and read, the identification of the slave, and the reading of the
  input tables. They follow the pattern of the plain calls: the request is whole, the answer of the
  contract fits it, and the client returns what the answer holds.
\<close>

lemma arg_append [simp]: "arg (xs @ ys) (length xs + i) = arg ys i"
  by (simp add: arg_def nth_append)

text \<open>Register 0 of the second address block of a combined request starts at byte 4.\<close>

lemma arg_skip4: "arg (req4 a b @ ys) (4 + i) = arg ys i"
  using arg_append [of "req4 a b" ys i] by (simp add: numeral_nat)

lemma arg_pair: "arg [hi8 r, lo8 r] 0 = uint r" "arg (hi8 r # lo8 r # xs) 0 = uint r"
  by (simp_all add: arg_def)

section \<open>Mask write\<close>

text \<open>The value that the protocol defines: the bits of the AND mask are kept, the others come from the OR mask.\<close>

definition masked :: "u16 \<Rightarrow> u16 \<Rightarrow> u16 \<Rightarrow> u16" where
  "masked old and_mask or_mask = (old AND and_mask) OR (or_mask AND NOT and_mask)"

lemma mask_write_served:
  fixes and_mask or_mask :: u16 and addr :: int
  defines "p \<equiv> req4 addr (uint and_mask) @ [hi8 or_mask, lo8 or_mask]"
  assumes usable: "usable c" and len: "length req = 14" "length rsp = 260"
    and wf: "wf_mapping m" and same: "is_rtu s = is_rtu c" and addr: "0 \<le> addr" "addr < 65536"
    and inside: "in_table (mp_start_registers m) (mp_tab_registers m) addr 1"
    and served: "served s m (request_frame c 22 p) fr m1"
    and line: "answered (request_ctx c) (request_frame c 22 p) fr w"
  shows "\<exists>w'. modbus_mask_write_register (Some c) addr and_mask or_mask req rsp w = Done (1, Some (request_ctx c), w') \<and>
      w_sent w' = w_sent w @ [request_frame c 22 p]"
    and "m1 = m\<lparr>mp_tab_registers := overwrite (mp_start_registers m) (mp_tab_registers m) addr
      [masked (mp_tab_registers m ! nat (addr - mp_start_registers m)) and_mask or_mask]\<rparr>"
proof -
  let ?v = "masked (mp_tab_registers m ! nat (addr - mp_start_registers m)) and_mask or_mask"
  let ?m = "m\<lparr>mp_tab_registers := overwrite (mp_start_registers m) (mp_tab_registers m) addr [?v]\<rparr>"
  have args: "arg (p @ post) 0 = addr" "arg (p @ post) 2 = uint and_mask" "arg (p @ post) 4 = uint or_mask" for post
    using addr u16_bounds [of and_mask] arg_skip4 [of addr "uint and_mask" "[hi8 or_mask, lo8 or_mask] @ post" 0]
    by (simp_all only: p_def append_assoc arg_req4) (simp_all add: arg_pair)
  have ans: "serve m True 22 (p @ post) = Answer p ?m" for post
  proof -
    have "take 6 (p @ post) = p" by (simp add: p_def)
    then show ?thesis using inside by (simp add: serve_def serve_mask_write_def Let_def args masked_def)
  qed
  have whole: "whole_request 22 p" by (simp add: p_def whole_request_def)
  have short: "length p \<le> 252" "length p \<le> 251" by (simp_all add: p_def)
  have fit: "fitting 22 p p" by (simp add: p_def fitting_def)
  from mask_write_exchange [OF usable_slave [OF usable] len, of addr and_mask or_mask w] obtain req2 n where
      eq: "modbus_mask_write_register (Some c) addr and_mask or_mask req rsp w =
        obind (exchange (request_ctx c) req2 n rsp w) (\<lambda>(rc, c, rsp, w). Done (rc, Some c, w))"
    and r: "request_in c (request_sft c 22) p n req2" and q: "header_length c + 5 \<le> length req2"
    unfolding p_def by blast
  note served' = exchange_served [OF usable r q len(2) wf same whole short(1) fit short(2) ans served line]
  from served'(2) show "m1 = ?m" .
  have "fitting_count 22 p p = 1" by (simp add: fitting_count_def)
  with served'(1) show "\<exists>w'. modbus_mask_write_register (Some c) addr and_mask or_mask req rsp w = Done (1, Some (request_ctx c), w') \<and>
      w_sent w' = w_sent w @ [request_frame c 22 p]" by (auto simp: eq)
qed

section \<open>Combined write and read\<close>

text \<open>The server writes first, so the values it returns already show what was written.\<close>

lemma write_read_served:
  fixes src :: "u16 list" and addr nb write_addr write_nb :: int
  defines "p \<equiv> req4 addr nb @ req4 write_addr write_nb @ word_of_int (write_nb * 2) # bytes_of_regs (take (nat write_nb) src)"
  assumes usable: "usable c" and len: "length req = 260" "length rsp = 260"
    and wf: "wf_mapping m" and same: "is_rtu s = is_rtu c"
    and nb: "1 \<le> write_nb" "write_nb \<le> 121" "1 \<le> nb" "nb \<le> 125" "nat write_nb \<le> length src" "nat nb \<le> length d"
    and addr: "0 \<le> addr" "addr < 65536" "0 \<le> write_addr" "write_addr < 65536"
    and inside: "in_table (mp_start_registers m) (mp_tab_registers m) addr nb"
      "in_table (mp_start_registers m) (mp_tab_registers m) write_addr write_nb"
    and served: "served s m (request_frame c 23 p) fr m1"
    and line: "answered (request_ctx c) (request_frame c 23 p) fr w"
  defines "tab \<equiv> overwrite (mp_start_registers m) (mp_tab_registers m) write_addr (take (nat write_nb) src)"
  shows "\<exists>w'. modbus_write_and_read_registers (Some c) write_addr write_nb (Some src) addr nb (Some d) req rsp w =
      Done (nb, Some (request_ctx c), Some (slice (mp_start_registers m) tab addr nb @ drop (nat nb) d), w') \<and>
      w_sent w' = w_sent w @ [request_frame c 23 p]"
    and "m1 = m\<lparr>mp_tab_registers := tab\<rparr>"
proof -
  let ?h = "header_length c" and ?rest = "word_of_int (write_nb * 2) # bytes_of_regs (take (nat write_nb) src)"
  define xs where "xs = slice (mp_start_registers m) tab addr nb"
  define b where "b = (word_of_int (2 * nb) :: byte) # bytes_of_regs xs"
  have lt: "length (take (nat write_nb) src) = nat write_nb" using nb by simp
  have "length tab = length (mp_tab_registers m)"
    using inside(2) lt by (auto simp: tab_def overwrite_def in_table_def Let_def)
  then have lx: "length xs = nat nb" using inside(1) by (auto simp: xs_def slice_def in_table_def)
  have args: "arg (p @ post) 0 = addr" "arg (p @ post) 2 = nb" for post
    using nb addr by (simp_all only: p_def append_assoc arg_req4) simp_all
  have wargs: "arg (p @ post) 4 = write_addr" "arg (p @ post) 6 = write_nb" for post
    using nb addr arg_skip4 [of addr nb "req4 write_addr write_nb @ ?rest @ post" 0]
      arg_skip4 [of addr nb "req4 write_addr write_nb @ ?rest @ post" 2]
    by (simp_all only: p_def append_assoc arg_req4) simp_all
  have bytes: "(p @ post) ! 8 = word_of_int (write_nb * 2)" "drop 9 (p @ post) = bytes_of_regs (take (nat write_nb) src) @ post" for post
    by (simp_all add: p_def numeral_nat)
  have wc: "uint (word_of_int (write_nb * 2) :: byte) = write_nb * 2" unfolding uint_word_of_int using nb by simp
  have ans: "serve m True 23 (p @ post) = Answer b (m\<lparr>mp_tab_registers := tab\<rparr>)" for post
  proof -
    have "\<not> (write_nb < 1 \<or> 121 < write_nb \<or> nb < 1 \<or> 125 < nb \<or> uint (word_of_int (write_nb * 2) :: byte) \<noteq> write_nb * 2)"
      using nb wc by simp
    moreover have "take (nat write_nb) (regs_of_bytes (bytes_of_regs (take (nat write_nb) src) @ post)) = take (nat write_nb) src"
      using lt by (simp add: regs_of_bytes_append)
    ultimately show ?thesis
      using inside by (simp only: serve_eqs serve_write_read_def Let_def args wargs bytes b_def xs_def tab_def if_False simp_thms)
  qed
  have bc: "uint (word_of_int (2 * nb) :: byte) = 2 * nb" unfolding uint_word_of_int using nb by simp
  have lp: "length p = 9 + 2 * nat write_nb" using lt by (simp add: p_def)
  have fit: "fitting 23 p b" "length b \<le> 251"
    using nb lx lp args [of "[]"] bc by (auto simp: fitting_def b_def)
  have "unat (word_of_int (write_nb * 2) :: byte) = 2 * nat write_nb"
    using wc nb by (metis nat_mult_distrib uint_nat nat_int mult.commute nat_numeral zero_le_numeral)
  then have whole: "whole_request 23 p" using lp bytes(1) [of "[]"] by (simp add: whole_request_def)
  have short: "length p \<le> 252" using lp nb by simp
  from write_read_exchange [OF usable_slave [OF usable] len nb(1-5), of write_addr addr d w] obtain req2 n where
      eq: "modbus_write_and_read_registers (Some c) write_addr write_nb (Some src) addr nb (Some d) req rsp w =
       obind (exchange (request_ctx c) req2 n rsp w) (\<lambda>(rc, c, rsp, w).
         if rc = -1 then Done (-1, Some c, Some d, w)
         else obind (copy_registers rsp (header_length c) rc d) (\<lambda>d. Done (rc, Some c, Some d, w)))"
    and r: "request_in c (request_sft c 23) p n req2" and q: "?h + 5 \<le> length req2" unfolding p_def by blast
  note served' = exchange_served [OF usable r q len(2) wf same whole short fit ans served line]
  from served'(2) show "m1 = m\<lparr>mp_tab_registers := tab\<rparr>" .
  from served'(1) obtain rsp' w' post where
      e: "exchange (request_ctx c) req2 n rsp w = Done (fitting_count 23 p b, request_ctx c, rsp', w')"
    and l: "length rsp' = 260" and body: "drop (?h + 1) rsp' = b @ post"
    and sent: "w_sent w' = w_sent w @ [request_frame c 23 p]" by blast
  have count: "fitting_count 23 p b = int (nat nb)" using args [of "[]"] nb by (simp add: fitting_count_def)
  have "drop (?h + 2) rsp' = drop 1 (drop (?h + 1) rsp')" by simp
  also have "\<dots> = bytes_of_regs xs @ post" unfolding body b_def by simp
  finally have regs: "take (nat nb) (regs_of_bytes (drop (?h + 2) rsp')) = xs"
    using lx by (simp add: regs_of_bytes_append)
  have room: "?h + 2 + 2 * nat nb \<le> length rsp'" using l nb header_checksum_bounds(2) [of c] by linarith
  show "\<exists>w'. modbus_write_and_read_registers (Some c) write_addr write_nb (Some src) addr nb (Some d) req rsp w =
      Done (nb, Some (request_ctx c), Some (slice (mp_start_registers m) tab addr nb @ drop (nat nb) d), w') \<and>
      w_sent w' = w_sent w @ [request_frame c 23 p]"
    using copy_registers_value [OF room nb(6), unfolded regs] nb sent by (simp add: eq e count xs_def)
qed

section \<open>Slave id\<close>

text \<open>The id of a server of the library: a byte, the run indicator and the version.\<close>

lemma slave_id_served:
  assumes usable: "usable c" and len: "length req = 12" "length rsp = 260"
    and wf: "wf_mapping m" and same: "is_rtu s = is_rtu c"
    and nb: "1 \<le> max_dest" "nat max_dest \<le> length d"
    and served: "served s m (request_frame c 17 []) fr m1"
    and line: "answered (request_ctx c) (request_frame c 17 []) fr w"
  shows "\<exists>w'. modbus_report_slave_id (Some c) max_dest (Some d) req rsp w =
      Done (10, Some (request_ctx c), Some (take (nat max_dest) (drop 1 slave_id_body) @ drop (min 10 (nat max_dest)) d), w') \<and>
      w_sent w' = w_sent w @ [request_frame c 17 []]"
    and "m1 = m"
proof -
  let ?h = "header_length c" and ?b = slave_id_body and ?n = "nat (min 10 max_dest)"
  have ans: "serve m True 17 ([] @ post) = Answer ?b m" for post by (simp add: serve_eqs)
  have whole: "whole_request 17 []" "length ([] :: byte list) \<le> 252" by (simp_all add: whole_request_def)
  have fit: "fitting 17 [] ?b" "length ?b \<le> 251" by (simp_all add: fitting_def slave_id_body_def)
  from slave_id_exchange [OF usable_slave [OF usable] len nb(1), of d w] obtain req1 where
      eq: "modbus_report_slave_id (Some c) max_dest (Some d) req rsp w =
       obind (exchange (request_ctx c) req1 (?h + 1) rsp w) (\<lambda>(rc, c, rsp, w).
         if rc = -1 then Done (-1, Some c, Some d, w)
         else obind (ofor [0..<nat (min rc max_dest)] (\<lambda>i d. obind (rd rsp (header_length c + 2 + i)) (\<lambda>b. wr d i b)) d)
           (\<lambda>d. Done (rc, Some c, Some d, w)))"
    and r: "request_in c (request_sft c 17) [] (?h + 1) req1" and q: "?h + 5 \<le> length req1" by blast
  note served' = exchange_served [OF usable r q len(2) wf same whole fit ans served line]
  from served'(2) show "m1 = m" .
  from served'(1) obtain rsp' w' post where
      e: "exchange (request_ctx c) req1 (?h + 1) rsp w = Done (fitting_count 17 [] ?b, request_ctx c, rsp', w')"
    and l: "length rsp' = 260" and body: "drop (?h + 1) rsp' = ?b @ post"
    and sent: "w_sent w' = w_sent w @ [request_frame c 17 []]" by blast
  have count: "fitting_count 17 [] ?b = 10" by (simp add: fitting_count_def slave_id_body_def)
  have "drop (?h + 2) rsp' = drop 1 (drop (?h + 1) rsp')" by simp
  also have "\<dots> = drop 1 ?b @ post" unfolding body by (simp add: slave_id_body_def)
  finally have d: "drop (?h + 2) rsp' = drop 1 ?b @ post" .
  have l10: "length (drop 1 ?b) = 10" by (simp add: slave_id_body_def)
  then have "?n - length (drop 1 ?b) = 0" by simp
  moreover have "take ?n (drop 1 ?b) = take (nat max_dest) (drop 1 ?b)"
    by (cases "max_dest \<le> 10") (simp_all add: min_def slave_id_body_def)
  ultimately have tail: "take ?n (drop (?h + 2) rsp') = take (nat max_dest) (drop 1 ?b)"
    unfolding d take_append by simp
  have "?h + 2 + ?n \<le> length rsp'" using l nb header_checksum_bounds(2) [of c] by linarith
  moreover have "?n \<le> length d" "?n = min 10 (nat max_dest)" using nb by linarith+
  moreover note copy_slave_id_value [of "?h + 2" ?n rsp' d, unfolded tail]
  ultimately have copy: "ofor [0..<?n] (\<lambda>i d. obind (rd rsp' (?h + 2 + i)) (\<lambda>b. wr d i b)) d =
      Done (take (nat max_dest) (drop 1 ?b) @ drop (min 10 (nat max_dest)) d)" by simp
  have ctx: "header_length (request_ctx c) = ?h" by simp
  have "modbus_report_slave_id (Some c) max_dest (Some d) req rsp w =
      Done (10, Some (request_ctx c), Some (take (nat max_dest) (drop 1 ?b) @ drop (min 10 (nat max_dest)) d), w')"
    by (simp only: eq e count obind.simps prod.case ctx copy) simp
  with sent show "\<exists>w'. modbus_report_slave_id (Some c) max_dest (Some d) req rsp w =
      Done (10, Some (request_ctx c), Some (take (nat max_dest) (drop 1 slave_id_body) @ drop (min 10 (nat max_dest)) d), w') \<and>
      w_sent w' = w_sent w @ [request_frame c 17 []]" by blast
qed

end
