(* ===== verification/Mb_Windows.thy ===== *)
theory Mb_Windows
  imports Mb_Receive Mb_New
begin

text \<open>
  The serial port of the RTU backend on Windows (the code of modbus-rtu.c and modbus.c under
  \<open>_WIN32\<close>). There is no \<open>select\<close> for such a port: \<open>win32_ser_select\<close> reads into a receive buffer
  that \<open>win32_ser_read\<close> consumes. The lemmas say that the pair loses, repeats and reorders nothing in
  the way the library calls it, and what happens otherwise.

  The context is the one of the other platforms, \<open>win_port\<close> holds the two fields that the RTU data
  has on Windows only. The API is scripted like the system calls of Mb_System: the events of the read
  side answer \<open>ReadFile\<close>, a result of \<open>w_calls\<close> each other call (a \<open>BOOL\<close>, false when it is 0). A
  \<open>long\<close> has 32 bits, and a sum that does not fit is undefined.
\<close>

section \<open>The port and the API\<close>

text \<open>\<open>fd\<close> is \<open>None\<close> for \<open>INVALID_HANDLE_VALUE\<close>.\<close>

record win32_ser =
  ws_fd :: "int option"
  ws_buf :: "byte list"
  ws_n_bytes :: u32

definition WIN_FD_SETSIZE :: int where [simp]: "WIN_FD_SETSIZE = 64"
definition PY_BUF_SIZE :: int where [simp]: "PY_BUF_SIZE = 512"
definition MAXDWORD :: u32 where [simp]: "MAXDWORD = 0xFFFFFFFF"

text \<open>The settings of a port (\<open>DCB\<close>): the members that the library sets, and all others together.\<close>

record dcb =
  dcb_BaudRate :: u32
  dcb_ByteSize :: byte
  dcb_StopBits :: byte
  dcb_Parity :: byte
  dcb_fParity :: bool
  dcb_fTXContinueOnXoff :: bool
  dcb_fOutX :: bool
  dcb_fInX :: bool
  dcb_fBinary :: bool
  dcb_fAbortOnError :: bool
  dcb_others :: nat

definition ONESTOPBIT :: byte where [simp]: "ONESTOPBIT = 0"
definition TWOSTOPBITS :: byte where [simp]: "TWOSTOPBITS = 2"
definition NOPARITY :: byte where [simp]: "NOPARITY = 0"
definition ODDPARITY :: byte where [simp]: "ODDPARITY = 1"
definition EVENPARITY :: byte where [simp]: "EVENPARITY = 2"

record win_port =
  wp_ser :: win32_ser
  wp_old_dcb :: dcb

text \<open>The world of Mb_System, the settings of the port, and the read timeouts given to it.\<close>

record win =
  wn_world :: world
  wn_dcb :: dcb
  wn_timeouts :: "u32 list"

abbreviation win_errno :: "errno \<Rightarrow> win \<Rightarrow> win" where
  "win_errno e w \<equiv> w\<lparr>wn_world := set_errno e (wn_world w)\<rparr>"

definition win_call :: "win \<Rightarrow> (int \<times> win) outcome" where
  "win_call w =
     (case w_calls (wn_world w) of
        [] \<Rightarrow> Pending
      | (r, _) # cs \<Rightarrow> Done (r, w\<lparr>wn_world := (wn_world w)\<lparr>w_calls := cs\<rparr>\<rparr>))"

definition create_file :: "win \<Rightarrow> (int option \<times> win) outcome" where
  "create_file w =
     obind (win_call w) (\<lambda>(r, w).
       Done (if r = -1 then (None, w)
             else (Some r, w\<lparr>wn_world := (wn_world w)\<lparr>w_fds := r # w_fds (wn_world w)\<rparr>\<rparr>)))"

definition close_handle :: "int option \<Rightarrow> win \<Rightarrow> win" where
  "close_handle fd w = (case fd of None \<Rightarrow> w | Some h \<Rightarrow> w\<lparr>wn_world := sys_close h (wn_world w)\<rparr>)"

text \<open>\<open>ReadFile\<close> with the timeouts in force: what is there, nothing after the timeout, or a failure.\<close>

fun read_file :: "nat \<Rightarrow> rx_event list \<Rightarrow> (bool \<times> byte list \<times> rx_event list) outcome" where
  "read_file n [] = Pending"
| "read_file n (Rx_data [] # es) = read_file n es"
| "read_file n (Rx_data bs # es) = Done (True, take n bs, if drop n bs = [] then es else Rx_data (drop n bs) # es)"
| "read_file n (Rx_silence # es) = Done (True, [], es)"
| "read_file n (Rx_eof # es) = Done (True, [], Rx_eof # es)"
| "read_file n (Rx_err e # es) = Done (False, [], es)"
| "read_file n (Rx_sel_err e # es) = Done (False, [], es)"

section \<open>The substitute for select\<close>

definition win32_ser_init :: win32_ser where
  "win32_ser_init = \<lparr>ws_fd = None, ws_buf = replicate 512 0, ws_n_bytes = 0\<rparr>"

text \<open>The timeout in milliseconds, at least one.\<close>

definition select_msec :: "timeval option \<Rightarrow> u32 outcome" where
  "select_msec tv =
     (case tv of
        None \<Rightarrow> Done MAXDWORD
      | Some tv \<Rightarrow>
          let ms = tv_sec tv * 1000 + tv_usec tv div 1000 in
          if tv_sec tv * 1000 < - (2 ^ 31) \<or> 2 ^ 31 \<le> tv_sec tv * 1000 \<or> ms < - (2 ^ 31) \<or> 2 ^ 31 \<le> ms then Fault
          else let msec = (word_of_int ms :: u32) in Done (if msec < 1 then 1 else msec))"

definition win32_ser_select :: "win32_ser \<Rightarrow> int \<Rightarrow> timeval option \<Rightarrow> win \<Rightarrow> (int \<times> win32_ser \<times> win) outcome" where
  "win32_ser_select ws max_len tv w =
     (if ws_n_bytes ws > 0 then Done (1, ws, w)
      else
        obind (select_msec tv) (\<lambda>msec.
          let w = w\<lparr>wn_timeouts := wn_timeouts w @ [msec]\<rparr>;
              max_len = (if max_len > PY_BUF_SIZE \<or> max_len < 0 then PY_BUF_SIZE else max_len) in
          if ws_fd ws = None then Done (-1, ws\<lparr>ws_n_bytes := 0\<rparr>, w)
          else obind (read_file (nat max_len) (w_rx (wn_world w))) (\<lambda>(ok, bs, es).
            obind (memcpy (ws_buf ws) 0 bs 0 (length bs)) (\<lambda>buf.
              let ws = ws\<lparr>ws_buf := buf, ws_n_bytes := word_of_nat (length bs)\<rparr>;
                  w = w\<lparr>wn_world := (wn_world w)\<lparr>w_rx := es\<rparr>\<rparr> in
              Done (if ok then (if ws_n_bytes ws > 0 then 1 else 0) else -1, ws, w)))))"

text \<open>The bytes go to \<open>p_msg + off\<close>.\<close>

definition win32_ser_read :: "win32_ser \<Rightarrow> byte list \<Rightarrow> nat \<Rightarrow> u32 \<Rightarrow> (int \<times> byte list \<times> win32_ser) outcome" where
  "win32_ser_read ws p_msg off max_len =
     (let n = (if max_len < ws_n_bytes ws then max_len else ws_n_bytes ws) in
      obind (if n > 0 then memcpy p_msg off (ws_buf ws) 0 (unat n) else Done p_msg) (\<lambda>p_msg.
        Done (uint n, p_msg, ws\<lparr>ws_n_bytes := ws_n_bytes ws - n\<rparr>)))"

section \<open>The operations of the backend\<close>

definition win_rtu_is_connected :: "win_port \<Rightarrow> bool" where
  "win_rtu_is_connected port \<longleftrightarrow> ws_fd (wp_ser port) \<noteq> None"

definition win_rtu_select :: "win_port \<Rightarrow> timeval option \<Rightarrow> nat \<Rightarrow> win \<Rightarrow> (int \<times> win_port \<times> win) outcome" where
  "win_rtu_select port tv length_to_read w =
     obind (win32_ser_select (wp_ser port) (int length_to_read) tv w) (\<lambda>(s_rc, ws, w).
       let port = port\<lparr>wp_ser := ws\<rparr> in
       if s_rc = 0 then Done (-1, port, win_errno ETIMEDOUT w)
       else if s_rc < 0 then Done (-1, port, w)
       else Done (s_rc, port, w))"

definition win_rtu_recv :: "win_port \<Rightarrow> byte list \<Rightarrow> nat \<Rightarrow> nat \<Rightarrow> (int \<times> byte list \<times> win_port) outcome" where
  "win_rtu_recv port rsp off rsp_length =
     obind (win32_ser_read (wp_ser port) rsp off (word_of_nat rsp_length)) (\<lambda>(n, rsp, ws).
       Done (n, rsp, port\<lparr>wp_ser := ws\<rparr>))"

definition win_rtu_send :: "win_port \<Rightarrow> byte list \<Rightarrow> win \<Rightarrow> (int \<times> win) outcome" where
  "win_rtu_send port req w =
     (case w_tx (wn_world w) of
        [] \<Rightarrow> Pending
      | ev # es \<Rightarrow>
          let w = w\<lparr>wn_world := (wn_world w)\<lparr>w_tx := es\<rparr>\<rparr> in
          (case ev of
             Tx_err e \<Rightarrow> Done (-1, w)
           | Tx_sent n \<Rightarrow>
               if ws_fd (wp_ser port) = None then Done (-1, w)
               else Done (int (length (take n req)), w\<lparr>wn_world := (wn_world w)\<lparr>w_sent := w_sent (wn_world w) @ [take n req]\<rparr>\<rparr>)))"

text \<open>The settings for the configuration of the context, starting from the current ones.\<close>

definition rtu_dcb :: "modbus_rtu \<Rightarrow> dcb \<Rightarrow> dcb" where
  "rtu_dcb ctx_rtu old_dcb =
     (let dcb = old_dcb\<lparr>dcb_BaudRate := word_of_int (rtu_baud ctx_rtu)\<rparr>;
          dcb = dcb\<lparr>dcb_ByteSize := (if rtu_data_bit ctx_rtu = 5 then 5 else if rtu_data_bit ctx_rtu = 6 then 6
                                    else if rtu_data_bit ctx_rtu = 7 then 7 else 8)\<rparr>;
          dcb = dcb\<lparr>dcb_StopBits := (if rtu_stop_bit ctx_rtu = 1 then ONESTOPBIT else TWOSTOPBITS)\<rparr>;
          dcb = (if rtu_parity ctx_rtu = CHR ''N'' then dcb\<lparr>dcb_Parity := NOPARITY, dcb_fParity := False\<rparr>
                 else if rtu_parity ctx_rtu = CHR ''E'' then dcb\<lparr>dcb_Parity := EVENPARITY, dcb_fParity := True\<rparr>
                 else dcb\<lparr>dcb_Parity := ODDPARITY, dcb_fParity := True\<rparr>);
          dcb = dcb\<lparr>dcb_fTXContinueOnXoff := True, dcb_fOutX := False, dcb_fInX := False\<rparr>
      in dcb\<lparr>dcb_fBinary := True, dcb_fAbortOnError := False\<rparr>)"

abbreviation set_fd :: "int option \<Rightarrow> win_port \<Rightarrow> win_port" where
  "set_fd fd port \<equiv> port\<lparr>wp_ser := (wp_ser port)\<lparr>ws_fd := fd\<rparr>\<rparr>"

definition win_rtu_connect :: "modbus_rtu \<Rightarrow> win_port \<Rightarrow> win \<Rightarrow> (int \<times> win_port \<times> win) outcome" where
  "win_rtu_connect ctx_rtu port w =
     obind (create_file w) (\<lambda>(fd, w).
       let port = port\<lparr>wp_ser := win32_ser_init\<lparr>ws_fd := fd\<rparr>\<rparr> in
       if fd = None then Done (-1, port, w)
       else obind (win_call w) (\<lambda>(ok, w).
         if ok = 0 then Done (-1, set_fd None port, close_handle fd w)
         else
           let port = port\<lparr>wp_old_dcb := wn_dcb w\<rparr>; dcb = rtu_dcb ctx_rtu (wp_old_dcb port) in
           obind (win_call w) (\<lambda>(ok, w).
             if ok = 0 then Done (-1, set_fd None port, close_handle fd w)
             else Done (0, port, w\<lparr>wn_dcb := dcb\<rparr>))))"

definition win_rtu_close :: "win_port \<Rightarrow> win \<Rightarrow> (win_port \<times> win) outcome" where
  "win_rtu_close port w =
     (if ws_fd (wp_ser port) \<noteq> None then
        obind (win_call w) (\<lambda>(ok, w).
          let w = (if ok = 0 then w else w\<lparr>wn_dcb := wp_old_dcb port\<rparr>) in
          Done (set_fd None port, close_handle (ws_fd (wp_ser port)) w))
      else Done (port, w))"

text \<open>\<open>PurgeComm\<close> discards what has arrived; a failure is the result 1.\<close>

definition win_rtu_flush :: "win_port \<Rightarrow> win \<Rightarrow> (int \<times> win_port \<times> win) outcome" where
  "win_rtu_flush port w =
     (let port = port\<lparr>wp_ser := (wp_ser port)\<lparr>ws_n_bytes := 0\<rparr>\<rparr> in
      obind (win_call w) (\<lambda>(ok, w).
        if ok = 0 then Done (1, port, w)
        else Done (0, port, w\<lparr>wn_world := (wn_world w)\<lparr>w_rx := drop_data (w_rx (wn_world w))\<rparr>\<rparr>)))"

section \<open>Sending\<close>

text \<open>The errors of the Windows sockets that the recovery looks at.\<close>

definition WSAENOTSOCK :: int where [simp]: "WSAENOTSOCK = 10038"
definition WSAENETDOWN :: int where [simp]: "WSAENETDOWN = 10050"
definition WSAENETRESET :: int where [simp]: "WSAENETRESET = 10052"
definition WSAECONNABORTED :: int where [simp]: "WSAECONNABORTED = 10053"
definition WSAECONNRESET :: int where [simp]: "WSAECONNRESET = 10054"
definition WSAENOTCONN :: int where [simp]: "WSAENOTCONN = 10057"
definition WSAESHUTDOWN :: int where [simp]: "WSAESHUTDOWN = 10058"
definition WSAETIMEDOUT :: int where [simp]: "WSAETIMEDOUT = 10060"
definition WSAEHOSTUNREACH :: int where [simp]: "WSAEHOSTUNREACH = 10065"

definition win_sleep :: "modbus \<Rightarrow> win \<Rightarrow> win" where
  "win_sleep ctx w = w\<lparr>wn_world := sleep_response_timeout ctx (wn_world w)\<rparr>"

definition win_recover_link :: "modbus \<Rightarrow> modbus_rtu \<Rightarrow> win_port \<Rightarrow> win \<Rightarrow> (win_port \<times> win) outcome" where
  "win_recover_link ctx ctx_rtu port w =
     (let saved_errno = w_errno (wn_world w) in
      obind (win_call w) (\<lambda>(wsa_err, w).
      obind
        (if wsa_err \<in> {WSAENETRESET, WSAENOTCONN, WSAENOTSOCK, WSAESHUTDOWN, WSAEHOSTUNREACH, WSAECONNABORTED,
                       WSAECONNRESET, WSAETIMEDOUT} then
           obind (win_rtu_close port w) (\<lambda>(port, w).
           obind (win_rtu_connect ctx_rtu port (win_sleep ctx w)) (\<lambda>(_, port, w). Done (port, w)))
         else
           obind (win_rtu_flush port (win_sleep ctx w)) (\<lambda>(_, port, w). Done (port, w)))
        (\<lambda>(port, w). Done (port, win_errno saved_errno w))))"

lemma win_call_tx: "win_call w = Done (r, w') \<Longrightarrow> w_tx (wn_world w') = w_tx (wn_world w)"
  by (auto simp: win_call_def split: list.splits)

lemma close_handle_tx: "w_tx (wn_world (close_handle fd w)) = w_tx (wn_world w)"
  by (simp add: close_handle_def split: option.splits)

lemma win_link_tx:
  "win_rtu_close port w = Done (port', w') \<Longrightarrow> w_tx (wn_world w') = w_tx (wn_world w)"
  "win_rtu_connect r port w = Done (rc, port', w') \<Longrightarrow> w_tx (wn_world w') = w_tx (wn_world w)"
  "win_rtu_flush port w = Done (rc, port', w') \<Longrightarrow> w_tx (wn_world w') = w_tx (wn_world w)"
  by (auto simp: win_rtu_close_def win_rtu_connect_def win_rtu_flush_def create_file_def Let_def close_handle_tx
        split: if_splits elim!: obind_DoneE dest!: win_call_tx)

lemma win_recover_link_tx: "win_recover_link ctx r port w = Done (port', w') \<Longrightarrow> w_tx (wn_world w') = w_tx (wn_world w)"
  by (auto simp: win_recover_link_def win_sleep_def sleep_response_timeout_def Let_def
        split: if_splits elim!: obind_DoneE dest!: win_call_tx win_link_tx)

lemma win_rtu_send_tx: "win_rtu_send port msg w = Done (rc, w') \<Longrightarrow> w_tx (wn_world w) = hd (w_tx (wn_world w)) # w_tx (wn_world w')"
  by (auto simp: win_rtu_send_def Let_def split: list.splits tx_event.splits if_splits)

text \<open>The loop of \<open>send_msg\<close>: as elsewhere, each turn consumes a result of the write.\<close>

function win_send_loop :: "modbus \<Rightarrow> modbus_rtu \<Rightarrow> win_port \<Rightarrow> byte list \<Rightarrow> win \<Rightarrow> (int \<times> win_port \<times> win) outcome" where
  "win_send_loop ctx ctx_rtu port msg w =
     (case win_rtu_send port msg w of
        Fault \<Rightarrow> Fault
      | Pending \<Rightarrow> Pending
      | Done (rc, w1) \<Rightarrow>
          if rc = -1 \<and> link_recovery ctx then
            (case win_recover_link ctx ctx_rtu port w1 of
               Fault \<Rightarrow> Fault
             | Pending \<Rightarrow> Pending
             | Done (port, w2) \<Rightarrow> win_send_loop ctx ctx_rtu port msg w2)
          else Done (rc, port, w1))"
  by pat_completeness auto
termination
proof (relation "measure (\<lambda>(ctx, r, port, msg, w). length (w_tx (wn_world w)))", goal_cases)
  case 1
  then show ?case by simp
next
  case (2 ctx r port msg w s rc w1 p port' w2)
  then have "win_rtu_send port msg w = Done (rc, w1)" "win_recover_link ctx r port w1 = Done (port', w2)" by simp_all
  from win_rtu_send_tx [OF this(1)] win_recover_link_tx [OF this(2)]
  have "length (w_tx (wn_world w)) = Suc (length (w_tx (wn_world w2)))" by (metis length_Cons)
  then show ?case by simp
qed

declare win_send_loop.simps [simp del]

definition win_send_msg :: "modbus \<Rightarrow> modbus_rtu \<Rightarrow> win_port \<Rightarrow> byte list \<Rightarrow> nat \<Rightarrow> win \<Rightarrow> (int \<times> win_port \<times> byte list \<times> win) outcome" where
  "win_send_msg ctx ctx_rtu port msg msg_length w =
     obind (modbus_rtu_send_msg_pre msg msg_length) (\<lambda>(msg_length, msg).
     obind (win_send_loop ctx ctx_rtu port (take msg_length msg) w) (\<lambda>(rc, port, w).
       if rc > 0 \<and> rc \<noteq> int msg_length then Done (-1, port, msg, win_errno EMBBADDATA w)
       else Done (rc, port, msg, w)))"

section \<open>Receiving\<close>

definition win_reconnect :: "modbus_rtu \<Rightarrow> win_port \<Rightarrow> win \<Rightarrow> (win_port \<times> win) outcome" where
  "win_reconnect ctx_rtu port w =
     obind (win_rtu_close port w) (\<lambda>(port, w). obind (win_rtu_connect ctx_rtu port w) (\<lambda>(_, port, w). Done (port, w)))"

definition win_select_failed :: "modbus \<Rightarrow> modbus_rtu \<Rightarrow> win_port \<Rightarrow> win \<Rightarrow> (win_port \<times> win) outcome" where
  "win_select_failed ctx ctx_rtu port w =
     (if link_recovery ctx then
        let saved_errno = w_errno (wn_world w) in
        obind (win_call w) (\<lambda>(wsa_err, w).
        obind (if wsa_err = WSAENETDOWN \<or> wsa_err = WSAENOTSOCK then win_reconnect ctx_rtu port w else Done (port, w))
          (\<lambda>(port, w). Done (port, win_errno saved_errno w)))
      else Done (port, w))"

definition win_recv_failed :: "modbus \<Rightarrow> modbus_rtu \<Rightarrow> win_port \<Rightarrow> win \<Rightarrow> (win_port \<times> win) outcome" where
  "win_recv_failed ctx ctx_rtu port w =
     obind (win_call w) (\<lambda>(wsa_err, w).
       if link_recovery ctx \<and>
          wsa_err \<in> {WSAENOTCONN, WSAENETRESET, WSAENOTSOCK, WSAESHUTDOWN, WSAECONNABORTED, WSAETIMEDOUT, WSAECONNRESET} then
         let saved_errno = w_errno (wn_world w) in
         obind (win_reconnect ctx_rtu port w) (\<lambda>(port, w). Done (port, win_errno saved_errno w))
       else Done (port, w))"

definition win_check_integrity :: "modbus \<Rightarrow> win_port \<Rightarrow> byte list \<Rightarrow> nat \<Rightarrow> win \<Rightarrow> (int \<times> win_port \<times> win) outcome" where
  "win_check_integrity ctx port msg msg_length w =
     obind (rd msg 0) (\<lambda>m0.
     obind (crc16 msg (nat ((int msg_length - 2) mod 2 ^ 16))) (\<lambda>crc_calculated.
     obind (rdi msg (int msg_length - 1)) (\<lambda>hi.
     obind (rdi msg (int msg_length - 2)) (\<lambda>lo.
       let crc_received = (word_of_int (push_bit 8 (uint hi) OR uint lo) :: u16); slave = uint m0 in
       if crc_calculated \<noteq> crc_received then
         obind (if protocol_recovery ctx then win_rtu_flush port w else Done (0, port, w)) (\<lambda>(_, port, w).
           Done (-1, port, win_errno EMBBADCRC w))
       else if slave \<noteq> mb_slave ctx \<and> slave \<noteq> MODBUS_BROADCAST_ADDRESS then Done (0, port, w)
       else Done (int msg_length, port, w)))))"

text \<open>One turn of the loop of \<open>_modbus_receive_msg\<close>.\<close>

datatype win_turn =
    Win_return win_port "byte list" win
  | Win_continue win_port step nat "byte list" nat "timeval option" win

definition win_receive_turn ::
    "modbus \<Rightarrow> modbus_rtu \<Rightarrow> win_port \<Rightarrow> msg_type \<Rightarrow> step \<Rightarrow> nat \<Rightarrow> byte list \<Rightarrow> nat \<Rightarrow> timeval option \<Rightarrow> win \<Rightarrow> win_turn outcome" where
  "win_receive_turn ctx ctx_rtu port msg_type step length_to_read msg msg_length p_tv w =
     obind (win_rtu_select port p_tv length_to_read w) (\<lambda>(rc, port, w).
       if rc = -1 then obind (win_select_failed ctx ctx_rtu port w) (\<lambda>(port, w). Done (Win_return port msg w))
       else obind (win_rtu_recv port msg msg_length length_to_read) (\<lambda>(rc, msg, port).
         let (rc, w) = (if rc = 0 then (-1, win_errno ECONNRESET w) else (rc, w)) in
         if rc = -1 then obind (win_recv_failed ctx ctx_rtu port w) (\<lambda>(port, w). Done (Win_return port msg w))
         else
           let msg_length = msg_length + nat rc; length_to_read = length_to_read - nat rc in
           obind (if length_to_read = 0 then next_step ctx msg_type step msg msg_length
                  else Done (Some (step, length_to_read))) (\<lambda>next.
             case next of
               None \<Rightarrow> Done (Win_return port msg (win_errno EMBBADDATA w))
             | Some (step, length_to_read) \<Rightarrow>
                 Done (Win_continue port step length_to_read msg msg_length (next_timeout ctx length_to_read p_tv) w))))"

lemma win_recv_count:
  assumes "win_rtu_recv port msg off n = Done (rc, msg', port')"
  shows "0 \<le> rc \<and> rc \<le> int n"
proof -
  let ?n = "word_of_nat n :: u32" and ?b = "ws_n_bytes (wp_ser port)"
  have "rc = uint (if ?n < ?b then ?n else ?b)"
    using assms by (auto simp: win_rtu_recv_def win32_ser_read_def Let_def elim!: obind_DoneE)
  moreover have "uint ?n \<le> int n" by (simp add: unsigned_of_nat take_bit_eq_mod)
  ultimately show ?thesis by (auto simp: word_less_def)
qed

text \<open>The loop goes on only after bytes were read.\<close>

lemma win_receive_turn_continue:
  assumes "win_receive_turn ctx r port mt st ltr msg n tv w = Done (Win_continue port' st' ltr' msg' n' tv' w')"
  obtains rc where "0 < rc" and "rc \<le> ltr"
    and "(if ltr - rc = 0 then next_step ctx mt st msg' n' else Done (Some (st, ltr - rc))) = Done (Some (st', ltr'))"
proof -
  from assms obtain rc1 port1 w1 where "win_rtu_select port tv ltr w = Done (rc1, port1, w1)" and rc1: "rc1 \<noteq> -1"
    and rest: "obind (win_rtu_recv port1 msg n ltr) (\<lambda>(rc, msg, port).
         let (rc, w) = (if rc = 0 then (-1, win_errno ECONNRESET w1) else (rc, w1)) in
         if rc = -1 then obind (win_recv_failed ctx r port w) (\<lambda>(port, w). Done (Win_return port msg w))
         else
           let msg_length = n + nat rc; length_to_read = ltr - nat rc in
           obind (if length_to_read = 0 then next_step ctx mt st msg msg_length
                  else Done (Some (st, length_to_read))) (\<lambda>next.
             case next of
               None \<Rightarrow> Done (Win_return port msg (win_errno EMBBADDATA w))
             | Some (step, length_to_read) \<Rightarrow>
                 Done (Win_continue port step length_to_read msg msg_length (next_timeout ctx length_to_read tv) w))) =
       Done (Win_continue port' st' ltr' msg' n' tv' w')"
    by (auto simp: win_receive_turn_def split: if_splits elim!: obind_DoneE)
  from rest obtain rc msg1 port2 where rcv: "win_rtu_recv port1 msg n ltr = Done (rc, msg1, port2)"
    by (auto elim!: obind_DoneE)
  note count = win_recv_count [OF rcv]
  have "rc \<noteq> 0" using rest rcv by (auto simp: Let_def elim!: obind_DoneE)
  moreover from this count rest rcv
  have "(if ltr - nat rc = 0 then next_step ctx mt st msg' n' else Done (Some (st, ltr - nat rc))) = Done (Some (st', ltr'))"
    by (auto simp: Let_def split: option.splits prod.splits if_splits elim!: obind_DoneE)
  moreover have "0 < nat rc" "nat rc \<le> ltr" using count calculation(1) by linarith+
  ultimately show thesis by (intro that)
qed

function win_receive_loop ::
    "modbus \<Rightarrow> modbus_rtu \<Rightarrow> win_port \<Rightarrow> msg_type \<Rightarrow> step \<Rightarrow> nat \<Rightarrow> byte list \<Rightarrow> nat \<Rightarrow> timeval option \<Rightarrow> win \<Rightarrow>
     (int \<times> win_port \<times> byte list \<times> win) outcome" where
  "win_receive_loop ctx ctx_rtu port msg_type step length_to_read msg msg_length p_tv w =
     (if length_to_read = 0 then
        obind (win_check_integrity ctx port msg msg_length w) (\<lambda>(rc, port, w). Done (rc, port, msg, w))
      else case win_receive_turn ctx ctx_rtu port msg_type step length_to_read msg msg_length p_tv w of
        Fault \<Rightarrow> Fault
      | Pending \<Rightarrow> Pending
      | Done (Win_return port msg w) \<Rightarrow> Done (-1, port, msg, w)
      | Done (Win_continue port step length_to_read msg msg_length p_tv w) \<Rightarrow>
          win_receive_loop ctx ctx_rtu port msg_type step length_to_read msg msg_length p_tv w)"
  by pat_completeness auto
termination
proof (relation "measures [\<lambda>(ctx, r, port, mt, st, ltr, msg, n, tv, w). step_rank st, \<lambda>(ctx, r, port, mt, st, ltr, msg, n, tv, w). ltr]",
    goal_cases)
  case 1
  then show ?case by simp
next
  case (2 ctx r port mt st ltr msg n tv w turn port' st' ltr' msg' n' tv' w')
  then have "win_receive_turn ctx r port mt st ltr msg n tv w = Done (Win_continue port' st' ltr' msg' n' tv' w')" by simp
  then obtain rc where "0 < rc" "rc \<le> ltr"
    "(if ltr - rc = 0 then next_step ctx mt st msg' n' else Done (Some (st, ltr - rc))) = Done (Some (st', ltr'))"
    by (rule win_receive_turn_continue)
  then show ?case by (auto dest!: next_step_decreases split: if_splits)
qed

declare win_receive_loop.simps [simp del]

text \<open>
  \<open>_modbus_receive_msg\<close>: its guard on the descriptor \<open>ctx->s\<close> of \<open>select\<close> is compiled on Windows too,
  with the \<open>FD_SETSIZE\<close> of that platform.
\<close>

definition win_receive_msg ::
    "modbus \<Rightarrow> modbus_rtu \<Rightarrow> win_port \<Rightarrow> byte list \<Rightarrow> msg_type \<Rightarrow> win \<Rightarrow> (int \<times> win_port \<times> byte list \<times> win) outcome" where
  "win_receive_msg ctx ctx_rtu port msg msg_type w =
     (if \<not> win_rtu_is_connected port then Done (-1, port, msg, w)
      else if mb_s ctx < 0 \<or> mb_s ctx \<ge> WIN_FD_SETSIZE then Done (-1, port, msg, win_errno EINVAL w)
      else win_receive_loop ctx ctx_rtu port msg_type STEP_FUNCTION (header_length ctx + 1) msg 0 (first_timeout ctx msg_type) w)"

end
