(* ===== verification/Mb_Winport.thy ===== *)
theory Mb_Winport
  imports Mb_Windows
begin

text \<open>
  What the substitute for \<open>select\<close> is worth: on a line that delivers bytes and falls silent, the
  reception on Windows computes what the reception on the other platforms computes. Then what the
  port does outside this use: a partial read of the receive buffer, and the guard on a descriptor
  that a Windows serial context does not have.
\<close>

section \<open>One wait and one read\<close>

text \<open>A line that only delivers bytes, and may fall silent when a timeout is in force.\<close>

definition polite :: "bool \<Rightarrow> rx_event list \<Rightarrow> bool" where
  "polite timed es \<longleftrightarrow> (\<forall>e\<in>set es. (\<exists>bs. e = Rx_data bs) \<or> e = Rx_silence \<and> timed)"

definition line_next :: "rx_event list \<Rightarrow> rx_event list" where
  "line_next es = dropWhile (\<lambda>e. e = Rx_data []) es"

lemma line_next_simps [simp]:
  "line_next [] = []" "line_next (Rx_data [] # es) = line_next es"
  "bs \<noteq> [] \<Longrightarrow> line_next (Rx_data bs # es) = Rx_data bs # es" "line_next (Rx_silence # es) = Rx_silence # es"
  by (simp_all add: line_next_def)

text \<open>What comes next on such a line: nothing more, a silence, or bytes.\<close>

lemma line_next_cases:
  assumes "polite timed es"
  obtains (none) "line_next es = []" | (silence) es' where "line_next es = Rx_silence # es'" and timed
    | (data) bs es' where "line_next es = Rx_data bs # es'" and "bs \<noteq> []"
proof (cases "line_next es")
  case (Cons e es')
  then have "e \<in> set es" "e \<noteq> Rx_data []"
    using hd_dropWhile [of "\<lambda>e. e = Rx_data []" es] set_dropWhileD [of e "\<lambda>e. e = Rx_data []" es]
    by (auto simp: line_next_def)
  with assms Cons show thesis by (auto simp: polite_def intro: silence data)
qed (rule none)

lemma polite_tl: "polite timed es \<Longrightarrow> line_next es = e # es' \<Longrightarrow> polite timed es'"
  using set_dropWhileD [of _ "\<lambda>e. e = Rx_data []" es] by (auto simp: polite_def line_next_def)

lemma polite_Cons_data [simp]: "polite timed (Rx_data bs # es) = polite timed es"
  by (simp add: polite_def)

lemma select_read_next:
  "polite timed es \<Longrightarrow> select_read timed es =
     (case line_next es of [] \<Rightarrow> Pending | Rx_silence # es' \<Rightarrow> Done (0, None, es') | e # es' \<Rightarrow> Done (1, None, e # es'))"
  by (induction timed es rule: select_read.induct) (auto simp: polite_def)

lemma read_file_next:
  "polite timed es \<Longrightarrow> read_file n es =
     (case line_next es of [] \<Rightarrow> Pending | Rx_silence # es' \<Rightarrow> Done (True, [], es')
      | Rx_data bs # es' \<Rightarrow> Done (True, take n bs, if drop n bs = [] then es' else Rx_data (drop n bs) # es') | _ \<Rightarrow> Pending)"
  by (induction n es rule: read_file.induct) (auto simp: polite_def)

text \<open>The wait of the other platforms.\<close>

lemma be_select_next:
  assumes "polite (tv \<noteq> None) (w_rx w)"
  shows "line_next (w_rx w) = [] \<Longrightarrow> be_select ctx tv w = Pending"
    and "line_next (w_rx w) = Rx_silence # es \<Longrightarrow>
      be_select ctx tv w = Done (-1, w\<lparr>w_rx := es, w_armed := w_armed w @ [tv], w_errno := ETIMEDOUT\<rparr>)"
    and "line_next (w_rx w) = Rx_data bs # es \<Longrightarrow>
      be_select ctx tv w = Done (1, w\<lparr>w_rx := Rx_data bs # es, w_armed := w_armed w @ [tv]\<rparr>)"
  using select_read_next [OF assms]
  by (simp_all add: be_select_eq select_loop.simps [of "mb_s ctx" tv w] sys_select_def)

text \<open>A port that is open with an empty receive buffer.\<close>

definition port_ready :: "win_port \<Rightarrow> bool" where
  "port_ready port \<longleftrightarrow> ws_fd (wp_ser port) \<noteq> None \<and> ws_n_bytes (wp_ser port) = 0 \<and> length (ws_buf (wp_ser port)) = 512"

lemma win_select_next:
  assumes ready: "port_ready port" and tv: "select_msec tv = Done ms" and n: "0 < n" "n \<le> 512"
    and line: "polite (tv \<noteq> None) (w_rx (wn_world u))"
  shows "line_next (w_rx (wn_world u)) = [] \<Longrightarrow> win_rtu_select port tv n u = Pending"
    and "line_next (w_rx (wn_world u)) = Rx_silence # es \<Longrightarrow>
      \<exists>port' u'. win_rtu_select port tv n u = Done (-1, port', u') \<and>
        w_rx (wn_world u') = es \<and> w_errno (wn_world u') = ETIMEDOUT"
    and "line_next (w_rx (wn_world u)) = Rx_data bs # es \<Longrightarrow> bs \<noteq> [] \<Longrightarrow>
      \<exists>port' u'. win_rtu_select port tv n u = Done (1, port', u') \<and>
        w_rx (wn_world u') = (if drop n bs = [] then es else Rx_data (drop n bs) # es) \<and>
        w_errno (wn_world u') = w_errno (wn_world u) \<and>
        ws_fd (wp_ser port') \<noteq> None \<and> length (ws_buf (wp_ser port')) = 512 \<and>
        ws_n_bytes (wp_ser port') = word_of_nat (length (take n bs)) \<and>
        take (length (take n bs)) (ws_buf (wp_ser port')) = take n bs"
proof -
  let ?rx = "w_rx (wn_world u)"
  have fd: "ws_fd (wp_ser port) \<noteq> None" and n0: "\<not> ws_n_bytes (wp_ser port) > 0" and l: "length (ws_buf (wp_ser port)) = 512"
    using ready by (auto simp: port_ready_def)
  have m: "\<not> 512 < n" using n by simp
  define go where "go = (\<lambda>(ok, bs, es).
      obind (memcpy (ws_buf (wp_ser port)) 0 bs 0 (length bs)) (\<lambda>buf.
        let s_rc = (if ok then (if (word_of_nat (length bs) :: u32) > 0 then 1 else 0) else -1);
            port = port\<lparr>wp_ser := (wp_ser port)\<lparr>ws_buf := buf, ws_n_bytes := word_of_nat (length bs)\<rparr>\<rparr>;
            w = u\<lparr>wn_timeouts := wn_timeouts u @ [ms], wn_world := (wn_world u)\<lparr>w_rx := es\<rparr>\<rparr> in
        if s_rc = 0 then Done (-1, port, win_errno ETIMEDOUT w)
        else if s_rc < 0 then Done (-1, port, w) else Done (s_rc :: int, port, w)))"
  have eval: "win_rtu_select port tv n u = obind (read_file n ?rx) go"
    using n0 fd m tv by (auto simp: win_rtu_select_def win32_ser_select_def go_def obind_assoc Let_def case_prod_unfold intro!: obind_cong)
  show "win_rtu_select port tv n u = Pending" if "line_next ?rx = []"
    using that by (simp add: eval read_file_next [OF line])
  show "\<exists>port' u'. win_rtu_select port tv n u = Done (-1, port', u') \<and> w_rx (wn_world u') = es \<and> w_errno (wn_world u') = ETIMEDOUT"
    if "line_next ?rx = Rx_silence # es"
    using that by (simp add: eval read_file_next [OF line] go_def)
  show "\<exists>port' u'. win_rtu_select port tv n u = Done (1, port', u') \<and>
        w_rx (wn_world u') = (if drop n bs = [] then es else Rx_data (drop n bs) # es) \<and>
        w_errno (wn_world u') = w_errno (wn_world u) \<and>
        ws_fd (wp_ser port') \<noteq> None \<and> length (ws_buf (wp_ser port')) = 512 \<and>
        ws_n_bytes (wp_ser port') = word_of_nat (length (take n bs)) \<and>
        take (length (take n bs)) (ws_buf (wp_ser port')) = take n bs"
    if rx: "line_next ?rx = Rx_data bs # es" and ne: "bs \<noteq> []"
  proof -
    define xs where "xs = take n bs"
    have len: "length xs \<le> 512" "0 < length xs" using n ne by (simp_all add: xs_def)
    then have pos: "(word_of_nat (length xs) :: u32) > 0"
      by (simp add: word_less_nat_alt unsigned_of_nat take_bit_nat_eq_self)
    have "read_file n ?rx = Done (True, xs, if drop n bs = [] then es else Rx_data (drop n bs) # es)"
      using rx by (simp add: read_file_next [OF line] xs_def)
    then show ?thesis unfolding xs_def [symmetric] using pos len l fd by (simp add: eval go_def)
  qed
qed

lemma win_recv_ready:
  assumes port: "ws_fd (wp_ser port) \<noteq> None" "length (ws_buf (wp_ser port)) = 512"
    and xs: "ws_n_bytes (wp_ser port) = word_of_nat (length xs)" "take (length xs) (ws_buf (wp_ser port)) = xs"
    and n: "0 < length xs" "length xs \<le> n" "n \<le> 512"
  shows "\<exists>port'. port_ready port' \<and> win_rtu_recv port msg off n =
    obind (memcpy msg off xs 0 (length xs)) (\<lambda>msg. Done (int (length xs), msg, port'))"
proof -
  let ?b = "word_of_nat (length xs) :: u32" and ?buf = "ws_buf (wp_ser port)"
  have u: "unat ?b = length xs" "uint ?b = int (length xs)"
    using n by (simp_all add: unsigned_of_nat take_bit_nat_eq_self take_bit_int_eq_self)
  have "\<not> (word_of_nat n :: u32) < ?b"
    using n by (simp add: word_less_nat_alt unsigned_of_nat take_bit_nat_eq_self)
  moreover have "0 < ?b" using n(1) u(1) by (simp add: word_less_nat_alt)
  moreover have "memcpy msg off ?buf 0 (unat ?b) = memcpy msg off xs 0 (length xs)"
    using port n u(1) xs(2) by (simp add: memcpy_def)
  moreover have "port_ready (port\<lparr>wp_ser := (wp_ser port)\<lparr>ws_n_bytes := ?b - ?b\<rparr>\<rparr>)"
    using port by (simp add: port_ready_def)
  ultimately show ?thesis
    using u(2) by (auto simp: win_rtu_recv_def win32_ser_read_def Let_def xs(1) obind_assoc)
qed

lemma be_recv_next:
  assumes "w_rx w = Rx_data bs # es" and "bs \<noteq> []" and "0 \<le> mb_s ctx"
  shows "be_recv ctx n w =
    (int (length (take n bs)), take n bs, w\<lparr>w_rx := if drop n bs = [] then es else Rx_data (drop n bs) # es\<rparr>)"
  using assms by (cases bs) (auto simp: be_recv_eq sys_recv_def)

section \<open>The whole reception\<close>

text \<open>What the caller sees of a reception: the result, the buffer, \<open>errno\<close> and what is left on the line.\<close>

definition posix_view :: "(int \<times> modbus \<times> byte list \<times> world) outcome \<Rightarrow> (int \<times> byte list \<times> errno \<times> rx_event list) outcome" where
  "posix_view r = obind r (\<lambda>(rc, _, msg, w). Done (rc, msg, w_errno w, w_rx w))"

definition win_view :: "(int \<times> win_port \<times> byte list \<times> win) outcome \<Rightarrow> (int \<times> byte list \<times> errno \<times> rx_event list) outcome" where
  "win_view r = obind r (\<lambda>(rc, _, msg, w). Done (rc, msg, w_errno (wn_world w), w_rx (wn_world w)))"

text \<open>Without recovery a failed call only returns.\<close>

lemma no_recovery:
  assumes "mb_error_recovery ctx = 0"
  shows "\<not> link_recovery ctx" "\<not> protocol_recovery ctx"
    "select_failed ctx w = Done (ctx, w)" "win_select_failed ctx r port u = Done (port, u)"
  using assms by (simp_all add: link_recovery_def protocol_recovery_def select_failed_def win_select_failed_def)

lemma check_integrity_agrees:
  assumes "is_rtu ctx" and "mb_error_recovery ctx = 0" and "w_rx (wn_world u) = w_rx w" and "w_errno (wn_world u) = w_errno w"
  shows "win_view (obind (win_check_integrity ctx port msg n u) (\<lambda>(rc, port, w). Done (rc, port, msg, w))) =
    posix_view (obind (be_check_integrity ctx msg n w) (\<lambda>(rc, w). Done (rc, ctx, msg, w)))"
  using assms
  by (auto simp: win_view_def posix_view_def be_check_integrity_def win_check_integrity_def modbus_rtu_check_integrity_def
        no_recovery Let_def obind_assoc intro!: obind_cong)

text \<open>The waits stay short enough for the buffer of the port.\<close>

lemma next_step_short:
  assumes "next_step ctx mt st msg n = Done (Some (st', l))"
  shows "l \<le> 260"
proof -
  have "n + l \<le> max_adu_length ctx \<or> l \<le> 9"
    using assms
    by (cases st)
       (auto simp: next_step_def enter_data_def compute_meta_length_after_function_def Let_def outcome_iff split: if_splits)
  then show ?thesis using max_adu_bounds(2) [of ctx] by linarith
qed

lemma reception_agrees:
  assumes rtu: "is_rtu ctx" and recovery: "mb_error_recovery ctx = 0" and fd: "0 \<le> mb_s ctx"
    and byte: "select_msec (Some (mb_byte_timeout ctx)) \<noteq> Fault"
  shows "port_ready port \<Longrightarrow> w_rx (wn_world u) = w_rx w \<Longrightarrow> w_errno (wn_world u) = w_errno w \<Longrightarrow>
    polite (tv \<noteq> None) (w_rx w) \<Longrightarrow> select_msec tv \<noteq> Fault \<Longrightarrow> ltr \<le> 260 \<Longrightarrow>
    win_view (win_receive_loop ctx r port mt st ltr msg n tv u) = posix_view (receive_loop ctx mt st ltr msg n tv w)"
  using rtu recovery fd byte
proof (induction ctx mt st ltr msg n tv w arbitrary: port u rule: receive_loop.induct)
  case (1 ctx mt st ltr msg n tv w)
  note loops = win_receive_loop.simps [of ctx r port mt st ltr msg n tv u] receive_loop.simps [of ctx mt st ltr msg n tv w]
  show ?case
  proof (cases "ltr = 0")
    case True
    with 1 show ?thesis unfolding loops by (simp add: check_integrity_agrees)
  next
    case False
    obtain ms where ms: "select_msec tv = Done ms"
      using "1.prems"(5) by (cases "select_msec tv") (auto simp: select_msec_def Let_def split: option.splits if_splits)
    have ltr: "0 < ltr" "ltr \<le> 512" using False "1.prems"(6) by simp_all
    note sel = win_select_next [OF "1.prems"(1) ms ltr, of u, unfolded "1.prems"(2), OF "1.prems"(4)]
      and psel = be_select_next [OF "1.prems"(4), where ctx = ctx]
    from "1.prems"(4) show ?thesis
    proof (cases rule: line_next_cases)
      case none
      then show ?thesis using False sel(1) psel(1)
        unfolding loops by (simp add: win_receive_turn_def receive_turn_def win_view_def posix_view_def)
    next
      case (silence es)
      with sel(2) obtain port' u' where "win_rtu_select port tv ltr u = Done (-1, port', u')"
        "w_rx (wn_world u') = es" "w_errno (wn_world u') = ETIMEDOUT" by blast
      then show ?thesis using False psel(2) [OF silence(1)] "1.prems"(8)
        unfolding loops by (simp add: win_receive_turn_def receive_turn_def win_view_def posix_view_def no_recovery)
    next
      case (data bs es)
      define xs where "xs = take ltr bs"
      define rx where "rx = (if drop ltr bs = [] then es else Rx_data (drop ltr bs) # es)"
      have xs: "0 < length xs" "length xs \<le> ltr" using data ltr by (simp_all add: xs_def)
      from sel(3) [OF data] obtain port1 u1 where win: "win_rtu_select port tv ltr u = Done (1, port1, u1)"
        "w_rx (wn_world u1) = rx" "w_errno (wn_world u1) = w_errno (wn_world u)"
        and p1: "ws_fd (wp_ser port1) \<noteq> None" "length (ws_buf (wp_ser port1)) = 512"
          "ws_n_bytes (wp_ser port1) = word_of_nat (length xs)" "take (length xs) (ws_buf (wp_ser port1)) = xs"
        unfolding xs_def rx_def by blast
      from win_recv_ready [OF p1 xs ltr(2), of msg n] obtain port2 where port2: "port_ready port2"
        and wr: "win_rtu_recv port1 msg n ltr = obind (memcpy msg n xs 0 (length xs)) (\<lambda>msg. Done (int (length xs), msg, port2))" by blast
      let ?w1 = "w\<lparr>w_rx := Rx_data bs # es, w_armed := w_armed w @ [tv]\<rparr>"
      let ?w2 = "w\<lparr>w_armed := w_armed w @ [tv], w_rx := rx\<rparr>"
      have posix: "be_select ctx tv w = Done (1, ?w1)" "be_recv ctx ltr ?w1 = (int (length xs), xs, ?w2)"
        using psel(3) [OF data(1)] be_recv_next [of ?w1 bs es ctx ltr] data(2) "1.prems"(9) by (simp_all add: xs_def rx_def)
      show ?thesis
      proof (cases "memcpy msg n xs 0 (length xs)")
        case (Done msg')
        let ?go = "if ltr - length xs = 0 then next_step ctx mt st msg' (n + length xs) else Done (Some (st, ltr - length xs))"
        have wt: "win_receive_turn ctx r port mt st ltr msg n tv u = obind ?go (\<lambda>go. case go of
            None \<Rightarrow> Done (Win_return port2 msg' (win_errno EMBBADDATA u1))
          | Some (step, l) \<Rightarrow> Done (Win_continue port2 step l msg' (n + length xs) (next_timeout ctx l tv) u1))"
          using win(1) wr Done xs(1) by (simp add: win_receive_turn_def Let_def del: EMBBADDATA_def)
        have pt: "receive_turn ctx mt st ltr msg n tv w = obind ?go (\<lambda>go. case go of
            None \<Rightarrow> Done (Rx_return (-1) ctx msg' (set_errno EMBBADDATA ?w2))
          | Some (step, l) \<Rightarrow> Done (Rx_continue step l msg' (n + length xs) (next_timeout ctx l tv) ?w2))"
          using posix Done xs(1) by (simp add: receive_turn_def Let_def del: EMBBADDATA_def)
        show ?thesis
        proof (cases ?go)
          case (Done go)
          show ?thesis
          proof (cases go)
            case None
            with Done wt pt False win(2) show ?thesis unfolding loops by (simp add: win_view_def posix_view_def)
          next
            case (Some p)
            then obtain st' l where go: "go = Some (st', l)" by (cases p) auto
            let ?tv = "next_timeout ctx l tv"
            have turn: "win_receive_turn ctx r port mt st ltr msg n tv u = Done (Win_continue port2 st' l msg' (n + length xs) ?tv u1)"
              "receive_turn ctx mt st ltr msg n tv w = Done (Rx_continue st' l msg' (n + length xs) ?tv ?w2)"
              unfolding wt pt Done go by simp_all
            have "polite (tv \<noteq> None) rx" using polite_tl [OF "1.prems"(4) data(1)] by (simp add: rx_def)
            then have "polite (?tv \<noteq> None) rx" by (auto simp: next_timeout_def polite_def)
            moreover have "select_msec ?tv \<noteq> Fault" using "1.prems"(5,10) by (simp add: next_timeout_def)
            moreover have "l \<le> 260"
              using Done go "1.prems"(6) next_step_short [of ctx mt st msg' "n + length xs" st' l] by (auto split: if_splits)
            ultimately show ?thesis
              using "1.IH" [OF False turn(2) refl, of port2 u1] port2 win "1.prems" False unfolding loops by (simp add: turn)
          qed
        qed (use wt pt False in \<open>simp_all add: loops win_view_def posix_view_def\<close>)
      qed (use win(1) wr posix False xs in \<open>auto simp: loops win_receive_turn_def receive_turn_def win_view_def posix_view_def\<close>)
    qed
  qed
qed

theorem win_receive_msg_agrees:
  assumes "is_rtu ctx" and "mb_error_recovery ctx = 0" and "0 \<le> mb_s ctx" "mb_s ctx < WIN_FD_SETSIZE" and "port_ready port"
    and "select_msec (first_timeout ctx mt) \<noteq> Fault" and "select_msec (Some (mb_byte_timeout ctx)) \<noteq> Fault"
    and "polite (first_timeout ctx mt \<noteq> None) (w_rx (wn_world u))"
  shows "win_view (win_receive_msg ctx r port msg mt u) = posix_view (modbus_receive_msg ctx msg mt (wn_world u))"
proof -
  have "header_length ctx + 1 \<le> 260" using max_adu_bounds [of ctx] by linarith
  from reception_agrees [OF assms(1-3,7,5) refl refl assms(8,6) this] assms(3-5) show ?thesis
    by (simp add: win_receive_msg_def modbus_receive_msg_def win_rtu_is_connected_def be_is_connected_eq port_ready_def)
qed

section \<open>The port\<close>

text \<open>A connection leaves a port that is ready, or no handle behind.\<close>

lemma win_connect_result:
  assumes "win_rtu_connect r port w = Done (rc, port', w')"
  shows "rc = 0 \<and> port_ready port' \<and> (\<exists>h. ws_fd (wp_ser port') = Some h \<and> w_fds (wn_world w') = h # w_fds (wn_world w)) \<and>
      wp_old_dcb port' = wn_dcb w \<and> wn_dcb w' = rtu_dcb r (wn_dcb w) \<or>
    rc = -1 \<and> ws_fd (wp_ser port') = None \<and> w_fds (wn_world w') = w_fds (wn_world w) \<and> wn_dcb w' = wn_dcb w"
  using assms
  by (auto simp: win_rtu_connect_def create_file_def win_call_def close_handle_def win32_ser_init_def port_ready_def Let_def
        split: list.splits if_splits elim!: obind_DoneE)

lemma win_close_result:
  assumes "win_rtu_close port w = Done (port', w')"
  shows "ws_fd (wp_ser port') = None \<and>
    w_fds (wn_world w') = (case ws_fd (wp_ser port) of None \<Rightarrow> w_fds (wn_world w) | Some h \<Rightarrow> remove1 h (w_fds (wn_world w)))"
  using assms
  by (auto simp: win_rtu_close_def win_call_def close_handle_def Let_def split: list.splits if_splits elim!: obind_DoneE)

text \<open>The settings of a port are those of the context; the members the library does not know stay.\<close>

lemma rtu_dcb_settings:
  assumes "rtu_data_bit r \<in> {5, 6, 7, 8}" and "rtu_stop_bit r \<in> {1, 2}" and "0 \<le> rtu_baud r" "rtu_baud r < 2 ^ 32"
  shows "uint (dcb_BaudRate (rtu_dcb r d)) = rtu_baud r" and "dcb_ByteSize (rtu_dcb r d) = rtu_data_bit r"
    and "dcb_StopBits (rtu_dcb r d) = TWOSTOPBITS \<longleftrightarrow> rtu_stop_bit r = 2"
    and "dcb_fParity (rtu_dcb r d) \<longleftrightarrow> rtu_parity r \<noteq> CHR ''N''"
    and "dcb_Parity (rtu_dcb r d) = (if rtu_parity r = CHR ''N'' then NOPARITY else if rtu_parity r = CHR ''E'' then EVENPARITY else ODDPARITY)"
    and "dcb_others (rtu_dcb r d) = dcb_others d"
  using assms by (auto simp: rtu_dcb_def Let_def uint_word_of_int)

text \<open>
  A read of fewer bytes than the buffer holds lowers the count and leaves the buffer as it is: the
  next read returns the first bytes again. The library never does it, since it waits for as many
  bytes as it then reads.
\<close>

lemma read_some:
  assumes "length (ws_buf ws) = 512" and "0 < k" "k \<le> unat (ws_n_bytes ws)" "k \<le> 512" and "k \<le> length msg"
  shows "win32_ser_read ws msg 0 (word_of_nat k) =
    Done (int k, take k (ws_buf ws) @ drop k msg, ws\<lparr>ws_n_bytes := ws_n_bytes ws - word_of_nat k\<rparr>)"
proof -
  let ?k = "word_of_nat k :: u32"
  have u: "unat ?k = k" "uint ?k = int k"
    using assms by (simp_all add: unsigned_of_nat take_bit_nat_eq_self take_bit_int_eq_self)
  then have "(if ?k < ws_n_bytes ws then ?k else ws_n_bytes ws) = ?k" "0 < ?k"
    using assms(2,3) by (auto simp: word_less_nat_alt word_unat_eq_iff)
  then show ?thesis using assms u by (simp only: win32_ser_read_def Let_def if_True) simp
qed

lemma partial_read_repeats:
  assumes "length (ws_buf ws) = 512" and "0 < k" "2 * k \<le> n" "n \<le> 512" and "ws_n_bytes ws = word_of_nat n" and "k \<le> length msg"
  shows "\<exists>ws1 ws2. win32_ser_read ws msg 0 (word_of_nat k) = Done (int k, take k (ws_buf ws) @ drop k msg, ws1) \<and>
    win32_ser_read ws1 msg 0 (word_of_nat k) = Done (int k, take k (ws_buf ws) @ drop k msg, ws2)"
proof -
  let ?n1 = "word_of_nat n - word_of_nat k :: u32"
  have "unat (word_of_nat n :: u32) = n" using assms by (simp add: unsigned_of_nat take_bit_nat_eq_self)
  moreover have "?n1 = word_of_nat (n - k)" using assms(3) by (simp add: of_nat_diff)
  then have "unat ?n1 = n - k" using assms(4) by (simp add: unsigned_of_nat take_bit_nat_eq_self)
  ultimately show ?thesis
    using read_some [of ws k msg] read_some [of "ws\<lparr>ws_n_bytes := ?n1\<rparr>" k msg] assms by simp
qed

section \<open>A serial context on Windows\<close>

text \<open>
  The descriptor of a serial context stays -1, where the constructor puts it: a connection fills the
  handle of the port. The guard on the descriptor then ends every reception.
\<close>

lemma win_nothing_received:
  assumes "mb_s ctx = -1" and "win_rtu_connect r port w = Done (0, port', w')"
  shows "win_receive_msg ctx r port' msg mt w' = Done (-1, port', msg, win_errno EINVAL w')"
  using assms win_connect_result [OF assms(2)] by (auto simp: win_receive_msg_def win_rtu_is_connected_def)

lemma new_rtu_socket: "modbus_new_rtu device baud parity data_bit stop_bit junk tios st = (Some ctx, st') \<Longrightarrow> mb_s ctx = -1"
  by (auto simp: modbus_new_rtu_def Let_def common_ctx_def modbus_init_common_def split: option.splits if_splits prod.splits)

end
