(* ===== verification/Mb_Link.thy ===== *)
theory Mb_Link
  imports Mb_Loop Mb_Winport
begin

text \<open>
  The descriptor of a context through connecting, closing, recovering, sending and receiving. The
  locale \<open>link\<close> is the contract of a backend that opens and closes its line: the recovery of
  modbus.c may then close and open it again at any time without losing a descriptor. The backends of
  the POSIX platforms and the serial port of Windows are interpretations of it.
\<close>

section \<open>The contract\<close>

text \<open>The open descriptors of the process: the others, and the one that the line holds.\<close>

definition tracked :: "int multiset \<Rightarrow> int option \<Rightarrow> int list \<Rightarrow> bool" where
  "tracked others fd fds \<longleftrightarrow> mset fds = others + (case fd of None \<Rightarrow> {#} | Some s \<Rightarrow> {#s#})"

definition conserved :: "int option \<Rightarrow> int list \<Rightarrow> int option \<Rightarrow> int list \<Rightarrow> bool" where
  "conserved fd fds fd' fds' \<longleftrightarrow> (\<forall>others. tracked others fd fds \<longrightarrow> tracked others fd' fds')"

lemma conserved_refl [simp]: "conserved fd fds fd fds"
  by (simp add: conserved_def)

lemma conserved_trans: "conserved fd fds fd1 fds1 \<Longrightarrow> conserved fd1 fds1 fd2 fds2 \<Longrightarrow> conserved fd fds fd2 fds2"
  by (simp add: conserved_def)

lemma conserved_opened: "conserved None fds (Some s) (s # fds)"
  by (simp add: conserved_def tracked_def)

lemma conserved_closed: "conserved (Some s) fds None (remove1 s fds)"
  by (simp add: conserved_def tracked_def)

locale link =
  fixes connect_line :: "'c \<Rightarrow> 'w \<Rightarrow> (int \<times> 'c \<times> 'w) outcome"
    and close_line :: "'c \<Rightarrow> 'w \<Rightarrow> ('c \<times> 'w) outcome"
    and line :: "'c \<Rightarrow> int option"
    and descriptors :: "'w \<Rightarrow> int list"
  assumes connect_conserves: "connect_line c w = Done (rc, c', w') \<Longrightarrow> line c = None \<Longrightarrow>
      conserved (line c) (descriptors w) (line c') (descriptors w')"
    and close_conserves: "close_line c w = Done (c', w') \<Longrightarrow> conserved (line c) (descriptors w) (line c') (descriptors w')"
    and closed: "close_line c w = Done (c', w') \<Longrightarrow> line c' = None"
begin

lemma reopen_conserves:
  assumes "close_line c w = Done (c1, w1)" and "descriptors w2 = descriptors w1" and "connect_line c1 w2 = Done (rc, c', w')"
  shows "conserved (line c) (descriptors w) (line c') (descriptors w')"
  using conserved_trans [OF close_conserves [OF assms(1)], folded assms(2)] connect_conserves [OF assms(3) closed [OF assms(1)]] by blast

end

section \<open>POSIX\<close>

definition held :: "modbus \<Rightarrow> int option" where
  "held c = (if 0 \<le> mb_s c then Some (mb_s c) else None)"

lemma owns_tracked: "owns others c w = tracked others (held c) (w_fds w)"
  by (simp add: owns_def tracked_def held_def)

interpretation posix: link be_connect be_close held w_fds
proof
  show "conserved (held c) (w_fds w) (held c') (w_fds w')" if "be_connect c w = Done (rc, c', w')" "held c = None" for c w rc c' w'
  proof -
    have "mb_s c < 0" using that(2) by (simp add: held_def split: if_splits)
    with connect_owns [OF _ that(1)] show ?thesis by (auto simp: conserved_def owns_tracked [symmetric])
  qed
  show "conserved (held c) (w_fds w) (held c') (w_fds w')" if "be_close c w = Done (c', w')" for c w c' w'
    using close_owns [OF _ that] by (auto simp: conserved_def owns_tracked [symmetric])
  show "held c' = None" if "be_close c w = Done (c', w')" for c w c' w'
    using be_close_result [OF that] by (simp add: held_def)
qed

definition lossless :: "modbus \<Rightarrow> world \<Rightarrow> modbus \<Rightarrow> world \<Rightarrow> bool" where
  "lossless c w c' w' \<longleftrightarrow> conserved (held c) (w_fds w) (held c') (w_fds w')"

lemma lossless_iff: "lossless c w c' w' \<longleftrightarrow> (\<forall>others. owns others c w \<longrightarrow> owns others c' w')"
  by (simp add: lossless_def conserved_def owns_tracked)

lemma lossless_refl [simp]: "lossless c w c w"
  by (simp add: lossless_def)

lemma lossless_trans: "lossless c w c1 w1 \<Longrightarrow> lossless c1 w1 c2 w2 \<Longrightarrow> lossless c w c2 w2"
  unfolding lossless_def by (rule conserved_trans)

lemma lossless_fds: "lossless c w c1 w1 \<Longrightarrow> mb_s c' = mb_s c1 \<Longrightarrow> w_fds w' = w_fds w1 \<Longrightarrow> lossless c w c' w'"
  by (simp add: lossless_def held_def cong: if_cong)

lemma lossless_same: "mb_s c' = mb_s c \<Longrightarrow> w_fds w' = w_fds w \<Longrightarrow> lossless c w c' w'"
  by (rule lossless_fds) simp_all

lemma lossless_errno [simp]:
  "lossless c w c' (set_errno e w') \<longleftrightarrow> lossless c w c' w'" "lossless c (set_errno e w) c' w' \<longleftrightarrow> lossless c w c' w'"
  by (simp_all add: lossless_def)

lemma sleep_response_timeout_fds: "w_fds (sleep_response_timeout c w) = w_fds w"
  by (simp add: sleep_response_timeout_def)

lemma flush_lossless: "lossless c w c (snd (be_flush c (sleep_response_timeout c w)))"
  using be_flush_frame [of c "sleep_response_timeout c w"]
  by (cases "be_flush c (sleep_response_timeout c w)") (simp add: lossless_same sleep_response_timeout_fds)

lemma reopen_lossless:
  "be_close c w = Done (c1, w1) \<Longrightarrow> w_fds w2 = w_fds w1 \<Longrightarrow> be_connect c1 w2 = Done (rc, c', w') \<Longrightarrow> lossless c w c' w'"
  unfolding lossless_def by (rule posix.reopen_conserves)

lemma recover_link_lossless: "recover_link c w = Done (c', w') \<Longrightarrow> lossless c w c' w'"
  by (auto simp: recover_link_def Let_def flush_lossless split: if_splits elim!: obind_DoneE
      elim: reopen_lossless [OF _ sleep_response_timeout_fds])

lemma reconnect_lossless: "reconnect c w = Done (c', w') \<Longrightarrow> lossless c w c' w'"
  by (auto simp: reconnect_def elim!: obind_DoneE intro: reopen_lossless)

lemma select_failed_lossless: "select_failed c w = Done (c', w') \<Longrightarrow> lossless c w c' w'"
  by (auto simp: select_failed_def Let_def flush_lossless split: if_splits elim!: obind_DoneE dest: reconnect_lossless)

lemma recv_failed_lossless: "recv_failed c w = Done (c', w') \<Longrightarrow> lossless c w c' w'"
  by (auto simp: recv_failed_def Let_def split: if_splits elim!: obind_DoneE dest: reconnect_lossless)

lemma send_loop_lossless: "send_loop c msg w = Done (rc, c', w') \<Longrightarrow> lossless c w c' w'"
proof (induction c msg w rule: send_loop.induct)
  case (1 c msg w)
  from "1.prems" obtain rc1 w1 where snd: "be_send c msg w = Done (rc1, w1)"
    by (auto simp: send_loop.simps [of c msg w] split: outcome.splits)
  have s: "lossless c w c w1" using be_send_result [OF snd] by (simp add: lossless_same)
  show ?case
  proof (cases "rc1 = -1 \<and> link_recovery c")
    case False
    with "1.prems" snd s show ?thesis by (auto simp: send_loop.simps [of c msg w])
  next
    case True
    with "1.prems" snd obtain c2 w2 where rec: "recover_link c w1 = Done (c2, w2)"
        and rest: "send_loop c2 msg w2 = Done (rc, c', w')"
      by (auto simp: send_loop.simps [of c msg w] split: outcome.splits)
    from s recover_link_lossless [OF rec] "1.IH" [OF snd refl True rec refl rest] show ?thesis
      by (blast intro: lossless_trans)
  qed
qed

lemma send_msg_lossless: "send_msg c msg n w = Done (rc, c', msg', w') \<Longrightarrow> lossless c w c' w'"
  by (auto simp: send_msg_def split: if_splits elim!: obind_DoneE dest!: send_loop_lossless)

lemma send_frame_lossless: "send_frame c f w = Done (rc, c', w') \<Longrightarrow> lossless c w c' w'"
  by (auto simp: send_frame_def split: if_splits elim!: obind_DoneE dest!: send_loop_lossless)

lemma be_select_fds: "be_select c tv w = Done (rc, w') \<Longrightarrow> w_fds w' = w_fds w"
  by (auto simp: be_select_eq dest!: select_loop_result)

lemma be_recv_fds: "be_recv c n w = (rc, bs, w') \<Longrightarrow> w_fds w' = w_fds w"
  by (auto simp: be_recv_eq dest!: sys_recv_frame)

text \<open>The context is the same until a turn fails; the failure may reopen the link.\<close>

lemma receive_turn_lossless:
  assumes turn: "receive_turn c mt st ltr msg n tv w = Done t"
  shows "case t of Rx_return rc c' msg' w' \<Rightarrow> lossless c w c' w' | Rx_continue st' ltr' msg' n' tv' w' \<Rightarrow> w_fds w' = w_fds w"
proof -
  from turn obtain rc1 w1 where sel: "be_select c tv w = Done (rc1, w1)"
    by (auto simp: receive_turn_def elim!: obind_DoneE)
  obtain rc2 bs w2 where rcv: "be_recv c ltr w1 = (rc2, bs, w2)" by (cases "be_recv c ltr w1")
  have fds: "w_fds w1 = w_fds w" "w_fds w2 = w_fds w"
    using be_select_fds [OF sel] be_recv_fds [OF rcv] by simp_all
  have same: "lossless c w c w1" "lossless c w c w2" by (simp_all add: lossless_same fds)
  from turn sel rcv same show ?thesis
    by (auto simp: receive_turn_def Let_def fds split: if_splits option.splits elim!: obind_DoneE
        dest!: select_failed_lossless recv_failed_lossless elim: lossless_trans)
qed

lemma be_check_integrity_fds: "be_check_integrity c msg n w = Done (rc, w') \<Longrightarrow> w_fds w' = w_fds w"
  by (auto simp: be_check_integrity_def modbus_tcp_check_integrity_def modbus_rtu_check_integrity_def Let_def modbus_rtu_flush_def
      sys_tcflush_def split: if_splits elim!: obind_DoneE)

lemma receive_loop_lossless:
  "receive_loop c mt st ltr msg n tv w = Done (rc, c', msg', w') \<Longrightarrow> lossless c w c' w'"
proof (induction c mt st ltr msg n tv w rule: receive_loop.induct)
  case (1 c mt st ltr msg n tv w)
  show ?case
  proof (cases "ltr = 0")
    case True
    with "1.prems" show ?thesis
      by (auto simp: receive_loop.simps [of c mt st 0 msg n tv w] elim!: obind_DoneE dest: be_check_integrity_fds intro: lossless_same)
  next
    case False
    with "1.prems" obtain t where turn: "receive_turn c mt st ltr msg n tv w = Done t"
      by (cases "receive_turn c mt st ltr msg n tv w") (simp_all add: receive_loop.simps [of c mt st ltr msg n tv w])
    show ?thesis
    proof (cases t)
      case (Rx_return rc1 c1 msg1 w1)
      with "1.prems" False turn receive_turn_lossless [OF turn] show ?thesis
        by (simp add: receive_loop.simps [of c mt st ltr msg n tv w])
    next
      case (Rx_continue st' ltr' msg1 n' tv' w1)
      with "1.prems" False turn have "receive_loop c mt st' ltr' msg1 n' tv' w1 = Done (rc, c', msg', w')"
        by (simp add: receive_loop.simps [of c mt st ltr msg n tv w])
      from "1.IH" [OF False turn Rx_continue this] receive_turn_lossless [OF turn] Rx_continue show ?thesis
        by (auto intro: lossless_trans [OF lossless_same])
    qed
  qed
qed

lemma receive_msg_lossless: "modbus_receive_msg c msg mt w = Done (rc, c', msg', w') \<Longrightarrow> lossless c w c' w'"
  by (auto simp: modbus_receive_msg_def split: if_splits dest: receive_loop_lossless)

lemma be_receive_lossless: "be_receive c msg w = Done (rc, c', msg', w') \<Longrightarrow> lossless c w c' w'"
  by (auto simp: be_receive_def modbus_rtu_receive_def modbus_tcp_receive_def Let_def
      split: backend_data.splits if_splits elim!: obind_DoneE dest!: receive_msg_lossless
      intro: lossless_trans [OF _ lossless_same])

lemma pre_check_fds: "be_pre_check_confirmation c req rsp w = Done (rc, w') \<Longrightarrow> w_fds w' = w_fds w"
  by (auto simp: be_pre_check_confirmation_def modbus_rtu_pre_check_confirmation_def modbus_tcp_pre_check_confirmation_def Let_def
      split: if_splits elim!: obind_DoneE)

lemma protocol_flush_fds: "w_fds (protocol_flush c w) = w_fds w"
  using be_flush_frame [of c "sleep_response_timeout c w"]
  by (cases "be_flush c (sleep_response_timeout c w)") (simp add: protocol_flush_def sleep_response_timeout_def)

lemma check_confirmation_fds: "check_confirmation c req rsp n w = Done (rc, w') \<Longrightarrow> w_fds w' = w_fds w"
  by (auto simp: check_confirmation_def Let_def protocol_flush_fds split: if_splits elim!: obind_DoneE dest!: pre_check_fds)

lemma exchange_lossless:
  assumes "exchange c req n rsp w = Done (rc, c', rsp', w')"
  shows "lossless c w c' w'"
proof -
  from assms obtain rc1 c1 req1 w1 where snd: "send_msg c req n w = Done (rc1, c1, req1, w1)"
    by (auto simp: exchange_def elim!: obind_DoneE)
  note s = send_msg_lossless [OF snd]
  show ?thesis
  proof (cases "rc1 > 0")
    case True
    with assms snd obtain rc2 w2 where rcv: "modbus_receive_msg c1 rsp MSG_CONFIRMATION w1 = Done (rc2, c', rsp', w2)"
      and fds: "w_fds w' = w_fds w2"
      by (auto simp: exchange_def split: if_splits elim!: obind_DoneE dest!: check_confirmation_fds)
    from lossless_trans [OF s receive_msg_lossless [OF rcv]] show ?thesis by (rule lossless_fds [OF _ refl fds])
  qed (use assms snd s in \<open>simp add: exchange_def\<close>)
qed

section \<open>Windows\<close>

abbreviation win_held :: "win_port \<Rightarrow> int option" where
  "win_held port \<equiv> ws_fd (wp_ser port)"

abbreviation win_fds :: "win \<Rightarrow> int list" where
  "win_fds w \<equiv> w_fds (wn_world w)"

interpretation windows: link "win_rtu_connect r" win_rtu_close win_held win_fds for r
proof
  show "conserved (win_held port) (win_fds w) (win_held port') (win_fds w')"
    if "win_rtu_connect r port w = Done (rc, port', w')" "win_held port = None" for port w rc port' w'
    using win_connect_result [OF that(1)] that(2) by (auto simp: conserved_opened)
  show "conserved (win_held port) (win_fds w) (win_held port') (win_fds w')" if "win_rtu_close port w = Done (port', w')" for port w port' w'
    using win_close_result [OF that] by (cases "win_held port") (auto simp: conserved_closed)
  show "win_held port' = None" if "win_rtu_close port w = Done (port', w')" for port w port' w'
    using win_close_result [OF that] by simp
qed

definition win_lossless :: "win_port \<Rightarrow> win \<Rightarrow> win_port \<Rightarrow> win \<Rightarrow> bool" where
  "win_lossless port w port' w' \<longleftrightarrow> conserved (win_held port) (win_fds w) (win_held port') (win_fds w')"

lemma win_lossless_refl [simp]: "win_lossless port w port w"
  by (simp add: win_lossless_def)

lemma win_lossless_trans: "win_lossless p w p1 w1 \<Longrightarrow> win_lossless p1 w1 p2 w2 \<Longrightarrow> win_lossless p w p2 w2"
  unfolding win_lossless_def by (rule conserved_trans)

lemma win_lossless_same: "win_held p' = win_held p \<Longrightarrow> win_fds w' = win_fds w \<Longrightarrow> win_lossless p w p' w'"
  by (simp add: win_lossless_def)

lemma win_lossless_errno [simp]:
  "win_lossless p w p' (win_errno e w') \<longleftrightarrow> win_lossless p w p' w'" "win_lossless p (win_errno e w) p' w' \<longleftrightarrow> win_lossless p w p' w'"
  by (simp_all add: win_lossless_def)

lemma win_reopen_lossless:
  "win_rtu_close p w = Done (p1, w1) \<Longrightarrow> win_fds w2 = win_fds w1 \<Longrightarrow> win_rtu_connect r p1 w2 = Done (rc, p', w') \<Longrightarrow> win_lossless p w p' w'"
  unfolding win_lossless_def by (rule windows.reopen_conserves)

lemma win_call_fds: "win_call w = Done (r, w') \<Longrightarrow> win_fds w' = win_fds w"
  by (auto simp: win_call_def split: list.splits)

lemma win_lossless_call: "win_call w = Done (r, w1) \<Longrightarrow> win_lossless p w1 p' w' \<Longrightarrow> win_lossless p w p' w'"
  by (simp add: win_lossless_def win_call_fds)

lemma win_flush_lossless: "win_rtu_flush p w = Done (rc, p', w') \<Longrightarrow> win_lossless p w p' w'"
  by (auto simp: win_rtu_flush_def Let_def win_call_fds intro!: win_lossless_same split: if_splits elim!: obind_DoneE)

lemma win_sleep_fds: "win_fds (win_sleep c w) = win_fds w"
  by (simp add: win_sleep_def sleep_response_timeout_fds)

lemma win_lossless_sleep [simp]: "win_lossless p (win_sleep c w) p' w' \<longleftrightarrow> win_lossless p w p' w'"
  by (simp add: win_lossless_def win_sleep_fds)

lemma win_recover_link_lossless:
  assumes "win_recover_link c r p w = Done (p', w')"
  shows "win_lossless p w p' w'"
proof -
  from assms obtain e w1 w2 where call: "win_call w = Done (e, w1)" and w': "w' = win_errno (w_errno (wn_world w)) w2"
    and rec: "(\<exists>p1 w3 rc. win_rtu_close p w1 = Done (p1, w3) \<and> win_rtu_connect r p1 (win_sleep c w3) = Done (rc, p', w2)) \<or>
      (\<exists>rc. win_rtu_flush p (win_sleep c w1) = Done (rc, p', w2))"
    by (auto simp: win_recover_link_def Let_def split: if_splits elim!: obind_DoneE)
  from rec have "win_lossless p w1 p' w2"
    using win_reopen_lossless [OF _ win_sleep_fds] win_flush_lossless [of p "win_sleep c w1"] by auto
  with win_lossless_call [OF call] show ?thesis by (simp add: w')
qed

lemma win_reconnect_lossless: "win_reconnect r p w = Done (p', w') \<Longrightarrow> win_lossless p w p' w'"
  by (auto simp: win_reconnect_def elim!: obind_DoneE intro: win_reopen_lossless)

lemma win_failed_lossless:
  "win_select_failed c r p w = Done (p', w') \<Longrightarrow> win_lossless p w p' w'"
  "win_recv_failed c r p w = Done (p', w') \<Longrightarrow> win_lossless p w p' w'"
  by (auto simp: win_select_failed_def win_recv_failed_def Let_def split: if_splits elim!: obind_DoneE win_lossless_call
      dest!: win_reconnect_lossless)

lemma win_send_loop_lossless: "win_send_loop c r p msg w = Done (rc, p', w') \<Longrightarrow> win_lossless p w p' w'"
proof (induction c r p msg w rule: win_send_loop.induct)
  case (1 c r p msg w)
  from "1.prems" obtain rc1 w1 where snd: "win_rtu_send p msg w = Done (rc1, w1)"
    by (auto simp: win_send_loop.simps [of c r p msg w] split: outcome.splits)
  have "win_fds w1 = win_fds w" using snd by (auto simp: win_rtu_send_def Let_def split: list.splits tx_event.splits if_splits)
  then have s: "win_lossless p w p w1" by (simp add: win_lossless_same)
  show ?case
  proof (cases "rc1 = -1 \<and> link_recovery c")
    case False
    with "1.prems" snd s show ?thesis by (auto simp: win_send_loop.simps [of c r p msg w])
  next
    case True
    with "1.prems" snd obtain p2 w2 where rec: "win_recover_link c r p w1 = Done (p2, w2)"
        and rest: "win_send_loop c r p2 msg w2 = Done (rc, p', w')"
      by (auto simp: win_send_loop.simps [of c r p msg w] split: outcome.splits)
    from s win_recover_link_lossless [OF rec] "1.IH" [OF snd refl True rec refl rest] show ?thesis
      by (blast intro: win_lossless_trans)
  qed
qed

lemma win_send_msg_lossless: "win_send_msg c r p msg n w = Done (rc, p', msg', w') \<Longrightarrow> win_lossless p w p' w'"
  by (auto simp: win_send_msg_def split: if_splits elim!: obind_DoneE dest!: win_send_loop_lossless)

lemma win_select_held:
  "win_rtu_select p tv n w = Done (rc, p', w') \<Longrightarrow> win_held p' = win_held p \<and> win_fds w' = win_fds w"
  by (auto simp: win_rtu_select_def win32_ser_select_def Let_def split: if_splits elim!: obind_DoneE)

lemma win_recv_held: "win_rtu_recv p msg off n = Done (rc, msg', p') \<Longrightarrow> win_held p' = win_held p"
  by (auto simp: win_rtu_recv_def win32_ser_read_def Let_def split: if_splits elim!: obind_DoneE)

lemma win_receive_turn_lossless:
  assumes turn: "win_receive_turn c r p mt st ltr msg n tv w = Done t"
  shows "case t of Win_return p' msg' w' \<Rightarrow> win_lossless p w p' w' | Win_continue p' st' ltr' msg' n' tv' w' \<Rightarrow> win_lossless p w p' w'"
proof -
  from turn obtain rc1 p1 w1 where sel: "win_rtu_select p tv ltr w = Done (rc1, p1, w1)"
    by (auto simp: win_receive_turn_def elim!: obind_DoneE)
  have s: "win_lossless p w p1 w1" using win_select_held [OF sel] by (simp add: win_lossless_same)
  show ?thesis
  proof (cases "rc1 = -1")
    case True
    with turn sel s show ?thesis
      by (auto simp: win_receive_turn_def elim!: obind_DoneE dest!: win_failed_lossless elim: win_lossless_trans)
  next
    case False
    with turn sel obtain rc2 msg2 p2 where rcv: "win_rtu_recv p1 msg n ltr = Done (rc2, msg2, p2)"
      by (auto simp: win_receive_turn_def elim!: obind_DoneE)
    have "win_lossless p1 w1 p2 w1" using win_recv_held [OF rcv] by (simp add: win_lossless_same)
    from win_lossless_trans [OF s this] have s2: "win_lossless p w p2 w1" .
    from turn sel False rcv s2 show ?thesis
      by (auto simp: win_receive_turn_def Let_def split: if_splits option.splits elim!: obind_DoneE dest!: win_failed_lossless
          elim: win_lossless_trans)
  qed
qed

lemma win_check_integrity_lossless: "win_check_integrity c p msg n w = Done (rc, p', w') \<Longrightarrow> win_lossless p w p' w'"
  by (auto simp: win_check_integrity_def Let_def split: if_splits elim!: obind_DoneE dest!: win_flush_lossless)

lemma win_receive_loop_lossless:
  "win_receive_loop c r p mt st ltr msg n tv w = Done (rc, p', msg', w') \<Longrightarrow> win_lossless p w p' w'"
proof (induction c r p mt st ltr msg n tv w rule: win_receive_loop.induct)
  case (1 c r p mt st ltr msg n tv w)
  show ?case
  proof (cases "ltr = 0")
    case True
    with "1.prems" show ?thesis
      by (auto simp: win_receive_loop.simps [of c r p mt st 0 msg n tv w] elim!: obind_DoneE dest!: win_check_integrity_lossless)
  next
    case False
    with "1.prems" obtain t where turn: "win_receive_turn c r p mt st ltr msg n tv w = Done t"
      by (cases "win_receive_turn c r p mt st ltr msg n tv w") (simp_all add: win_receive_loop.simps [of c r p mt st ltr msg n tv w])
    show ?thesis
    proof (cases t)
      case (Win_return p1 msg1 w1)
      with "1.prems" False turn win_receive_turn_lossless [OF turn] show ?thesis
        by (simp add: win_receive_loop.simps [of c r p mt st ltr msg n tv w])
    next
      case (Win_continue p1 st' ltr' msg1 n' tv' w1)
      with "1.prems" False turn have "win_receive_loop c r p1 mt st' ltr' msg1 n' tv' w1 = Done (rc, p', msg', w')"
        by (simp add: win_receive_loop.simps [of c r p mt st ltr msg n tv w])
      from "1.IH" [OF False turn Win_continue this] win_receive_turn_lossless [OF turn] Win_continue show ?thesis
        by (auto intro: win_lossless_trans)
    qed
  qed
qed

text \<open>Sending and receiving on Windows, with the recoveries on the way, lose no handle.\<close>

theorem windows_loses_no_handle:
  "win_send_msg c r p msg n w = Done (rc, p', msg', w') \<Longrightarrow> win_lossless p w p' w'"
  "win_receive_msg c r p msg mt w = Done (rc, p', msg', w') \<Longrightarrow> win_lossless p w p' w'"
  by (fact win_send_msg_lossless) (auto simp: win_receive_msg_def split: if_splits dest!: win_receive_loop_lossless)

end
