(* ===== verification/Mb_Life.thy ===== *)
theory Mb_Life
  imports Mb_Link
begin

text \<open>
  The whole public interface on one context: configuration, connection, reception, answers and
  client requests, in any order and with any arguments of the documented sizes.
\<close>

section \<open>The calls\<close>

lemma build_request_socket:
  assumes "be_build_request_basis c f addr nb req = Done (n, c', req')"
  shows "mb_s c' = mb_s c"
  using assms
  by (auto simp: be_build_request_basis_def modbus_tcp_build_request_basis_def Let_def case_prod_unfold split: if_splits elim!: obind_DoneE)

text \<open>A request in the context that its construction left, and what the function then does.\<close>

lemma request_lossless:
  assumes "be_build_request_basis c f addr nb req = Done (n, c1, req1)" and "exchange c1 req2 n2 rsp w = Done (rc, c', rsp', w')"
  shows "lossless c w c' w'"
  using lossless_trans [OF lossless_same [OF build_request_socket [OF assms(1)]] exchange_lossless [OF assms(2)]] by simp

lemmas client_defs =
  read_io_status_def read_registers_def modbus_read_bits_def modbus_read_input_bits_def modbus_read_registers_def
  modbus_read_input_registers_def write_single_def modbus_write_bit_def modbus_write_register_def modbus_write_bits_def
  modbus_write_registers_def modbus_mask_write_register_def modbus_write_and_read_registers_def modbus_report_slave_id_def

lemma read_calls_lossless:
  "modbus_read_bits (Some c) addr nb dest req rsp w = Done (rc, c', d', w') \<Longrightarrow> \<exists>c2. c' = Some c2 \<and> lossless c w c2 w'"
  "modbus_read_input_bits (Some c) addr nb dest req rsp w = Done (rc, c', d', w') \<Longrightarrow> \<exists>c2. c' = Some c2 \<and> lossless c w c2 w'"
  "modbus_read_registers (Some c) addr nb regs req rsp w = Done (rc, c', r', w') \<Longrightarrow> \<exists>c2. c' = Some c2 \<and> lossless c w c2 w'"
  "modbus_read_input_registers (Some c) addr nb regs req rsp w = Done (rc, c', r', w') \<Longrightarrow> \<exists>c2. c' = Some c2 \<and> lossless c w c2 w'"
  by (auto simp: client_defs simp del: obind.simps split: option.splits if_splits elim!: obind_DoneE)
     (erule request_lossless, assumption)+

lemma write_calls_lossless:
  "modbus_write_bit (Some c) addr status req rsp w = Done (rc, c', w') \<Longrightarrow> \<exists>c2. c' = Some c2 \<and> lossless c w c2 w'"
  "modbus_write_register (Some c) addr v req rsp w = Done (rc, c', w') \<Longrightarrow> \<exists>c2. c' = Some c2 \<and> lossless c w c2 w'"
  "modbus_write_bits (Some c) addr nb src req rsp w = Done (rc, c', w') \<Longrightarrow> \<exists>c2. c' = Some c2 \<and> lossless c w c2 w'"
  "modbus_write_registers (Some c) addr nb regs req rsp w = Done (rc, c', w') \<Longrightarrow> \<exists>c2. c' = Some c2 \<and> lossless c w c2 w'"
  "modbus_mask_write_register (Some c) addr a o' req rsp w = Done (rc, c', w') \<Longrightarrow> \<exists>c2. c' = Some c2 \<and> lossless c w c2 w'"
  by (auto simp: client_defs Let_def simp del: obind.simps split: option.splits if_splits elim!: obind_DoneE)
     (erule request_lossless, assumption)+

lemma transfer_calls_lossless:
  "modbus_write_and_read_registers (Some c) wa wn src addr nb dest req rsp w = Done (rc, c', d', w') \<Longrightarrow> \<exists>c2. c' = Some c2 \<and> lossless c w c2 w'"
  "modbus_report_slave_id (Some c) max_dest ids req rsp w = Done (rc, c', i', w') \<Longrightarrow> \<exists>c2. c' = Some c2 \<and> lossless c w c2 w'"
  by (auto simp: client_defs simp del: obind.simps split: option.splits if_splits elim!: obind_DoneE)
     (erule request_lossless, assumption)+

lemma receive_calls_lossless:
  "modbus_receive (Some c) msg w = Done (rc, c', msg', w') \<Longrightarrow> \<exists>c2. c' = Some c2 \<and> lossless c w c2 w'"
  "modbus_receive_confirmation (Some c) msg w = Done (rc, c', msg', w') \<Longrightarrow> \<exists>c2. c' = Some c2 \<and> lossless c w c2 w'"
  by (auto simp: modbus_receive_def modbus_receive_confirmation_def elim!: obind_DoneE dest: be_receive_lossless receive_msg_lossless)

lemma send_calls_lossless:
  "modbus_send_raw_request_tid (Some c) raw n tid req w = Done (rc, c', w') \<Longrightarrow> \<exists>c2. c' = Some c2 \<and> lossless c w c2 w'"
  "modbus_reply_exception (Some c) q code rsp w = Done (rc, c', w') \<Longrightarrow> \<exists>c2. c' = Some c2 \<and> lossless c w c2 w'"
  by (auto simp: modbus_send_raw_request_tid_def modbus_reply_exception_def Let_def split: option.splits if_splits
      elim!: obind_DoneE dest!: send_msg_lossless)

lemma accept_lossless:
  assumes "modbus_tcp_accept (Some c) w = Done (s, c', w')" and "mb_s c < 0"
  shows "\<exists>c2. c' = Some c2 \<and> lossless c w c2 w'"
  using tcp_accept_result [of c w s c' w'] assms
  by (auto simp: lossless_iff owns_def quiet_def opened_def)

text \<open>An answer flushes at most, then is sent.\<close>

lemma flushed_fds: "w_fds (flushed c to_flush w) = w_fds w"
  using be_flush_frame [of c "sleep_response_timeout c w"]
  by (cases "be_flush c (sleep_response_timeout c w)") (simp add: flushed_def sleep_response_timeout_def)

lemma reply_lossless:
  assumes wf: "wf_mapping m" "addressable m" and len: "length rsp = 260" and n: "n \<le> int (length q)"
    and r: "modbus_reply (Some c) (Some q) n (Some m) rsp w = Done (rc, c', m', w')"
  shows "\<exists>c2. c' = Some c2 \<and> lossless c w c2 w'"
proof (cases "n < int (header_length c + 1)")
  case True
  with r show ?thesis by (auto simp: modbus_reply_def)
next
  case False
  then obtain k where k: "n = int k" using nonneg_int_cases [of n] by force
  have kn: "header_length c + 1 \<le> k" "k \<le> length q" using False n k by simp_all
  from reply_response_answers [OF wf(1) len kn addressable_start [OF wf(2)], of w] obtain j rsp' m2 w1 where
      resp: "reply_response c q n m rsp w = Done (j, rsp', m2, w1)" and fds: "w_fds w1 = w_fds w"
    unfolding k by (cases "serve_request c q k m") (auto simp: answers_def flushed_fds)
  have "lossless c w c w1" by (rule lossless_same) (simp_all add: fds)
  moreover from r False resp have "c' = Some c \<and> w' = w1 \<or> (\<exists>rc c2 msg. c' = Some c2 \<and> send_msg c rsp' j w1 = Done (rc, c2, msg, w'))"
    by (auto simp: modbus_reply_def split: if_splits elim!: obind_DoneE)
  ultimately show ?thesis using send_msg_lossless lossless_trans by blast
qed

section \<open>Every call of the library\<close>

text \<open>The arrays that a call works on: those of its caller, then the stack frames \<open>req\<close> and \<open>rsp\<close> of the function.\<close>

datatype lib_call =
    Api api_call
  | Accept
  | Receive "byte list"
  | Receive_confirmation "byte list"
  | Reply "byte list" int mapping "byte list"
  | Reply_exception "byte list" u32 "byte list"
  | Send_raw_request "byte list" int int "byte list"
  | Read_bits int int "byte list" "byte list" "byte list"
  | Read_input_bits int int "byte list" "byte list" "byte list"
  | Read_registers int int "u16 list" "byte list" "byte list"
  | Read_input_registers int int "u16 list" "byte list" "byte list"
  | Write_bit int int "byte list" "byte list"
  | Write_register int u16 "byte list" "byte list"
  | Write_bits int int "byte list" "byte list" "byte list"
  | Write_registers int int "u16 list" "byte list" "byte list"
  | Mask_write_register int u16 u16 "byte list" "byte list"
  | Write_and_read_registers int int "u16 list" int int "u16 list" "byte list" "byte list"
  | Report_slave_id int "byte list" "byte list" "byte list"

text \<open>What a function leaves in its arrays is not kept: the next call may be given any.\<close>

abbreviation no_array :: "(int \<times> modbus option \<times> 'a \<times> world) outcome \<Rightarrow> (int \<times> modbus option \<times> world) outcome" where
  "no_array r \<equiv> obind r (\<lambda>(rc, c, a, w). Done (rc, c, w))"

fun run_lib :: "lib_call \<Rightarrow> modbus \<Rightarrow> world \<Rightarrow> (int \<times> modbus option \<times> world) outcome" where
  "run_lib (Api call) c w = run_call call (Some c) w"
| "run_lib Accept c w = modbus_tcp_accept (Some c) w"
| "run_lib (Receive msg) c w = no_array (modbus_receive (Some c) msg w)"
| "run_lib (Receive_confirmation msg) c w = no_array (modbus_receive_confirmation (Some c) msg w)"
| "run_lib (Reply q n m rsp) c w = no_array (modbus_reply (Some c) (Some q) n (Some m) rsp w)"
| "run_lib (Reply_exception q code rsp) c w = modbus_reply_exception (Some c) (Some q) code rsp w"
| "run_lib (Send_raw_request raw n tid req) c w = modbus_send_raw_request_tid (Some c) (Some raw) n tid req w"
| "run_lib (Read_bits addr nb d req rsp) c w = no_array (modbus_read_bits (Some c) addr nb (Some d) req rsp w)"
| "run_lib (Read_input_bits addr nb d req rsp) c w = no_array (modbus_read_input_bits (Some c) addr nb (Some d) req rsp w)"
| "run_lib (Read_registers addr nb d req rsp) c w = no_array (modbus_read_registers (Some c) addr nb (Some d) req rsp w)"
| "run_lib (Read_input_registers addr nb d req rsp) c w = no_array (modbus_read_input_registers (Some c) addr nb (Some d) req rsp w)"
| "run_lib (Write_bit addr status req rsp) c w = modbus_write_bit (Some c) addr status req rsp w"
| "run_lib (Write_register addr v req rsp) c w = modbus_write_register (Some c) addr v req rsp w"
| "run_lib (Write_bits addr nb src req rsp) c w = modbus_write_bits (Some c) addr nb (Some src) req rsp w"
| "run_lib (Write_registers addr nb src req rsp) c w = modbus_write_registers (Some c) addr nb (Some src) req rsp w"
| "run_lib (Mask_write_register addr am om req rsp) c w = modbus_mask_write_register (Some c) addr am om req rsp w"
| "run_lib (Write_and_read_registers wa wn src addr nb d req rsp) c w =
     no_array (modbus_write_and_read_registers (Some c) wa wn (Some src) addr nb (Some d) req rsp w)"
| "run_lib (Report_slave_id n d req rsp) c w = no_array (modbus_report_slave_id (Some c) n (Some d) req rsp w)"

text \<open>The sizes that the functions document for the arrays of their caller, and declare for their own.\<close>

definition frames :: "nat \<Rightarrow> byte list \<Rightarrow> byte list \<Rightarrow> bool" where
  "frames n req rsp \<longleftrightarrow> length req = n \<and> length rsp = 260"

fun sized :: "lib_call \<Rightarrow> bool" where
  "sized (Api call) \<longleftrightarrow> True"
| "sized Accept \<longleftrightarrow> True"
| "sized (Receive msg) \<longleftrightarrow> 260 \<le> length msg"
| "sized (Receive_confirmation msg) \<longleftrightarrow> 260 \<le> length msg"
| "sized (Reply q n m rsp) \<longleftrightarrow> n \<le> int (length q) \<and> wf_mapping m \<and> addressable m \<and> length rsp = 260"
| "sized (Reply_exception q code rsp) \<longleftrightarrow> 8 \<le> length q \<and> length rsp = 260"
| "sized (Send_raw_request raw n tid req) \<longleftrightarrow> n \<le> int (length raw) \<and> length req = 260"
| "sized (Read_bits addr nb d req rsp) \<longleftrightarrow> nat nb \<le> length d \<and> frames 12 req rsp"
| "sized (Read_input_bits addr nb d req rsp) \<longleftrightarrow> nat nb \<le> length d \<and> frames 12 req rsp"
| "sized (Read_registers addr nb d req rsp) \<longleftrightarrow> nat nb \<le> length d \<and> frames 12 req rsp"
| "sized (Read_input_registers addr nb d req rsp) \<longleftrightarrow> nat nb \<le> length d \<and> frames 12 req rsp"
| "sized (Write_bit addr status req rsp) \<longleftrightarrow> frames 12 req rsp"
| "sized (Write_register addr v req rsp) \<longleftrightarrow> frames 12 req rsp"
| "sized (Write_bits addr nb src req rsp) \<longleftrightarrow> nat nb \<le> length src \<and> frames 260 req rsp"
| "sized (Write_registers addr nb src req rsp) \<longleftrightarrow> nat nb \<le> length src \<and> frames 260 req rsp"
| "sized (Mask_write_register addr am om req rsp) \<longleftrightarrow> frames 14 req rsp"
| "sized (Write_and_read_registers wa wn src addr nb d req rsp) \<longleftrightarrow>
     nat wn \<le> length src \<and> nat nb \<le> length d \<and> frames 260 req rsp"
| "sized (Report_slave_id n d req rsp) \<longleftrightarrow> nat n \<le> length d \<and> frames 12 req rsp"

text \<open>A context in use: a valid configuration and, on a serial line, a slave.\<close>

definition in_use :: "modbus \<Rightarrow> bool" where
  "in_use c \<longleftrightarrow> wf_context c \<and> slave_set c"

definition stays :: "modbus \<Rightarrow> (int \<times> modbus option \<times> world) outcome \<Rightarrow> bool" where
  "stays c r \<longleftrightarrow> r \<noteq> Fault \<and>
     (\<forall>rc c' w'. r = Done (rc, c', w') \<longrightarrow> (\<exists>c2. c' = Some c2 \<and> in_use c2 \<and> is_rtu c2 = is_rtu c))"

lemma request_ctx_use: "in_use (request_ctx c) = in_use c"
  by (cases "mb_backend c")
     (simp_all add: in_use_def slave_set_def wf_context_defs request_ctx_def set_backend_t_id_def)

lemma relinked_use: "relinked c c' \<Longrightarrow> in_use c \<Longrightarrow> in_use c' \<and> is_rtu c' = is_rtu c"
  using relinked_wf relinked_same(1,2) by (simp add: in_use_def slave_set_def)

lemma request_use: "relinked (request_ctx c) c' \<Longrightarrow> in_use c \<Longrightarrow> in_use c' \<and> is_rtu c' = is_rtu c"
  using relinked_use [of "request_ctx c" c'] by (simp add: request_ctx_use)

lemma stays_Done [simp]: "stays c (Done (rc, Some c', w')) \<longleftrightarrow> in_use c' \<and> is_rtu c' = is_rtu c"
  by (simp add: stays_def)

lemma call_result_stays: "call_result c ok r \<Longrightarrow> in_use c \<Longrightarrow> stays c r"
  by (fastforce simp: call_result_def stays_def dest: request_use)

lemma array_result_stays: "array_result c ok n d r \<Longrightarrow> in_use c \<Longrightarrow> stays c (no_array r)"
  by (cases r) (auto simp: array_result_def stays_def dest!: request_use)

lemma stays_obind:
  assumes "r \<noteq> Fault" and "\<And>x. r = Done x \<Longrightarrow> stays c (f x)"
  shows "stays c (obind r f)"
  using assms by (cases r) (simp_all add: stays_def)

lemma send_frame_stays: "in_use c \<Longrightarrow> stays c (obind (send_frame c f w) (\<lambda>(rc, c, w). Done (rc, Some c, w)))"
  by (rule stays_obind) (auto dest!: send_frame_result relinked_use)

lemma send_calls_stay:
  assumes use: "in_use c"
  shows "n \<le> int (length raw) \<Longrightarrow> length req = 260 \<Longrightarrow> stays c (modbus_send_raw_request_tid (Some c) (Some raw) n tid req w)"
    and "8 \<le> length q \<Longrightarrow> length rsp = 260 \<Longrightarrow> stays c (modbus_reply_exception (Some c) (Some q) code rsp w)"
proof -
  assume n: "n \<le> int (length raw)" and len: "length req = 260"
  show "stays c (modbus_send_raw_request_tid (Some c) (Some raw) n tid req w)"
  proof (cases "2 \<le> n \<and> n \<le> 254")
    case True
    with n len use send_raw_request_tid_eq [of n raw req c tid w] show ?thesis
      by (simp add: MAX_MESSAGE_LENGTH_def send_frame_stays)
  next
    case False
    then have "modbus_send_raw_request_tid (Some c) (Some raw) n tid req w = Done (-1, Some c, set_errno EINVAL w)"
      by (auto simp: modbus_send_raw_request_tid_def)
    with use show ?thesis by simp
  qed
next
  assume "8 \<le> length q" and len: "length rsp = 260"
  then have q: "header_length c + 1 \<le> length q" using header_checksum_bounds(2) [of c] by linarith
  show "stays c (modbus_reply_exception (Some c) (Some q) code rsp w)"
    using reply_exception_value [OF len q] reply_exception_refused [OF len q] use
    by (cases "uint code < 12") (simp_all add: send_frame_stays)
qed

lemma be_receive_use:
  assumes len: "max_adu_length c \<le> length msg" and r: "be_receive c msg w = Done (rc, c', msg', w')" and use: "in_use c"
  shows "in_use c' \<and> is_rtu c' = is_rtu c"
proof -
  have m: "in_use c1 \<and> is_rtu c1 = is_rtu c" if "modbus_receive_msg c msg mt w = Done (rc1, c1, msg1, w1)" for mt rc1 c1 msg1 w1
    using receive_msg_result [OF len that] relinked_use use by blast
  let ?flag = "\<lambda>v c1. case mb_backend c1 of Rtu r \<Rightarrow> c1\<lparr>mb_backend := Rtu (r\<lparr>rtu_confirmation_to_ignore := v\<rparr>)\<rparr> | _ \<Rightarrow> c1"
  have flag: "in_use (?flag v c1) = in_use c1" "is_rtu (?flag v c1) = is_rtu c1" for v c1
    by (cases "mb_backend c1"; simp add: in_use_def slave_set_def wf_context_defs)+
  show ?thesis
    using r by (cases "mb_backend c")
       (auto simp: be_receive_def modbus_rtu_receive_def modbus_tcp_receive_def Let_def flag
         split: if_splits elim!: obind_DoneE dest!: m)
qed

lemma receive_calls_stay:
  assumes use: "in_use c" and len: "260 \<le> length msg"
  shows "stays c (no_array (modbus_receive (Some c) msg w))" "stays c (no_array (modbus_receive_confirmation (Some c) msg w))"
proof -
  have room: "max_adu_length c \<le> length msg" using len header_checksum_bounds(5) [of c] by linarith
  show "stays c (no_array (modbus_receive (Some c) msg w))"
    using be_receive_not_Fault [OF room] be_receive_use [OF room _ use]
    by (auto simp: modbus_receive_def obind_assoc intro!: stays_obind)
  show "stays c (no_array (modbus_receive_confirmation (Some c) msg w))"
    using receive_msg_not_Fault [OF room] use
    by (auto simp: modbus_receive_confirmation_def obind_assoc intro!: stays_obind dest!: receive_msg_result [OF room] relinked_use)
qed

lemma reply_stays:
  assumes use: "in_use c" and wf: "wf_mapping m" "addressable m" and len: "length rsp = 260" and n: "n \<le> int (length q)"
  shows "stays c (no_array (modbus_reply (Some c) (Some q) n (Some m) rsp w))"
proof (rule stays_obind)
  show "modbus_reply (Some c) (Some q) n (Some m) rsp w \<noteq> Fault" by (rule modbus_reply_not_Fault [OF wf len n])
  fix x
  assume r: "modbus_reply (Some c) (Some q) n (Some m) rsp w = Done x"
  obtain rc c' m' w' where x: "x = (rc, c', m', w')" by (cases x)
  from reply_keeps [OF wf len n r [unfolded x]] relinked_use use x
  show "stays c (case x of (rc, c, a, w) \<Rightarrow> Done (rc, c, w))" by auto
qed

text \<open>A count that is out of range is refused; the others are the calls of \<open>Mb_Calls\<close>.\<close>

lemma read_calls_stay:
  assumes use: "in_use c" and len: "frames 12 req rsp"
  shows "nat nb \<le> length d \<Longrightarrow> stays c (no_array (modbus_read_bits (Some c) addr nb (Some d) req rsp w))"
    and "nat nb \<le> length d \<Longrightarrow> stays c (no_array (modbus_read_input_bits (Some c) addr nb (Some d) req rsp w))"
    and "nat nb \<le> length r \<Longrightarrow> stays c (no_array (modbus_read_registers (Some c) addr nb (Some r) req rsp w))"
    and "nat nb \<le> length r \<Longrightarrow> stays c (no_array (modbus_read_input_registers (Some c) addr nb (Some r) req rsp w))"
    and "nat nb \<le> length d \<Longrightarrow> stays c (no_array (modbus_report_slave_id (Some c) nb (Some d) req rsp w))"
proof -
  have slave: "slave_set c" and l: "length req = 12" "length rsp = 260" using use len by (simp_all add: in_use_def frames_def)
  note ok = array_result_stays [OF _ use]
  show "stays c (no_array (modbus_read_bits (Some c) addr nb (Some d) req rsp w))"
    "stays c (no_array (modbus_read_input_bits (Some c) addr nb (Some d) req rsp w))" if "nat nb \<le> length d"
    using ok [OF modbus_read_bits_result(1) [OF slave l _ _ that]] ok [OF modbus_read_bits_result(2) [OF slave l _ _ that]] use
    by (cases "1 \<le> nb \<and> nb \<le> 2000"; auto simp: modbus_read_bits_def modbus_read_input_bits_def)+
  show "stays c (no_array (modbus_read_registers (Some c) addr nb (Some r) req rsp w))"
    "stays c (no_array (modbus_read_input_registers (Some c) addr nb (Some r) req rsp w))" if "nat nb \<le> length r"
    using ok [OF modbus_read_registers_result(1) [OF slave l _ _ that]] ok [OF modbus_read_registers_result(2) [OF slave l _ _ that]] use
    by (cases "1 \<le> nb \<and> nb \<le> 125"; auto simp: modbus_read_registers_def modbus_read_input_registers_def)+
  show "stays c (no_array (modbus_report_slave_id (Some c) nb (Some d) req rsp w))" if "nat nb \<le> length d"
    using ok [OF modbus_report_slave_id_result [OF slave l _ that]] use
    by (cases "1 \<le> nb"; auto simp: modbus_report_slave_id_def)
qed

lemma write_calls_stay:
  assumes use: "in_use c"
  shows "frames 12 req rsp \<Longrightarrow> stays c (modbus_write_bit (Some c) addr status req rsp w)"
    and "frames 12 req rsp \<Longrightarrow> stays c (modbus_write_register (Some c) addr v req rsp w)"
    and "frames 260 req rsp \<Longrightarrow> nat nb \<le> length src \<Longrightarrow> stays c (modbus_write_bits (Some c) addr nb (Some src) req rsp w)"
    and "frames 260 req rsp \<Longrightarrow> nat nb \<le> length regs \<Longrightarrow> stays c (modbus_write_registers (Some c) addr nb (Some regs) req rsp w)"
    and "frames 14 req rsp \<Longrightarrow> stays c (modbus_mask_write_register (Some c) addr am om req rsp w)"
    and "frames 260 req rsp \<Longrightarrow> nat wn \<le> length regs \<Longrightarrow> nat nb \<le> length d \<Longrightarrow>
      stays c (no_array (modbus_write_and_read_registers (Some c) wa wn (Some regs) addr nb (Some d) req rsp w))"
proof -
  have slave: "slave_set c" using use by (simp add: in_use_def)
  note ok = call_result_stays [OF _ use]
  show "stays c (modbus_write_bit (Some c) addr status req rsp w)" "stays c (modbus_write_register (Some c) addr v req rsp w)"
    if "frames 12 req rsp"
    using ok [OF write_single_result [OF slave]] that by (simp_all add: modbus_write_bit_def modbus_write_register_def frames_def)
  show "stays c (modbus_write_bits (Some c) addr nb (Some src) req rsp w)" if "frames 260 req rsp" "nat nb \<le> length src"
    using ok [OF write_bits_result [OF slave _ _ _ _ that(2)]] that use
    by (cases "1 \<le> nb \<and> nb \<le> 1968") (auto simp: frames_def modbus_write_bits_def)
  show "stays c (modbus_write_registers (Some c) addr nb (Some regs) req rsp w)" if "frames 260 req rsp" "nat nb \<le> length regs"
    using ok [OF write_registers_result [OF slave _ _ _ _ that(2)]] that use
    by (cases "1 \<le> nb \<and> nb \<le> 123") (auto simp: frames_def modbus_write_registers_def)
  show "stays c (modbus_mask_write_register (Some c) addr am om req rsp w)" if "frames 14 req rsp"
    using ok [OF mask_write_result [OF slave]] that by (simp add: frames_def)
  show "stays c (no_array (modbus_write_and_read_registers (Some c) wa wn (Some regs) addr nb (Some d) req rsp w))"
    if "frames 260 req rsp" "nat wn \<le> length regs" "nat nb \<le> length d"
    using array_result_stays [OF modbus_write_and_read_registers_result [OF slave _ _ _ _ _ _ that(2,3)] use] that use
    by (cases "1 \<le> wn \<and> wn \<le> 121 \<and> 1 \<le> nb \<and> nb \<le> 125") (auto simp: frames_def modbus_write_and_read_registers_def)
qed

text \<open>The configuration keeps the slave of a serial line set.\<close>

lemma run_call_slave:
  assumes use: "in_use c" and res: "run_call call (Some c) w = Done (rc, Some c2, w')"
  shows "slave_set c2"
proof -
  have slave: "slave_set c" using use by (simp add: in_use_def)
  show ?thesis
  proof (cases call)
    case (Set_slave s)
    with res slave set_slave_ctx [of c s w] show ?thesis
      by (auto simp: run_call_def modbus_set_slave_def slave_set_def is_rtu_def split: prod.splits)
  next
    case Connect
    with res slave show ?thesis
      by (auto simp: run_call_def modbus_connect_def slave_set_def relinked_same elim!: obind_DoneE dest!: be_connect_result)
  next
    case Close
    with res slave show ?thesis
      by (auto simp: run_call_def modbus_close_def slave_set_def relinked_same elim!: obind_DoneE dest!: be_close_result)
  next
    case Flush
    with res slave show ?thesis by (auto simp: run_call_def split: prod.splits)
  qed (use res slave in \<open>auto simp: run_call_def accessor_defs slave_set_def is_rtu_def modbus_rtu_set_serial_mode_def modbus_rtu_set_rts_def
      modbus_rtu_set_rts_delay_def modbus_rtu_set_custom_rts_def Let_def split: if_splits option.splits backend_data.splits elim!: obind_DoneE\<close>)
qed

lemma run_call_stays: "in_use c \<Longrightarrow> stays c (run_call call (Some c) w)"
  using run_call_slave [of c call w] run_call_keeps [of c call w]
  by (fastforce simp: stays_def in_use_def call_keeps_def)

lemma accept_stays: "in_use c \<Longrightarrow> stays c (modbus_tcp_accept (Some c) w)"
  by (auto simp: modbus_tcp_accept_def Let_def in_use_def slave_set_def is_rtu_def wf_context_fields intro!: stays_obind)

theorem run_lib_stays: "in_use c \<Longrightarrow> sized call \<Longrightarrow> stays c (run_lib call c w)"
  by (cases call) (simp_all add: run_call_stays accept_stays receive_calls_stay reply_stays send_calls_stay read_calls_stay write_calls_stay)

section \<open>Any use of the library\<close>

text \<open>
  What an application may call in a state that forgets no descriptor: arrays of the documented sizes,
  but no call that overwrites the descriptor of the context with another one, as \<open>_modbus_rtu_connect\<close>
  and \<open>modbus_tcp_accept\<close> do with the one they find and \<open>modbus_set_socket\<close> does with any. The
  safety of the calls does not need this: it holds for every sequence of \<open>sized\<close> calls.
\<close>

fun may_call :: "lib_call \<Rightarrow> modbus \<Rightarrow> bool" where
  "may_call (Api Connect) c \<longleftrightarrow> \<not> is_rtu c \<or> mb_s c < 0"
| "may_call (Api (Set_socket s)) c \<longleftrightarrow> False"
| "may_call Accept c \<longleftrightarrow> mb_s c < 0"
| "may_call call c \<longleftrightarrow> sized call"

lemma may_call_sized: "may_call call c \<Longrightarrow> sized call"
  by (cases "(call, c)" rule: may_call.cases) simp_all

lemma run_call_lossless:
  assumes use: "in_use c" and may: "may_call (Api call) c" and res: "run_call call (Some c) w = Done (rc, Some c', w')"
  shows "lossless c w c' w'"
proof (cases "keeps_socket call")
  case True
  with run_call_keeps [OF _ res] use show ?thesis by (auto simp: in_use_def call_keeps_def intro: lossless_same)
next
  case False
  then consider "call = Connect" | "call = Close" using may by (cases call) (auto simp: keeps_socket_def)
  then show ?thesis
  proof cases
    case 1
    with res may connect_owns [of _ c w rc c' w'] show ?thesis
      by (auto simp: run_call_def modbus_connect_def lossless_iff elim!: obind_DoneE)
  next
    case 2
    with res show ?thesis by (auto simp: run_call_def modbus_close_def lossless_def elim!: obind_DoneE dest: posix.close_conserves)
  qed
qed

lemma run_lib_lossless:
  assumes use: "in_use c" and may: "may_call call c" and res: "run_lib call c w = Done (rc, Some c', w')"
  shows "lossless c w c' w'"
proof (cases call)
  case (Api a)
  with run_call_lossless [OF use] may res show ?thesis by simp
qed (use may res in \<open>auto elim!: obind_DoneE dest!: accept_lossless receive_calls_lossless reply_lossless [rotated 4]
    send_calls_lossless read_calls_lossless write_calls_lossless transfer_calls_lossless\<close>)

text \<open>
  The states of a context and the world around it: the application makes the calls that \<open>may\<close>
  permits, and between two calls anything may happen that leaves the descriptors alone. Every call of
  the library is permitted by \<open>any_call\<close>, the ones that keep the descriptors by \<open>may_call\<close>.
\<close>

definition any_call :: "lib_call \<Rightarrow> modbus \<Rightarrow> bool" where
  "any_call call c = sized call"

inductive lib_reach :: "(lib_call \<Rightarrow> modbus \<Rightarrow> bool) \<Rightarrow> modbus \<Rightarrow> world \<Rightarrow> modbus \<Rightarrow> world \<Rightarrow> bool"
  for may :: "lib_call \<Rightarrow> modbus \<Rightarrow> bool" and c :: modbus and w :: world where
  start: "lib_reach may c w c w"
| call: "lib_reach may c w c1 w1 \<Longrightarrow> may call c1 \<Longrightarrow> run_lib call c1 w1 = Done (rc, Some c2, w2) \<Longrightarrow> lib_reach may c w c2 w2"
| outside: "lib_reach may c w c1 w1 \<Longrightarrow> w_fds w2 = w_fds w1 \<Longrightarrow> lib_reach may c w c1 w2"

lemma lib_reach_use: "lib_reach any_call c w c' w' \<Longrightarrow> in_use c \<Longrightarrow> in_use c' \<and> is_rtu c' = is_rtu c"
proof (induction rule: lib_reach.induct)
  case (call c1 w1 call rc c2 w2)
  then have use: "in_use c1" "is_rtu c1 = is_rtu c" "sized call" by (simp_all add: any_call_def)
  from run_lib_stays [OF use(1,3), of w1] call(3) use(2) show ?case by (simp add: stays_def)
qed simp_all

lemma lib_reach_any: "lib_reach may_call c w c' w' \<Longrightarrow> lib_reach any_call c w c' w'"
proof (induction rule: lib_reach.induct)
  case (call c1 w1 call rc c2 w2)
  then have "any_call call c1" by (simp add: any_call_def may_call_sized)
  with call show ?case by (blast intro: lib_reach.call)
qed (blast intro: lib_reach.intros)+

lemma lib_reach_lossless: "lib_reach may_call c w c' w' \<Longrightarrow> in_use c \<Longrightarrow> lossless c w c' w'"
proof (induction rule: lib_reach.induct)
  case (call c1 w1 call rc c2 w2)
  have "in_use c1" using lib_reach_use [OF lib_reach_any [OF call(1)]] call by simp
  from lossless_trans [OF _ run_lib_lossless [OF this call(2,3)]] call show ?case by simp
qed (auto intro: lossless_fds)

end
