(* ===== verification/Mb_Winsock.thy ===== *)
theory Mb_Winsock
  imports Mb_Link
begin

text \<open>
  The sockets of modbus-tcp.c on Windows (the code under \<open>OS_WIN32\<close>): starting the socket API,
  connecting, listening, accepting, waiting and flushing. A failed call of that API does not set
  \<open>errno\<close>; its error is asked for with \<open>WSAGetLastError\<close>, whose answers are scripted like every other
  result. \<open>FD_SETSIZE\<close> is 64 there: it counts the sockets of a set, whatever their numbers are.
\<close>

section \<open>The socket API\<close>

definition WSAEWOULDBLOCK :: int where [simp]: "WSAEWOULDBLOCK = 10035"
definition WSAEINPROGRESS :: int where [simp]: "WSAEINPROGRESS = 10036"
definition EIO :: errno where [simp]: "EIO = EOther 5"

definition wsa_call :: "world \<Rightarrow> (int \<times> world) outcome" where
  "wsa_call w = (case w_calls w of [] \<Rightarrow> Pending | (r, _) # cs \<Rightarrow> Done (r, w\<lparr>w_calls := cs\<rparr>))"

text \<open>\<open>socket\<close> and \<open>accept\<close>: \<open>INVALID_SOCKET\<close> is \<open>-1\<close> in an \<open>int\<close>.\<close>

definition wsa_open :: "world \<Rightarrow> (int \<times> world) outcome" where
  "wsa_open w = obind (wsa_call w) (\<lambda>(r, w). Done (r, if r < 0 then w else w\<lparr>w_fds := r # w_fds w\<rparr>))"

text \<open>\<open>select\<close> with a timeout of zero, then \<open>recv\<close>.\<close>

fun wsa_poll :: "rx_event list \<Rightarrow> int \<times> rx_event list" where
  "wsa_poll [] = (0, [])"
| "wsa_poll (Rx_data [] # es) = wsa_poll es"
| "wsa_poll (Rx_silence # es) = (0, Rx_silence # es)"
| "wsa_poll (Rx_sel_err e # es) = (-1, es)"
| "wsa_poll (ev # es) = (1, ev # es)"

definition wsa_recv :: "nat \<Rightarrow> world \<Rightarrow> int \<times> byte list \<times> world" where
  "wsa_recv n w = (case recv_read n (w_rx w) of (rc, bs, e, es) \<Rightarrow> (rc, bs, w\<lparr>w_rx := es\<rparr>))"

definition modbus_tcp_init_win32 :: "world \<Rightarrow> (int \<times> world) outcome" where
  "modbus_tcp_init_win32 w =
     obind (wsa_call w) (\<lambda>(rc, w). if rc \<noteq> 0 then Done (-1, set_errno EIO w) else Done (0, w))"

section \<open>Client\<close>

text \<open>The socket is made non-blocking with \<open>ioctlsocket\<close>, whose result is not looked at.\<close>

definition win_set_ipv4_options :: "world \<Rightarrow> (int \<times> world) outcome" where
  "win_set_ipv4_options w =
     obind (wsa_call w) (\<lambda>(rc, w).
       if rc = -1 then Done (-1, w) else obind (wsa_call w) (\<lambda>(_, w). Done (0, w)))"

definition win_connect :: "int \<Rightarrow> timeval \<Rightarrow> world \<Rightarrow> (int \<times> world) outcome" where
  "win_connect sockfd ro_tv w =
     obind (wsa_call w) (\<lambda>(rc, w).
     obind (if rc = -1 then wsa_call w else Done (0, w)) (\<lambda>(wsaError, w).
       if wsaError = WSAEWOULDBLOCK \<or> wsaError = WSAEINPROGRESS then
         if sockfd \<ge> WIN_FD_SETSIZE then Done (fail_errno EINVAL w)
         else obind (wsa_call (w\<lparr>w_armed := w_armed w @ [Some ro_tv]\<rparr>)) (\<lambda>(rc, w).
           if rc < 0 then Done (-1, w)
           else if rc = 0 then Done (fail_errno ETIMEDOUT w)
           else obind (wsa_call w) (\<lambda>(rc, w). obind (wsa_call w) (\<lambda>(optval, w).
             if rc = 0 \<and> optval = 0 then Done (0, w) else Done (fail_errno ECONNREFUSED w))))
       else Done (rc, w)))"

definition win_tcp_connect :: "modbus \<Rightarrow> world \<Rightarrow> (int \<times> modbus \<times> world) outcome" where
  "win_tcp_connect ctx w =
     obind (modbus_tcp_init_win32 w) (\<lambda>(rc, w).
     if rc = -1 then Done (-1, ctx, w)
     else obind (wsa_open w) (\<lambda>(s, w).
     if s < 0 then Done (-1, ctx, w)
     else if s \<ge> WIN_FD_SETSIZE then Done (-1, ctx, set_errno EINVAL (sys_close s w))
     else obind (win_set_ipv4_options w) (\<lambda>(rc, w).
     if rc = -1 then Done (-1, ctx, sys_close s w)
     else obind (wsa_call w) (\<lambda>(rc, w).
     if rc \<le> 0 then Done (-1, ctx, sys_close s w)
     else obind (win_connect s (mb_response_timeout ctx) w) (\<lambda>(rc, w).
     if rc = -1 then Done (-1, ctx, sys_close s w)
     else (case replace_socket ctx s w of (ctx, w) \<Rightarrow> Done (0, ctx, w)))))))"

fun win_pi_connect_list :: "modbus \<Rightarrow> bool list \<Rightarrow> world \<Rightarrow> (int \<times> world) outcome" where
  "win_pi_connect_list ctx [] w = Done (-1, w)"
| "win_pi_connect_list ctx (inet # ai_next) w =
     obind (wsa_open w) (\<lambda>(s, w).
       if s < 0 then win_pi_connect_list ctx ai_next w
       else if s \<ge> WIN_FD_SETSIZE then win_pi_connect_list ctx ai_next (sys_close s w)
       else obind (if inet then obind (win_set_ipv4_options w) (\<lambda>(_, w). Done w) else Done w) (\<lambda>w.
       obind (win_connect s (mb_response_timeout ctx) w) (\<lambda>(rc, w).
         if rc = -1 then win_pi_connect_list ctx ai_next (sys_close s w) else Done (s, w))))"

definition win_tcp_pi_connect :: "modbus \<Rightarrow> world \<Rightarrow> (int \<times> modbus \<times> world) outcome" where
  "win_tcp_pi_connect ctx w =
     obind (modbus_tcp_init_win32 w) (\<lambda>(rc, w).
     if rc = -1 then Done (-1, ctx, w)
     else obind (wsa_call w) (\<lambda>(rc, w).
       if rc \<noteq> 0 then Done (-1, ctx, set_errno ECONNREFUSED w)
       else obind (win_pi_connect_list ctx (w_addrs w) w) (\<lambda>(new_s, w).
         if new_s < 0 then Done (-1, ctx, w)
         else (case replace_socket ctx new_s w of (ctx, w) \<Rightarrow> Done (0, ctx, w)))))"

definition win_tcp_close :: "modbus \<Rightarrow> world \<Rightarrow> (modbus \<times> world) outcome" where
  "win_tcp_close ctx w =
     (if mb_s ctx \<ge> 0 then
        obind (wsa_call w) (\<lambda>(_, w). Done (ctx\<lparr>mb_s := -1\<rparr>, sys_close (mb_s ctx) w))
      else Done (ctx, w))"

section \<open>Server\<close>

definition win_tcp_listen :: "modbus option \<Rightarrow> int \<Rightarrow> world \<Rightarrow> (int \<times> world) outcome" where
  "win_tcp_listen ctx nb_connection w =
     (case ctx of None \<Rightarrow> Done (fail_errno EINVAL w) | Some c \<Rightarrow>
     (case mb_backend c of Rtu _ \<Rightarrow> Fault | TcpPi _ \<Rightarrow> Fault | Tcp ctx_tcp \<Rightarrow>
      obind (modbus_tcp_init_win32 w) (\<lambda>(rc, w).
      if rc = -1 then Done (-1, w)
      else obind (wsa_open w) (\<lambda>(new_s, w).
      if new_s = -1 then Done (-1, w)
      else obind (wsa_call w) (\<lambda>(rc, w).
      if rc = -1 then close_fail new_s w
      else obind (if tcp_ip ctx_tcp \<noteq> [] \<and> hd (tcp_ip ctx_tcp) = CHR ''0'' then Done (1, w) else wsa_call w) (\<lambda>(rc, w).
      if rc \<le> 0 then close_fail new_s w
      else obind (wsa_call w) (\<lambda>(rc, w).
      if rc = -1 then close_fail new_s w
      else obind (wsa_call w) (\<lambda>(rc, w).
      if rc = -1 then close_fail new_s w else Done (new_s, w)))))))))"

fun win_pi_listen_list :: "bool list \<Rightarrow> world \<Rightarrow> (int \<times> world) outcome" where
  "win_pi_listen_list [] w = Done (-1, w)"
| "win_pi_listen_list (inet # ai_next) w =
     obind (wsa_open w) (\<lambda>(s, w).
       if s < 0 then win_pi_listen_list ai_next w
       else obind (wsa_call w) (\<lambda>(rc, w).
       if rc \<noteq> 0 then win_pi_listen_list ai_next (sys_close s w)
       else obind (wsa_call w) (\<lambda>(rc, w).
       if rc \<noteq> 0 then win_pi_listen_list ai_next (sys_close s w)
       else obind (wsa_call w) (\<lambda>(rc, w).
       if rc \<noteq> 0 then win_pi_listen_list ai_next (sys_close s w)
       else Done (s, w)))))"

definition win_tcp_pi_listen :: "modbus option \<Rightarrow> int \<Rightarrow> world \<Rightarrow> (int \<times> world) outcome" where
  "win_tcp_pi_listen ctx nb_connection w =
     (case ctx of None \<Rightarrow> Done (fail_errno EINVAL w) | Some c \<Rightarrow>
     (case mb_backend c of Rtu _ \<Rightarrow> Fault | Tcp _ \<Rightarrow> Fault | TcpPi ctx_tcp_pi \<Rightarrow>
      obind (modbus_tcp_init_win32 w) (\<lambda>(rc, w).
      if rc = -1 then Done (-1, w)
      else obind (wsa_call w) (\<lambda>(rc, w).
        if rc \<noteq> 0 then Done (fail_errno ECONNREFUSED w)
        else obind (win_pi_listen_list (w_addrs w) w) (\<lambda>(new_s, w).
          if new_s < 0 then Done (-1, w) else Done (new_s, w))))))"

text \<open>\<open>modbus_tcp_accept\<close> and \<open>modbus_tcp_pi_accept\<close>, which differ in the type of the address only.\<close>

definition win_tcp_accept :: "modbus option \<Rightarrow> world \<Rightarrow> (int \<times> modbus option \<times> world) outcome" where
  "win_tcp_accept ctx w =
     (case ctx of None \<Rightarrow> Done (-1, None, set_errno EINVAL w) | Some c \<Rightarrow>
      obind (wsa_open w) (\<lambda>(s, w).
        let c = c\<lparr>mb_s := s\<rparr> in
        if mb_s c < 0 then Done (-1, Some c, w)
        else if mb_s c \<ge> WIN_FD_SETSIZE then Done (-1, Some (c\<lparr>mb_s := -1\<rparr>), set_errno EINVAL (sys_close (mb_s c) w))
        else Done (mb_s c, Some c, w)))"

section \<open>Flush\<close>

text \<open>Without a read that does not wait: \<open>select\<close> says whether there is something to read.\<close>

lemma wsa_poll_rx_bytes: "wsa_poll es = (rc, es') \<Longrightarrow> rx_bytes es' = rx_bytes es"
  by (induction es rule: wsa_poll.induct) auto

lemma wsa_recv_takes:
  "wsa_recv n w = (rc, bs, w') \<Longrightarrow>
   rx_bytes (w_rx w) = length bs + rx_bytes (w_rx w') \<and> (rc = -1 \<and> bs = [] \<or> rc = int (length bs)) \<and> length bs \<le> n"
  by (auto simp: wsa_recv_def split: prod.splits dest: recv_read_rx_bytes recv_read_count recv_read_length)

definition win_flush_read :: "world \<Rightarrow> int option \<times> world" where
  "win_flush_read w =
     (case wsa_poll (w_rx w) of (rc, es) \<Rightarrow>
        let w = w\<lparr>w_rx := es, w_armed := w_armed w @ [Some \<lparr>tv_sec = 0, tv_usec = 0\<rparr>]\<rparr> in
        if rc = -1 then (None, w)
        else if rc = 1 then (case wsa_recv MODBUS_TCP_MAX_ADU_LENGTH w of (rc, devnull, w) \<Rightarrow> (Some rc, w))
        else (Some rc, w))"

lemma wsa_poll_result: "wsa_poll es = (rc, es') \<Longrightarrow> rc = -1 \<or> rc = 0 \<or> rc = 1"
  by (induction es rule: wsa_poll.induct) auto

lemma win_flush_read_takes:
  assumes "win_flush_read w = (Some rc, w')"
  shows "int (rx_bytes (w_rx w)) = max rc 0 + int (rx_bytes (w_rx w')) \<and> -1 \<le> rc \<and> rc \<le> 260"
proof -
  obtain p es where poll: "wsa_poll (w_rx w) = (p, es)" by (cases "wsa_poll (w_rx w)")
  note bytes = wsa_poll_rx_bytes [OF poll]
  let ?w = "w\<lparr>w_rx := es, w_armed := w_armed w @ [Some \<lparr>tv_sec = 0, tv_usec = 0\<rparr>]\<rparr>"
  obtain n bs w1 where recv: "wsa_recv MODBUS_TCP_MAX_ADU_LENGTH ?w = (n, bs, w1)" by (cases "wsa_recv MODBUS_TCP_MAX_ADU_LENGTH ?w") auto
  from wsa_recv_takes [OF recv] wsa_poll_result [OF poll] assms poll bytes recv show ?thesis
    by (auto simp: win_flush_read_def Let_def split: if_splits)
qed

function win_flush_loop :: "int \<Rightarrow> u16 \<Rightarrow> world \<Rightarrow> int \<times> world" where
  "win_flush_loop s rc_sum w =
     (if s < 0 \<or> s \<ge> WIN_FD_SETSIZE then fail_errno EINVAL w
      else case win_flush_read w of
        (None, w') \<Rightarrow> (-1, w')
      | (Some rc, w') \<Rightarrow>
          if rc > 0 \<and> \<not> uint rc_sum \<le> 65535 - rc then fail_errno EOVERFLOW w'
          else
            let rc_sum = (if rc > 0 then word_of_int (uint rc_sum + rc) else rc_sum) in
            if rc = int MODBUS_TCP_MAX_ADU_LENGTH then win_flush_loop s rc_sum w' else (uint rc_sum, w'))"
  by pat_completeness auto
termination
proof (relation "measure (\<lambda>(s, r, w). rx_bytes (w_rx w))", goal_cases)
  case 1
  then show ?case by simp
next
  case (2 s rc_sum w x y z)
  then show ?case by (auto dest!: win_flush_read_takes [OF sym])
qed

declare win_flush_loop.simps [simp del]

definition win_tcp_flush :: "modbus \<Rightarrow> world \<Rightarrow> int \<times> world" where
  "win_tcp_flush ctx w = win_flush_loop (mb_s ctx) 0 w"

text \<open>On a socket whose \<open>select\<close> does not fail, the flush is the one of the other platforms.\<close>

definition same_line :: "world \<Rightarrow> world \<Rightarrow> bool" where
  "same_line w v \<longleftrightarrow> w_rx w = w_rx v \<and> w_sent w = w_sent v \<and> w_fds w = w_fds v \<and> w_tx w = w_tx v"

definition selectable :: "rx_event list \<Rightarrow> bool" where
  "selectable es \<longleftrightarrow> (\<forall>e. Rx_sel_err e \<notin> set es)"

lemma poll_recv:
  "selectable es \<Longrightarrow> recv_read n es = (rc, bs, e, es') \<Longrightarrow>
   selectable es' \<and> (\<exists>es1. wsa_poll es = (1, es1) \<and> recv_read n es1 = (rc, bs, e, es') \<or> rc = -1 \<and> wsa_poll es = (0, es'))"
  by (induction n es rule: recv_read.induct) (auto simp: selectable_def split: if_splits)

lemma flush_read_agrees:
  assumes "same_line w v" and "selectable (w_rx w)" and "0 \<le> s" and recv: "sys_recv s MODBUS_TCP_MAX_ADU_LENGTH v = (rc, bs, v')"
  shows "\<exists>rc' w'. win_flush_read w = (Some rc', w') \<and> same_line w' v' \<and> selectable (w_rx w') \<and> (rc' = rc \<or> rc \<le> 0 \<and> rc' \<le> 0)"
proof -
  obtain e es' where read: "recv_read MODBUS_TCP_MAX_ADU_LENGTH (w_rx v) = (rc, bs, e, es')"
    using recv assms(3) by (auto simp: sys_recv_def split: prod.splits)
  with recv assms(3) have v': "v' = v\<lparr>w_rx := es', w_errno := (case e of None \<Rightarrow> w_errno v | Some e \<Rightarrow> e)\<rparr>"
    by (simp add: sys_recv_def)
  from assms(1) have rx: "w_rx w = w_rx v" by (simp add: same_line_def)
  from poll_recv [OF assms(2) [unfolded rx] read] obtain es1 where "selectable es'"
    and "wsa_poll (w_rx v) = (1, es1) \<and> recv_read MODBUS_TCP_MAX_ADU_LENGTH es1 = (rc, bs, e, es') \<or> rc = -1 \<and> wsa_poll (w_rx v) = (0, es')"
    by blast
  then show ?thesis
    using assms(1) by (auto simp: win_flush_read_def rx v' wsa_recv_def same_line_def Let_def)
qed

lemma flush_loop_agrees:
  "tcp_flush_loop s r v = (rc, v') \<Longrightarrow> same_line w v \<Longrightarrow> selectable (w_rx w) \<Longrightarrow> 0 \<le> s \<Longrightarrow> s < WIN_FD_SETSIZE \<Longrightarrow>
   \<exists>w'. win_flush_loop s r w = (rc, w') \<and> same_line w' v'"
proof (induction s r v arbitrary: w rule: tcp_flush_loop.induct)
  case (1 s r v)
  obtain n bs v1 where recv: "sys_recv s MODBUS_TCP_MAX_ADU_LENGTH v = (n, bs, v1)"
    by (cases "sys_recv s MODBUS_TCP_MAX_ADU_LENGTH v") auto
  from flush_read_agrees [OF "1.prems"(2,3,4) recv] obtain n' w1 where read: "win_flush_read w = (Some n', w1)"
    and same: "same_line w1 v1" "selectable (w_rx w1)" and n': "n' = n \<or> n \<le> 0 \<and> n' \<le> 0" by blast
  let ?sum = "if n > 0 then word_of_int (uint r + n) else r"
  note posix = "1.prems"(1) [unfolded tcp_flush_loop.simps [of s r v] recv prod.case Let_def]
  note win = win_flush_loop.simps [of s r w, unfolded read prod.case option.case Let_def]
  show ?case
  proof (cases "n \<le> 0")
    case True
    with posix n' have "rc = uint r" "v' = v1" "n' \<le> 0" by (auto split: if_splits)
    with win same "1.prems"(4,5) show ?thesis by auto
  next
    case False
    with n' have eq: "n' = n" by simp
    show ?thesis
    proof (cases "uint r \<le> 65535 - n \<and> n = int MODBUS_TCP_MAX_ADU_LENGTH")
      case True
      with posix False have "tcp_flush_loop s ?sum v1 = (rc, v')" by simp
      from "1.IH" [OF recv [symmetric] refl _ refl _ this same "1.prems"(4,5)] True False win eq "1.prems"(4,5)
      show ?thesis by auto
    next
      case stop: False
      with posix False win eq same "1.prems"(4,5) show ?thesis
        by (auto simp: same_line_def split: if_splits)
    qed
  qed
qed

lemma win_flush_agrees:
  assumes "0 \<le> mb_s c" and "mb_s c < WIN_FD_SETSIZE" and "selectable (w_rx w)"
  shows "fst (win_tcp_flush c w) = fst (modbus_tcp_flush c w) \<and> same_line (snd (win_tcp_flush c w)) (snd (modbus_tcp_flush c w))"
proof -
  obtain rc v' where "tcp_flush_loop (mb_s c) 0 w = (rc, v')" by (cases "tcp_flush_loop (mb_s c) 0 w")
  from flush_loop_agrees [OF this _ assms(3,1,2)] this show ?thesis
    by (auto simp: win_tcp_flush_def modbus_tcp_flush_def same_line_def)
qed

section \<open>No socket is lost\<close>

definition quiet_call :: "(world \<Rightarrow> (int \<times> world) outcome) \<Rightarrow> bool" where
  "quiet_call e \<longleftrightarrow> (\<forall>w r w'. e w = Done (r, w') \<longrightarrow> quiet w w')"

lemma quiet_call_quiet: "quiet_call e \<Longrightarrow> e w = Done (r, w') \<Longrightarrow> quiet w w'"
  by (simp add: quiet_call_def)

lemma wsa_call_quiet: "quiet_call wsa_call"
  by (auto simp: quiet_call_def wsa_call_def quiet_def split: list.splits)

lemma wsa_call_frame: "wsa_call w = Done (r, w') \<Longrightarrow> quiet w w'"
  by (rule quiet_call_quiet [OF wsa_call_quiet])

lemma wsa_open_opened: "wsa_open w = Done (s, w') \<Longrightarrow> opened s w w'"
  by (auto simp: wsa_open_def opened_def quiet_def elim!: obind_DoneE dest!: wsa_call_frame)

lemma init_win32_quiet: "quiet_call modbus_tcp_init_win32"
  by (auto simp: quiet_call_def modbus_tcp_init_win32_def split: if_splits elim!: obind_DoneE dest!: wsa_call_frame)

lemma win_set_ipv4_quiet: "quiet_call win_set_ipv4_options"
  by (auto simp: quiet_call_def win_set_ipv4_options_def split: if_splits elim!: obind_DoneE dest!: wsa_call_frame) (simp_all add: quiet_def)

lemma win_connect_quiet: "quiet_call (win_connect s tv)"
  by (auto simp: quiet_call_def win_connect_def split: if_splits elim!: obind_DoneE dest!: wsa_call_frame) (simp_all add: quiet_def)

text \<open>A call on a new socket, whose failure closes it.\<close>

lemma closing_guard:
  assumes "obind (e w1) (\<lambda>(rc, w). if P rc then Done (-1, ctx, sys_close s w) else f w) = Done (rc, ctx', w')"
    and "quiet_call e" and "opened s w w1" and "0 \<le> s"
  shows "rc = -1 \<and> ctx' = ctx \<and> quiet w w' \<or> (\<exists>w2. opened s w w2 \<and> f w2 = Done (rc, ctx', w'))"
proof -
  from assms(1) obtain r w2 where e: "e w1 = Done (r, w2)"
    and rest: "(if P r then Done (-1, ctx, sys_close s w2) else f w2) = Done (rc, ctx', w')" by (auto elim!: obind_DoneE)
  note o = opened_quiet [OF assms(3) quiet_call_quiet [OF assms(2) e]]
  from rest o opened_closed [OF o assms(4)] show ?thesis by (cases "P r") auto
qed

definition win_connected :: "modbus \<Rightarrow> world \<Rightarrow> int \<Rightarrow> modbus \<Rightarrow> world \<Rightarrow> bool" where
  "win_connected c w rc c' w' \<longleftrightarrow>
     rc = -1 \<and> c' = c \<and> quiet w w' \<or>
     (\<exists>s w1. rc = 0 \<and> 0 \<le> s \<and> s < WIN_FD_SETSIZE \<and> opened s w w1 \<and> replace_socket c s w1 = (c', w'))"

lemma win_tcp_connect_result:
  assumes "win_tcp_connect c w = Done (rc, c', w')"
  shows "win_connected c w rc c' w'"
proof -
  from assms obtain r w1 where init: "modbus_tcp_init_win32 w = Done (r, w1)"
    by (auto simp: win_tcp_connect_def elim!: obind_DoneE)
  note q = quiet_call_quiet [OF init_win32_quiet init]
  show ?thesis
  proof (cases "r = -1")
    case True
    with assms init q show ?thesis by (simp add: win_tcp_connect_def win_connected_def)
  next
    case False
    with assms init obtain s w2 where op: "wsa_open w1 = Done (s, w2)" by (auto simp: win_tcp_connect_def elim!: obind_DoneE)
    note o = quiet_opened [OF q wsa_open_opened [OF op]]
    show ?thesis
    proof (cases "0 \<le> s \<and> s < WIN_FD_SETSIZE")
      case out: False
      with assms init False op o opened_closed [OF o] show ?thesis
        by (auto simp: win_tcp_connect_def win_connected_def opened_neg split: if_splits)
    next
      case s: True
      then have pos: "0 \<le> s" by simp
      let ?f3 = "\<lambda>w. case replace_socket c s w of (ctx, w) \<Rightarrow> Done (0 :: int, ctx, w)"
      let ?f2 = "\<lambda>w. obind (win_connect s (mb_response_timeout c) w) (\<lambda>(rc, w). if rc = -1 then Done (-1, c, sys_close s w) else ?f3 w)"
      let ?f1 = "\<lambda>w. obind (wsa_call w) (\<lambda>(rc, w). if rc \<le> 0 then Done (-1, c, sys_close s w) else ?f2 w)"
      note guard = closing_guard [where s = s and ctx = c and w = w and rc = rc and ctx' = c' and w' = w', OF _ _ _ pos]
      from assms init False op s have "obind (win_set_ipv4_options w2) (\<lambda>(rc, w). if rc = -1 then Done (-1, c, sys_close s w)
          else ?f1 w) = Done (rc, c', w')" by (simp add: win_tcp_connect_def)
      from guard [where e = win_set_ipv4_options and f = ?f1, OF this win_set_ipv4_quiet o]
      consider "rc = -1 \<and> c' = c \<and> quiet w w'" | w3 where "opened s w w3" "?f1 w3 = Done (rc, c', w')" by blast
      then show ?thesis
      proof cases
        case 2
        from guard [where e = wsa_call and f = ?f2, OF 2(2) wsa_call_quiet 2(1)]
        consider "rc = -1 \<and> c' = c \<and> quiet w w'" | w4 where "opened s w w4" "?f2 w4 = Done (rc, c', w')" by blast
        then show ?thesis
        proof cases
          case 2
          from guard [where e = "win_connect s (mb_response_timeout c)" and f = ?f3, OF 2(2) win_connect_quiet 2(1)] s
          show ?thesis by (auto simp: win_connected_def split: prod.splits)
        qed (simp add: win_connected_def)
      qed (simp add: win_connected_def)
    qed
  qed
qed

lemma win_pi_connect_list_result:
  "win_pi_connect_list c ais w = Done (s, w') \<Longrightarrow> (s < 0 \<longrightarrow> s = -1) \<and> s < WIN_FD_SETSIZE \<and> opened s w w'"
proof (induction c ais w arbitrary: s w' rule: win_pi_connect_list.induct)
  case (1 c w)
  then show ?case by (simp add: opened_neg)
next
  case (2 c inet ais w)
  from "2.prems" obtain s1 w1 where op: "wsa_open w = Done (s1, w1)" by (auto elim!: obind_DoneE)
  note o = wsa_open_opened [OF op]
  show ?case
  proof (cases "s1 < 0 \<or> s1 \<ge> WIN_FD_SETSIZE")
    case True
    with "2.prems" op o opened_closed [OF o] "2.IH"(1,2) [OF op refl] show ?thesis
      by (auto simp: opened_neg intro: quiet_opened)
  next
    case False
    with "2.prems" op obtain w2 where opt:
        "(if inet then obind (win_set_ipv4_options w1) (\<lambda>(_, w). Done w) else Done w1) = Done w2"
      by (auto simp del: obind.simps elim!: obind_DoneE)
    then have "quiet w1 w2" by (auto split: if_splits elim!: obind_DoneE dest: quiet_call_quiet [OF win_set_ipv4_quiet])
    note o2 = opened_quiet [OF o this]
    from False "2.prems" op opt obtain r3 w3 where co: "win_connect s1 (mb_response_timeout c) w2 = Done (r3, w3)"
      by (auto elim!: obind_DoneE)
    note o3 = opened_quiet [OF o2 quiet_call_quiet [OF win_connect_quiet co]]
    from False "2.prems" op opt co o3 opened_closed [OF o3] "2.IH"(3) [OF op refl _ _ opt co refl] show ?thesis
      by (auto split: if_splits intro: quiet_opened)
  qed
qed

lemma win_tcp_pi_connect_result:
  assumes "win_tcp_pi_connect c w = Done (rc, c', w')"
  shows "win_connected c w rc c' w'"
proof -
  from assms obtain r w1 where init: "modbus_tcp_init_win32 w = Done (r, w1)"
    by (auto simp: win_tcp_pi_connect_def elim!: obind_DoneE)
  note q = quiet_call_quiet [OF init_win32_quiet init]
  show ?thesis
  proof (cases "r = -1")
    case True
    with assms init q show ?thesis by (simp add: win_tcp_pi_connect_def win_connected_def)
  next
    case False
    with assms init obtain g w2 where gai: "wsa_call w1 = Done (g, w2)" by (auto simp: win_tcp_pi_connect_def elim!: obind_DoneE)
    note q2 = quiet_trans [OF q wsa_call_frame [OF gai]]
    show ?thesis
    proof (cases "g = 0")
      case fail: False
      with False assms init gai q2 show ?thesis by (auto simp: win_tcp_pi_connect_def win_connected_def)
    next
      case True
      with False assms init gai obtain s w3 where li: "win_pi_connect_list c (w_addrs w2) w2 = Done (s, w3)"
        by (auto simp: win_tcp_pi_connect_def elim!: obind_DoneE)
      from win_pi_connect_list_result [OF li] have o: "opened s w w3" "s < WIN_FD_SETSIZE" using quiet_opened [OF q2] by auto
      with True False assms init gai li show ?thesis
        by (cases "s < 0") (auto simp: win_tcp_pi_connect_def win_connected_def opened_neg split: prod.splits intro!: exI [of _ s])
    qed
  qed
qed

text \<open>Both kinds of TCP contexts have the contract of a line.\<close>

definition win_line_connect :: "modbus \<Rightarrow> world \<Rightarrow> (int \<times> modbus \<times> world) outcome" where
  "win_line_connect c w = (case mb_backend c of Rtu r \<Rightarrow> Fault | Tcp t \<Rightarrow> win_tcp_connect c w | TcpPi t \<Rightarrow> win_tcp_pi_connect c w)"

lemma win_line_connect_result: "win_line_connect c w = Done (rc, c', w') \<Longrightarrow> win_connected c w rc c' w'"
  by (auto simp: win_line_connect_def split: backend_data.splits dest: win_tcp_connect_result win_tcp_pi_connect_result)

lemma win_connected_owns: "win_connected c w rc c' w' \<Longrightarrow> owns others c w \<Longrightarrow> owns others c' w'"
  using replace_socket_owns [of others c w] by (auto simp: win_connected_def owns_def quiet_def)

lemma win_tcp_close_result:
  "win_tcp_close c w = Done (c', w') \<Longrightarrow> mb_s c' < 0 \<and> w_fds w' = (if mb_s c < 0 then w_fds w else remove1 (mb_s c) (w_fds w))"
  by (auto simp: win_tcp_close_def quiet_def split: if_splits elim!: obind_DoneE dest!: wsa_call_frame)

interpretation winsock: link win_line_connect win_tcp_close held w_fds
proof
  show "conserved (held c) (w_fds w) (held c') (w_fds w')" if "win_line_connect c w = Done (rc, c', w')" for c w rc c' w'
    using win_connected_owns [OF win_line_connect_result [OF that]] by (simp add: conserved_def owns_tracked)
  show "conserved (held c) (w_fds w) (held c') (w_fds w')" if "win_tcp_close c w = Done (c', w')" for c w c' w'
    using win_tcp_close_result [OF that] conserved_closed [of "mb_s c" "w_fds w"] by (auto simp: held_def)
  show "held c' = None" if "win_tcp_close c w = Done (c', w')" for c w c' w'
    using win_tcp_close_result [OF that] by (simp add: held_def)
qed

text \<open>Listening and accepting.\<close>

lemma wsa_guardE:
  assumes "obind (wsa_call w1) (\<lambda>(rc, w). if P rc then g w else f w) = Done r"
  obtains (failed) w2 where "quiet w1 w2" "g w2 = Done r" | (passed) w2 where "quiet w1 w2" "f w2 = Done r"
  using assms wsa_call_frame by (fastforce elim!: obind_DoneE split: if_splits)

lemma win_pi_listen_list_result:
  "win_pi_listen_list ais w = Done (s, w') \<Longrightarrow> (s < 0 \<longrightarrow> s = -1) \<and> opened s w w'"
proof (induction ais arbitrary: w)
  case Nil
  then show ?case by (simp add: opened_neg)
next
  case (Cons inet ais)
  from Cons.prems obtain s1 w1 where op: "wsa_open w = Done (s1, w1)" by (auto elim!: obind_DoneE)
  note o = wsa_open_opened [OF op]
  have next_address: "(s < 0 \<longrightarrow> s = -1) \<and> opened s w w'" if "quiet w w2" "win_pi_listen_list ais w2 = Done (s, w')" for w2
    using Cons.IH [OF that(2)] quiet_opened [OF that(1)] by blast
  show ?case
  proof (cases "s1 < 0")
    case True
    with Cons.prems op o next_address [of w1] show ?thesis by (simp add: opened_neg)
  next
    case False
    note closed = next_address [OF quiet_closed [OF o]]
    from False Cons.prems op have "obind (wsa_call w1) (\<lambda>(rc, w). if rc \<noteq> 0 then win_pi_listen_list ais (sys_close s1 w)
        else obind (wsa_call w) (\<lambda>(rc, w). if rc \<noteq> 0 then win_pi_listen_list ais (sys_close s1 w)
        else obind (wsa_call w) (\<lambda>(rc, w). if rc \<noteq> 0 then win_pi_listen_list ais (sys_close s1 w)
        else Done (s1, w)))) = Done (s, w')" by simp
    then show ?thesis
      by (elim wsa_guardE) (use False closed opened_quiet [OF o] in \<open>force dest: quiet_trans\<close>)+
  qed
qed

lemma wsa_open_posix: "posix_results w \<Longrightarrow> wsa_open w = Done (s, w') \<Longrightarrow> -1 \<le> s"
  by (auto simp: posix_results_def wsa_open_def wsa_call_def elim!: obind_DoneE split: list.splits)

lemma init_win32_posix: "posix_results w \<Longrightarrow> modbus_tcp_init_win32 w = Done (rc, w') \<Longrightarrow> posix_results w'"
  by (fastforce simp: posix_results_def modbus_tcp_init_win32_def wsa_call_def elim!: obind_DoneE split: list.splits if_splits)

lemma win_tcp_listen_result:
  assumes res: "win_tcp_listen (Some c) nb w = Done (s, w')" and posix: "posix_results w" and tcp: "mb_backend c = Tcp t"
  shows "s = -1 \<and> quiet w w' \<or> 0 \<le> s \<and> opened s w w'"
proof -
  from res tcp obtain r w0 where init: "modbus_tcp_init_win32 w = Done (r, w0)"
    by (auto simp: win_tcp_listen_def elim!: obind_DoneE)
  note q = quiet_call_quiet [OF init_win32_quiet init]
  show ?thesis
  proof (cases "r = -1")
    case True
    with res tcp init q show ?thesis by (simp add: win_tcp_listen_def)
  next
    case False
    with res tcp init obtain s1 w1 where op: "wsa_open w0 = Done (s1, w1)"
      by (auto simp: win_tcp_listen_def elim!: obind_DoneE)
    note o = quiet_opened [OF q wsa_open_opened [OF op]]
    show ?thesis
    proof (cases "s1 = -1")
      case True
      with False res tcp init op o show ?thesis by (simp add: win_tcp_listen_def opened_neg)
    next
      case neq: False
      with wsa_open_posix [OF init_win32_posix [OF posix init] op] have s1: "0 \<le> s1" by simp
      note closed = quiet_closed [OF o s1]
      let ?rest = "\<lambda>w. obind (wsa_call w) (\<lambda>(rc, w). if rc = -1 then close_fail s1 w
         else obind (wsa_call w) (\<lambda>(rc, w). if rc = -1 then close_fail s1 w else Done (s1, w)))"
      have rest: ?thesis if "?rest w2 = Done (s, w')" "quiet w1 w2" for w2
        using that(1) by (elim wsa_guardE) (use that(2) closed s1 opened_quiet [OF o] in \<open>force dest: quiet_trans\<close>)+
      let ?any = "tcp_ip t \<noteq> [] \<and> hd (tcp_ip t) = CHR ''0''"
      from False neq res tcp init op have "obind (wsa_call w1) (\<lambda>(rc, w). if rc = -1 then close_fail s1 w
          else obind (if ?any then Done (1, w) else wsa_call w)
            (\<lambda>(rc, w). if rc \<le> 0 then close_fail s1 w else ?rest w)) = Done (s, w')"
        by (simp add: win_tcp_listen_def)
      then show ?thesis
      proof (cases rule: wsa_guardE)
        case (failed w2)
        with closed show ?thesis by auto
      next
        case (passed w2)
        show ?thesis
        proof (cases ?any)
          case False
          with passed(2) have "obind (wsa_call w2) (\<lambda>(rc, w). if rc \<le> 0 then close_fail s1 w else ?rest w) = Done (s, w')"
            by simp
          then show ?thesis
            by (cases rule: wsa_guardE) (use closed rest quiet_trans [OF passed(1)] in auto)
        qed (use passed rest in simp)
      qed
    qed
  qed
qed

lemma win_tcp_pi_listen_result:
  assumes res: "win_tcp_pi_listen (Some c) nb w = Done (s, w')" and tcp: "mb_backend c = TcpPi t"
  shows "s = -1 \<and> quiet w w' \<or> 0 \<le> s \<and> opened s w w'"
proof -
  from res tcp obtain r w0 where init: "modbus_tcp_init_win32 w = Done (r, w0)"
    by (auto simp: win_tcp_pi_listen_def elim!: obind_DoneE)
  note q = quiet_call_quiet [OF init_win32_quiet init]
  from res tcp init q show ?thesis
    by (auto simp: win_tcp_pi_listen_def split: if_splits elim!: obind_DoneE dest!: win_pi_listen_list_result wsa_call_frame)
       (auto simp: opened_def quiet_def)
qed

lemma win_tcp_accept_result:
  assumes "win_tcp_accept (Some c) w = Done (s, c', w')"
  shows "\<exists>k. c' = Some (c\<lparr>mb_s := k\<rparr>) \<and> (s = -1 \<and> k < 0 \<and> quiet w w' \<or> s = k \<and> 0 \<le> k \<and> k < WIN_FD_SETSIZE \<and> opened k w w')"
proof -
  from assms obtain k w1 where op: "wsa_open w = Done (k, w1)" by (auto simp: win_tcp_accept_def elim!: obind_DoneE)
  note o = wsa_open_opened [OF op]
  show ?thesis
    using assms op o opened_closed [OF o]
    by (auto simp: win_tcp_accept_def opened_neg Let_def split: if_splits intro: exI [of _ k] exI [of _ "-1"])
qed

section \<open>Sockets with a number that a set does not count\<close>

text \<open>
  A connection never ends on a socket numbered 64 or more, whatever the system does: such a socket is
  closed again. The numbers of Winsock are handles, and a set of them holds any.
\<close>

lemma high_socket_refused:
  assumes "win_tcp_connect c w = Done (rc, c', w')" and "w_calls w = (0, e0) # (s, e) # cs" and "64 \<le> s"
  shows "rc = -1 \<and> c' = c \<and> w_errno w' = EINVAL \<and> w_fds w' = w_fds w"
  using assms by (auto simp: win_tcp_connect_def modbus_tcp_init_win32_def wsa_open_def wsa_call_def)

lemma high_accept_refused:
  assumes "win_tcp_accept (Some c) w = Done (rc, c', w')" and "w_calls w = (s, e) # cs" and "64 \<le> s"
  shows "rc = -1 \<and> c' = Some (c\<lparr>mb_s := -1\<rparr>) \<and> w_errno w' = EINVAL \<and> w_fds w' = w_fds w"
  using assms by (auto simp: win_tcp_accept_def wsa_open_def wsa_call_def Let_def)

end
