(* ===== verification/Mb_Winline.thy ===== *)
theory Mb_Winline
  imports Mb_Winsock
begin

text \<open>
  Sending and receiving over a socket on Windows: the code under \<open>_WIN32\<close> of \<open>send_msg\<close> and
  \<open>_modbus_receive_msg\<close> with the operations of the TCP backends. The contexts are those of TCP; the
  serial ones are in Mb_Windows. A failed call leaves \<open>errno\<close> as it was, so the recovery asks
  \<open>WSAGetLastError\<close>.
\<close>

section \<open>The socket\<close>

definition winsock_close :: "modbus \<Rightarrow> world \<Rightarrow> (modbus \<times> world) outcome" where
  "winsock_close ctx w = (case mb_backend ctx of Rtu r \<Rightarrow> Fault | _ \<Rightarrow> win_tcp_close ctx w)"

definition winsock_send :: "modbus \<Rightarrow> byte list \<Rightarrow> world \<Rightarrow> (int \<times> world) outcome" where
  "winsock_send ctx req w =
     (case w_tx w of
        [] \<Rightarrow> Pending
      | ev # es \<Rightarrow>
          (let w = w\<lparr>w_tx := es\<rparr> in
           case ev of
             Tx_err e \<Rightarrow> Done (-1, w)
           | Tx_sent n \<Rightarrow>
               if mb_s ctx < 0 then Done (-1, w)
               else Done (int (length (take n req)), w\<lparr>w_sent := w_sent w @ [take n req]\<rparr>)))"

definition winsock_recv :: "modbus \<Rightarrow> nat \<Rightarrow> world \<Rightarrow> int \<times> byte list \<times> world" where
  "winsock_recv ctx rsp_length w = (if mb_s ctx < 0 then (-1, [], w) else wsa_recv rsp_length w)"

definition wsa_select :: "timeval option \<Rightarrow> world \<Rightarrow> (int \<times> world) outcome" where
  "wsa_select tv w =
     obind (select_read (tv \<noteq> None) (w_rx w)) (\<lambda>(rc, e, es).
       Done (rc, w\<lparr>w_rx := es, w_armed := w_armed w @ [tv]\<rparr>))"

lemma wsa_select_shrinks: "wsa_select tv w = Done (-1, w') \<Longrightarrow> length (w_rx w') < length (w_rx w)"
  by (auto simp: wsa_select_def outcome_iff dest: select_read_error_shrinks)

text \<open>\<open>errno\<close> is looked at here too, whatever it was before the call.\<close>

function winsock_select_loop :: "int \<Rightarrow> timeval option \<Rightarrow> world \<Rightarrow> (int \<times> world) outcome" where
  "winsock_select_loop s tv w =
     (case wsa_select tv w of
        Fault \<Rightarrow> Fault
      | Pending \<Rightarrow> Pending
      | Done (s_rc, w') \<Rightarrow>
          if s_rc = -1 then
            (if w_errno w' = EINTR then
               (if s < 0 \<or> s \<ge> WIN_FD_SETSIZE then Done (fail_errno EINVAL w') else winsock_select_loop s tv w')
             else Done (-1, w'))
          else if s_rc = 0 then Done (fail_errno ETIMEDOUT w')
          else Done (s_rc, w'))"
  by pat_completeness auto
termination
  by (relation "measure (\<lambda>(s, tv, w). length (w_rx w))") (auto dest: wsa_select_shrinks)

declare winsock_select_loop.simps [simp del]

definition winsock_select :: "modbus \<Rightarrow> timeval option \<Rightarrow> world \<Rightarrow> (int \<times> world) outcome" where
  "winsock_select ctx tv w = winsock_select_loop (mb_s ctx) tv w"

section \<open>Sending\<close>

definition winsock_recover_link :: "modbus \<Rightarrow> world \<Rightarrow> (modbus \<times> world) outcome" where
  "winsock_recover_link ctx w =
     (let saved_errno = w_errno w in
      obind (wsa_call w) (\<lambda>(wsa_err, w).
      obind
        (if wsa_err \<in> {WSAENETRESET, WSAENOTCONN, WSAENOTSOCK, WSAESHUTDOWN, WSAEHOSTUNREACH, WSAECONNABORTED,
                       WSAECONNRESET, WSAETIMEDOUT} then
           obind (winsock_close ctx w) (\<lambda>(ctx, w).
           obind (win_line_connect ctx (sleep_response_timeout ctx w)) (\<lambda>(_, ctx, w). Done (ctx, w)))
         else Done (ctx, snd (win_tcp_flush ctx (sleep_response_timeout ctx w))))
        (\<lambda>(ctx, w). Done (ctx, set_errno saved_errno w))))"

lemma sleep_quiet: "quiet w (sleep_response_timeout ctx w)"
  by (simp add: quiet_def sleep_response_timeout_def)

lemma win_flush_read_frame: "win_flush_read w = (rc, w') \<Longrightarrow> w_tx w' = w_tx w \<and> w_fds w' = w_fds w \<and> w_sent w' = w_sent w"
  by (auto simp: win_flush_read_def wsa_recv_def Let_def split: prod.splits if_splits)

lemma win_flush_loop_frame:
  "win_flush_loop s r w = (rc, w') \<Longrightarrow> w_tx w' = w_tx w \<and> w_fds w' = w_fds w \<and> w_sent w' = w_sent w"
proof (induction s r w rule: win_flush_loop.induct)
  case (1 s r w)
  obtain n w1 where read: "win_flush_read w = (n, w1)" by (cases "win_flush_read w")
  note frame = win_flush_read_frame [OF read]
  show ?case
  proof (cases n)
    case None
    with "1.prems" read frame show ?thesis by (auto simp: win_flush_loop.simps [of s r w] split: if_splits)
  next
    case (Some k)
    show ?thesis
    proof (cases "\<not> (s < 0 \<or> s \<ge> WIN_FD_SETSIZE) \<and> \<not> (k > 0 \<and> \<not> uint r \<le> 65535 - k) \<and> k = int MODBUS_TCP_MAX_ADU_LENGTH")
      case True
      with "1.prems" read Some "1.IH" [OF _ read [symmetric] Some] frame show ?thesis
        by (auto simp: win_flush_loop.simps [of s r w] Let_def)
    next
      case False
      with "1.prems" read Some frame show ?thesis by (auto simp: win_flush_loop.simps [of s r w] Let_def split: if_splits)
    qed
  qed
qed

lemma win_flush_frame: "w_tx (snd (win_tcp_flush c w)) = w_tx w \<and> w_fds (snd (win_tcp_flush c w)) = w_fds w"
  using win_flush_loop_frame [of "mb_s c" 0 w] by (cases "win_flush_loop (mb_s c) 0 w") (simp add: win_tcp_flush_def)

lemma win_connected_tx: "win_connected c w rc c' w' \<Longrightarrow> w_tx w' = w_tx w"
  by (auto simp: win_connected_def quiet_def opened_def replace_socket_def)

lemma winsock_close_tcp: "winsock_close c w = Done (c', w') \<Longrightarrow> win_tcp_close c w = Done (c', w')"
  by (simp add: winsock_close_def split: backend_data.splits)

lemma winsock_close_tx: "winsock_close c w = Done (c', w') \<Longrightarrow> w_tx w' = w_tx w"
  by (auto simp: win_tcp_close_def quiet_def split: if_splits elim!: obind_DoneE dest!: winsock_close_tcp wsa_call_frame)

lemma winsock_recover_link_tx: "winsock_recover_link c w = Done (c', w') \<Longrightarrow> w_tx w' = w_tx w"
  using sleep_quiet win_flush_frame
  by (auto simp: winsock_recover_link_def Let_def quiet_def split: if_splits elim!: obind_DoneE
      dest!: wsa_call_frame winsock_close_tx win_line_connect_result [THEN win_connected_tx])

lemma winsock_send_shrinks: "winsock_send c msg w = Done (rc, w') \<Longrightarrow> length (w_tx w') < length (w_tx w) \<and> w_fds w' = w_fds w"
  by (auto simp: winsock_send_def Let_def split: list.splits tx_event.splits if_splits)

function winsock_send_loop :: "modbus \<Rightarrow> byte list \<Rightarrow> world \<Rightarrow> (int \<times> modbus \<times> world) outcome" where
  "winsock_send_loop ctx msg w =
     (case winsock_send ctx msg w of
        Fault \<Rightarrow> Fault
      | Pending \<Rightarrow> Pending
      | Done (rc, w1) \<Rightarrow>
          if rc = -1 \<and> link_recovery ctx then
            (case winsock_recover_link ctx w1 of
               Fault \<Rightarrow> Fault
             | Pending \<Rightarrow> Pending
             | Done (ctx2, w2) \<Rightarrow> winsock_send_loop ctx2 msg w2)
          else Done (rc, ctx, w1))"
  by pat_completeness auto
termination
  by (relation "measure (\<lambda>(ctx, msg, w). length (w_tx w))") (auto dest!: winsock_send_shrinks winsock_recover_link_tx)

declare winsock_send_loop.simps [simp del]

definition winsock_send_msg :: "modbus \<Rightarrow> byte list \<Rightarrow> nat \<Rightarrow> world \<Rightarrow> (int \<times> modbus \<times> byte list \<times> world) outcome" where
  "winsock_send_msg ctx msg msg_length w =
     obind (modbus_tcp_send_msg_pre msg msg_length) (\<lambda>(msg_length, msg).
     obind (winsock_send_loop ctx (take msg_length msg) w) (\<lambda>(rc, ctx, w).
       if rc > 0 \<and> rc \<noteq> int msg_length then Done (-1, ctx, msg, set_errno EMBBADDATA w)
       else Done (rc, ctx, msg, w)))"

section \<open>Receiving\<close>

definition winsock_reconnect :: "modbus \<Rightarrow> world \<Rightarrow> (modbus \<times> world) outcome" where
  "winsock_reconnect ctx w =
     obind (winsock_close ctx w) (\<lambda>(ctx, w). obind (win_line_connect ctx w) (\<lambda>(_, ctx, w). Done (ctx, w)))"

definition winsock_select_failed :: "modbus \<Rightarrow> world \<Rightarrow> (modbus \<times> world) outcome" where
  "winsock_select_failed ctx w =
     (if link_recovery ctx then
        let saved_errno = w_errno w in
        obind (wsa_call w) (\<lambda>(wsa_err, w).
        obind (if wsa_err = WSAENETDOWN \<or> wsa_err = WSAENOTSOCK then winsock_reconnect ctx w else Done (ctx, w))
          (\<lambda>(ctx, w). Done (ctx, set_errno saved_errno w)))
      else Done (ctx, w))"

definition winsock_recv_failed :: "modbus \<Rightarrow> world \<Rightarrow> (modbus \<times> world) outcome" where
  "winsock_recv_failed ctx w =
     obind (wsa_call w) (\<lambda>(wsa_err, w).
       if link_recovery ctx \<and>
          wsa_err \<in> {WSAENOTCONN, WSAENETRESET, WSAENOTSOCK, WSAESHUTDOWN, WSAECONNABORTED, WSAETIMEDOUT, WSAECONNRESET} then
         let saved_errno = w_errno w in
         obind (winsock_reconnect ctx w) (\<lambda>(ctx, w). Done (ctx, set_errno saved_errno w))
       else Done (ctx, w))"

definition winsock_receive_turn ::
    "modbus \<Rightarrow> msg_type \<Rightarrow> step \<Rightarrow> nat \<Rightarrow> byte list \<Rightarrow> nat \<Rightarrow> timeval option \<Rightarrow> world \<Rightarrow> rx_turn outcome" where
  "winsock_receive_turn ctx msg_type step length_to_read msg msg_length p_tv w =
     obind (winsock_select ctx p_tv w) (\<lambda>(rc, w).
       if rc = -1 then obind (winsock_select_failed ctx w) (\<lambda>(ctx, w). Done (Rx_return (-1) ctx msg w))
       else
         let (rc, bs, w) = winsock_recv ctx length_to_read w;
             (rc, w) = (if rc = 0 then (-1, set_errno ECONNRESET w) else (rc, w)) in
         if rc = -1 then obind (winsock_recv_failed ctx w) (\<lambda>(ctx, w). Done (Rx_return (-1) ctx msg w))
         else obind (memcpy msg msg_length bs 0 (length bs)) (\<lambda>msg.
           let msg_length = msg_length + length bs; length_to_read = length_to_read - length bs in
           obind (if length_to_read = 0 then next_step ctx msg_type step msg msg_length
                  else Done (Some (step, length_to_read))) (\<lambda>next.
             case next of
               None \<Rightarrow> Done (Rx_return (-1) ctx msg (set_errno EMBBADDATA w))
             | Some (step, length_to_read) \<Rightarrow>
                 Done (Rx_continue step length_to_read msg msg_length (next_timeout ctx length_to_read p_tv) w))))"

lemma winsock_recv_count:
  "winsock_recv ctx n w = (rc, bs, w') \<Longrightarrow> (rc = -1 \<and> bs = [] \<or> rc = int (length bs)) \<and> length bs \<le> n"
  by (auto simp: winsock_recv_def split: if_splits dest!: wsa_recv_takes)

lemma winsock_receive_turn_continue:
  assumes "winsock_receive_turn ctx mt st ltr msg n tv w = Done (Rx_continue st' ltr' msg' n' tv' w')"
  obtains k where "0 < k" "k \<le> ltr"
    and "(if ltr - k = 0 then next_step ctx mt st msg' n' else Done (Some (st, ltr - k))) = Done (Some (st', ltr'))"
proof -
  from assms obtain rc1 w1 where sel: "winsock_select ctx tv w = Done (rc1, w1)" "rc1 \<noteq> -1"
    by (auto simp: winsock_receive_turn_def split: if_splits elim!: obind_DoneE)
  obtain rc bs w2 where rcv: "winsock_recv ctx ltr w1 = (rc, bs, w2)" by (cases "winsock_recv ctx ltr w1")
  note count = winsock_recv_count [OF rcv]
  have ok: "rc \<noteq> 0" "rc \<noteq> -1"
    using assms sel rcv by (auto simp: winsock_receive_turn_def split: if_splits elim!: obind_DoneE)
  with count have "0 < length bs" "length bs \<le> ltr" by auto
  moreover from assms sel rcv ok
  have "(if ltr - length bs = 0 then next_step ctx mt st msg' n' else Done (Some (st, ltr - length bs))) = Done (Some (st', ltr'))"
    by (auto simp: winsock_receive_turn_def Let_def split: option.splits prod.splits if_splits elim!: obind_DoneE)
  ultimately show thesis by (rule that)
qed

function winsock_receive_loop ::
    "modbus \<Rightarrow> msg_type \<Rightarrow> step \<Rightarrow> nat \<Rightarrow> byte list \<Rightarrow> nat \<Rightarrow> timeval option \<Rightarrow> world \<Rightarrow>
     (int \<times> modbus \<times> byte list \<times> world) outcome" where
  "winsock_receive_loop ctx msg_type step length_to_read msg msg_length p_tv w =
     (if length_to_read = 0 then
        obind (modbus_tcp_check_integrity ctx msg msg_length w) (\<lambda>(rc, w). Done (rc, ctx, msg, w))
      else case winsock_receive_turn ctx msg_type step length_to_read msg msg_length p_tv w of
        Fault \<Rightarrow> Fault
      | Pending \<Rightarrow> Pending
      | Done (Rx_return rc ctx msg w) \<Rightarrow> Done (rc, ctx, msg, w)
      | Done (Rx_continue step length_to_read msg msg_length p_tv w) \<Rightarrow>
          winsock_receive_loop ctx msg_type step length_to_read msg msg_length p_tv w)"
  by pat_completeness auto
termination
proof (relation "measures [\<lambda>(ctx, mt, st, ltr, msg, n, tv, w). step_rank st, \<lambda>(ctx, mt, st, ltr, msg, n, tv, w). ltr]", goal_cases)
  case 1
  then show ?case by simp
next
  case (2 ctx mt st ltr msg n tv w turn st' ltr' msg' n' tv' w')
  then have "winsock_receive_turn ctx mt st ltr msg n tv w = Done (Rx_continue st' ltr' msg' n' tv' w')" by simp
  then obtain k where "0 < k" "k \<le> ltr"
    "(if ltr - k = 0 then next_step ctx mt st msg' n' else Done (Some (st, ltr - k))) = Done (Some (st', ltr'))"
    by (rule winsock_receive_turn_continue)
  then show ?case by (auto dest!: next_step_decreases split: if_splits)
qed

declare winsock_receive_loop.simps [simp del]

definition winsock_receive_msg :: "modbus \<Rightarrow> byte list \<Rightarrow> msg_type \<Rightarrow> world \<Rightarrow> (int \<times> modbus \<times> byte list \<times> world) outcome" where
  "winsock_receive_msg ctx msg msg_type w =
     (if \<not> modbus_tcp_is_connected ctx then Done (-1, ctx, msg, w)
      else if mb_s ctx < 0 \<or> mb_s ctx \<ge> WIN_FD_SETSIZE then Done (-1, ctx, msg, set_errno EINVAL w)
      else winsock_receive_loop ctx msg_type STEP_FUNCTION (header_length ctx + 1) msg 0 (first_timeout ctx msg_type) w)"

section \<open>No socket is lost\<close>

lemma winsock_lossless_call: "wsa_call w = Done (r, w1) \<Longrightarrow> lossless c w1 c' w' \<Longrightarrow> lossless c w c' w'"
  by (drule wsa_call_frame) (simp add: lossless_def quiet_def)

lemma winsock_reopen_lossless:
  "winsock_close c w = Done (c1, w1) \<Longrightarrow> w_fds w2 = w_fds w1 \<Longrightarrow> win_line_connect c1 w2 = Done (rc, c', w') \<Longrightarrow> lossless c w c' w'"
  unfolding lossless_def by (rule winsock.reopen_conserves [OF winsock_close_tcp])

lemma win_tcp_flush_lossless: "lossless c w c (snd (win_tcp_flush c (sleep_response_timeout c w)))"
  using win_flush_frame [of c "sleep_response_timeout c w"] by (simp add: lossless_same sleep_response_timeout_fds)

lemma winsock_recover_link_lossless:
  assumes "winsock_recover_link c w = Done (c', w')"
  shows "lossless c w c' w'"
proof -
  from assms obtain e w1 w2 where call: "wsa_call w = Done (e, w1)" and w': "w' = set_errno (w_errno w) w2"
    and rec: "(\<exists>c1 w3 rc. winsock_close c w1 = Done (c1, w3) \<and> win_line_connect c1 (sleep_response_timeout c1 w3) = Done (rc, c', w2)) \<or>
      c' = c \<and> w2 = snd (win_tcp_flush c (sleep_response_timeout c w1))"
    by (auto simp: winsock_recover_link_def Let_def split: if_splits elim!: obind_DoneE)
  from rec have "lossless c w1 c' w2"
    using winsock_reopen_lossless [OF _ sleep_response_timeout_fds] win_tcp_flush_lossless by auto
  with winsock_lossless_call [OF call] show ?thesis by (simp add: w')
qed

lemma winsock_reconnect_lossless: "winsock_reconnect c w = Done (c', w') \<Longrightarrow> lossless c w c' w'"
  by (auto simp: winsock_reconnect_def elim!: obind_DoneE intro: winsock_reopen_lossless)

lemma winsock_failed_lossless:
  "winsock_select_failed c w = Done (c', w') \<Longrightarrow> lossless c w c' w'"
  "winsock_recv_failed c w = Done (c', w') \<Longrightarrow> lossless c w c' w'"
  by (auto simp: winsock_select_failed_def winsock_recv_failed_def Let_def split: if_splits elim!: obind_DoneE
      winsock_lossless_call dest!: winsock_reconnect_lossless)

lemma winsock_send_loop_lossless: "winsock_send_loop c msg w = Done (rc, c', w') \<Longrightarrow> lossless c w c' w'"
proof (induction c msg w rule: winsock_send_loop.induct)
  case (1 c msg w)
  from "1.prems" obtain rc1 w1 where snd: "winsock_send c msg w = Done (rc1, w1)"
    by (auto simp: winsock_send_loop.simps [of c msg w] split: outcome.splits)
  have s: "lossless c w c w1" using winsock_send_shrinks [OF snd] by (simp add: lossless_same)
  show ?case
  proof (cases "rc1 = -1 \<and> link_recovery c")
    case False
    with "1.prems" snd s show ?thesis by (auto simp: winsock_send_loop.simps [of c msg w])
  next
    case True
    with "1.prems" snd obtain c2 w2 where rec: "winsock_recover_link c w1 = Done (c2, w2)"
        and rest: "winsock_send_loop c2 msg w2 = Done (rc, c', w')"
      by (auto simp: winsock_send_loop.simps [of c msg w] split: outcome.splits)
    from s winsock_recover_link_lossless [OF rec] "1.IH" [OF snd refl True rec refl rest] show ?thesis
      by (blast intro: lossless_trans)
  qed
qed

lemma winsock_send_msg_lossless: "winsock_send_msg c msg n w = Done (rc, c', msg', w') \<Longrightarrow> lossless c w c' w'"
  by (auto simp: winsock_send_msg_def split: if_splits elim!: obind_DoneE dest!: winsock_send_loop_lossless)

lemma winsock_select_loop_fds: "winsock_select_loop s tv w = Done (rc, w') \<Longrightarrow> w_fds w' = w_fds w"
proof (induction s tv w rule: winsock_select_loop.induct)
  case (1 s tv w)
  from "1.prems" obtain s_rc w1 where sel: "wsa_select tv w = Done (s_rc, w1)"
    by (cases "wsa_select tv w") (auto simp: winsock_select_loop.simps [of s tv w])
  then have fds: "w_fds w1 = w_fds w" by (auto simp: wsa_select_def elim!: obind_DoneE)
  from "1.prems" sel "1.IH" [OF sel refl] fds show ?case
    by (auto simp: winsock_select_loop.simps [of s tv w] split: if_splits)
qed

lemma winsock_receive_turn_lossless:
  assumes turn: "winsock_receive_turn c mt st ltr msg n tv w = Done t"
  shows "case t of Rx_return rc c' msg' w' \<Rightarrow> lossless c w c' w' | Rx_continue st' ltr' msg' n' tv' w' \<Rightarrow> w_fds w' = w_fds w"
proof -
  from turn obtain rc1 w1 where sel: "winsock_select c tv w = Done (rc1, w1)"
    by (auto simp: winsock_receive_turn_def elim!: obind_DoneE)
  obtain rc2 bs w2 where rcv: "winsock_recv c ltr w1 = (rc2, bs, w2)" by (cases "winsock_recv c ltr w1")
  have fds: "w_fds w1 = w_fds w" "w_fds w2 = w_fds w1"
    using winsock_select_loop_fds [OF sel [unfolded winsock_select_def]] rcv
    by (auto simp: winsock_recv_def wsa_recv_def split: if_splits prod.splits)
  have same: "lossless c w c w1" "lossless c w c w2" by (simp_all add: lossless_same fds)
  from turn sel rcv same show ?thesis
    by (auto simp: winsock_receive_turn_def Let_def fds split: if_splits option.splits elim!: obind_DoneE
        dest!: winsock_failed_lossless elim: lossless_trans)
qed

lemma winsock_receive_loop_lossless:
  "winsock_receive_loop c mt st ltr msg n tv w = Done (rc, c', msg', w') \<Longrightarrow> lossless c w c' w'"
proof (induction c mt st ltr msg n tv w rule: winsock_receive_loop.induct)
  case (1 c mt st ltr msg n tv w)
  show ?case
  proof (cases "ltr = 0")
    case True
    with "1.prems" show ?thesis
      by (simp add: winsock_receive_loop.simps [of c mt st 0 msg n tv w] modbus_tcp_check_integrity_def)
  next
    case False
    with "1.prems" obtain t where turn: "winsock_receive_turn c mt st ltr msg n tv w = Done t"
      by (cases "winsock_receive_turn c mt st ltr msg n tv w") (simp_all add: winsock_receive_loop.simps [of c mt st ltr msg n tv w])
    show ?thesis
    proof (cases t)
      case (Rx_return rc1 c1 msg1 w1)
      with "1.prems" False turn winsock_receive_turn_lossless [OF turn] show ?thesis
        by (simp add: winsock_receive_loop.simps [of c mt st ltr msg n tv w])
    next
      case (Rx_continue st' ltr' msg1 n' tv' w1)
      with "1.prems" False turn have "winsock_receive_loop c mt st' ltr' msg1 n' tv' w1 = Done (rc, c', msg', w')"
        by (simp add: winsock_receive_loop.simps [of c mt st ltr msg n tv w])
      from "1.IH" [OF False turn Rx_continue this] winsock_receive_turn_lossless [OF turn] Rx_continue show ?thesis
        by (auto intro: lossless_trans [OF lossless_same])
    qed
  qed
qed

theorem winsock_receive_msg_lossless: "winsock_receive_msg c msg mt w = Done (rc, c', msg', w') \<Longrightarrow> lossless c w c' w'"
  by (auto simp: winsock_receive_msg_def split: if_splits dest: winsock_receive_loop_lossless)

section \<open>On a line without errors, the reception is the one of the other platforms\<close>

lemma winsock_select_next:
  assumes "polite (tv \<noteq> None) (w_rx w)"
  shows "winsock_select ctx tv w = be_select ctx tv w"
proof -
  note rd = select_read_next [OF assms]
  from assms show ?thesis
    by (cases rule: line_next_cases)
       (use rd in \<open>simp_all add: winsock_select_def be_select_eq winsock_select_loop.simps [of "mb_s ctx" tv w]
         select_loop.simps [of "mb_s ctx" tv w] wsa_select_def sys_select_def\<close>)
qed

lemma winsock_turn_agrees:
  assumes rec: "mb_error_recovery ctx = 0" and fd: "0 \<le> mb_s ctx" and line: "polite (tv \<noteq> None) (w_rx w)" and ltr: "0 < ltr"
  shows "winsock_receive_turn ctx mt st ltr msg n tv w = receive_turn ctx mt st ltr msg n tv w"
    and "receive_turn ctx mt st ltr msg n tv w = Done (Rx_continue st' ltr' msg' n' tv' w') \<Longrightarrow>
      polite (tv' \<noteq> None) (w_rx w')"
proof -
  note sel = winsock_select_next [OF line, of ctx]
  have failed: "winsock_select_failed ctx v = Done (ctx, v)" for v
    using no_recovery(1) [OF rec] by (simp add: winsock_select_failed_def)
  note psel = be_select_next [OF line, where ctx = ctx]
  from line show "winsock_receive_turn ctx mt st ltr msg n tv w = receive_turn ctx mt st ltr msg n tv w"
  proof (cases rule: line_next_cases)
    case none
    then show ?thesis using psel(1) by (simp add: winsock_receive_turn_def receive_turn_def sel)
  next
    case (silence es)
    then show ?thesis using psel(2) failed no_recovery(3) [OF rec] by (simp add: winsock_receive_turn_def receive_turn_def sel)
  next
    case (data bs es)
    let ?v = "w\<lparr>w_rx := Rx_data bs # es, w_armed := w_armed w @ [tv]\<rparr>"
    have "winsock_recv ctx ltr ?v = be_recv ctx ltr ?v" "0 < fst (be_recv ctx ltr ?v)"
      using fd data(2) be_recv_next [of ?v bs es ctx ltr] ltr
      by (cases bs; simp add: winsock_recv_def wsa_recv_def)+
    then show ?thesis using psel(3) [OF data(1)]
      by (cases "be_recv ctx ltr ?v") (simp add: winsock_receive_turn_def receive_turn_def sel)
  qed
  assume turn: "receive_turn ctx mt st ltr msg n tv w = Done (Rx_continue st' ltr' msg' n' tv' w')"
  from receive_turn_continue [OF this ltr] obtain w1 bs rc where cont: "be_select ctx tv w = Done (1, w1)"
    "be_recv ctx ltr w1 = (rc, bs, w')" "bs \<noteq> []" "tv' = next_timeout ctx ltr' tv" by metis
  have le: "polite (tv' \<noteq> None) es" if "polite (tv \<noteq> None) es" for es
    using that cont(4) by (auto simp: polite_def next_timeout_def)
  from line show "polite (tv' \<noteq> None) (w_rx w')"
  proof (cases rule: line_next_cases)
    case (data cs es)
    with psel(3) [OF data(1)] cont(1,2) be_recv_next [of w1 cs es ctx ltr] fd polite_tl [OF line data(1)]
    have "polite (tv \<noteq> None) (w_rx w')" by auto
    then show ?thesis by (rule le)
  qed (use psel cont in auto)
qed

lemma winsock_loop_agrees:
  assumes "mb_error_recovery ctx = 0" and "0 \<le> mb_s ctx" and "\<not> is_rtu ctx"
  shows "polite (tv \<noteq> None) (w_rx w) \<Longrightarrow>
    winsock_receive_loop ctx mt st ltr msg n tv w = receive_loop ctx mt st ltr msg n tv w"
  using assms
proof (induction ctx mt st ltr msg n tv w rule: receive_loop.induct)
  case (1 ctx mt st ltr msg n tv w)
  note loops = winsock_receive_loop.simps [of ctx mt st ltr msg n tv w] receive_loop.simps [of ctx mt st ltr msg n tv w]
  show ?case
  proof (cases "ltr = 0")
    case True
    with "1.prems" show ?thesis unfolding loops by (simp add: be_check_integrity_def)
  next
    case False
    then have pos: "0 < ltr" by simp
    note agrees = winsock_turn_agrees [OF "1.prems"(2,3,1) pos, of mt st msg n]
    show ?thesis
    proof (cases "receive_turn ctx mt st ltr msg n tv w")
      case (Done t)
      show ?thesis
      proof (cases t)
        case (Rx_continue st' ltr' msg' n' tv' w')
        with "1.IH" [OF False Done Rx_continue] agrees Done False "1.prems" show ?thesis unfolding loops by simp
      qed (use Done False agrees in \<open>simp add: loops\<close>)
    qed (use False agrees in \<open>simp_all add: loops\<close>)
  qed
qed

theorem winsock_reception_agrees:
  assumes "mb_error_recovery ctx = 0" and "mb_s ctx < WIN_FD_SETSIZE" and "\<not> is_rtu ctx"
    and "polite (first_timeout ctx mt \<noteq> None) (w_rx w)"
  shows "winsock_receive_msg ctx msg mt w = modbus_receive_msg ctx msg mt w"
  using winsock_loop_agrees [OF assms(1) _ assms(3,4)] assms(2)
  by (simp add: winsock_receive_msg_def modbus_receive_msg_def be_is_connected_eq)

text \<open>
  With link recovery the platforms differ when nothing comes in time: elsewhere the library waits and
  flushes the line, on Windows it does neither.
\<close>

lemma winsock_timeout_keeps_line:
  assumes "link_recovery ctx" and "w_calls w = (e, x) # cs" and "e \<noteq> WSAENETDOWN" "e \<noteq> WSAENOTSOCK"
  shows "winsock_select_failed ctx w = Done (ctx, w\<lparr>w_calls := cs\<rparr>)"
  using assms by (simp add: winsock_select_failed_def wsa_call_def Let_def)

lemma posix_timeout_flushes:
  assumes "link_recovery ctx" and "w_errno w = ETIMEDOUT"
  shows "select_failed ctx w = Done (ctx, set_errno ETIMEDOUT (snd (be_flush ctx (sleep_response_timeout ctx w))))"
  using assms by (simp add: select_failed_def Let_def)

end
