(* ===== verification/Spec2Isabelle.thy ===== *)
theory Spec2Isabelle
  imports Mb_Wire Mb_Transfer Mb_Life Mb_Winline
begin

text \<open>
  libmodbus: a library for clients (masters), servers (slaves) and gateways of the Modbus protocol,
  over a serial line (RTU) and over TCP. This development models the C code of the library under
  src/src as HOL functions (the POSIX code paths, and the serial port and the sockets on Windows), and proves what makes its operations correct.

  \<^bold>\<open>The program.\<close> A context (\<open>modbus_t\<close>, modbus-private.h) holds a descriptor, a slave address, the
  three timeouts, the error recovery flags, the quirks, and a pointer to a table of operations, the
  backend: RTU (modbus-rtu.c), TCP and protocol-independent TCP (modbus-tcp.c). modbus.c holds what
  the backends share. A client function builds a request with the backend (\<open>build_request_basis\<close>),
  \<open>send_msg\<close> closes the frame (\<open>send_msg_pre\<close>: the CRC or the MBAP length) and writes it,
  \<open>_modbus_receive_msg\<close> reads the confirmation step by step and \<open>check_confirmation\<close> compares it with
  the request. A server calls \<open>modbus_receive\<close> and then \<open>modbus_reply\<close>, which serves the request from
  the tables of a \<open>modbus_mapping_t\<close>. A gateway (\<open>modbus_proxy\<close>) passes a request of one context to
  another one. modbus-data.c converts between bits, bytes, registers and floats. On Windows the RTU
  backend reads the serial port into a buffer where the other platforms call \<open>select\<close>.

  \<^bold>\<open>How C becomes HOL.\<close> A function returns an \<open>outcome\<close> (Mb_Prelude): \<open>Done x\<close>, \<open>Fault\<close> for an access
  outside an array, a signed overflow or a failed assertion, \<open>Pending\<close> when it waits for an event that never comes.
  Arrays are lists, read and written through \<open>rd\<close>, \<open>wr\<close> and \<open>memcpy\<close>, which check their bounds; a
  stack array is an argument of the function that declares it, so its initial contents are arbitrary.
  \<open>uint8_t\<close>, \<open>uint16_t\<close> and \<open>uint32_t\<close> are words; an \<open>int\<close> that the code computes from bytes, counts and
  lengths is an integer, is reduced where the code relies on a conversion, and goes through \<open>c_int\<close>,
  which makes an overflow a \<open>Fault\<close>, where the code adds a start address of the application to it (the
  range checks of \<open>modbus_reply\<close>). A pointer that may be
  NULL is an option, a function that changes the context returns the new one. \<open>errno\<close> is a field of
  the world.

  \<^bold>\<open>The world.\<close> The kernel and the peer are a script in the state \<open>world\<close> (Mb_System): the events of the
  read side, the result of each write, the result of every other call in order. Each call consumes
  its entry and what it does is recorded (bytes sent, descriptors, sleeps, states of the RTS line).
  A theorem about all worlds is a theorem about every peer, every fragmentation and every failure of
  a call. The script has no clock: a timeout of \<open>select\<close> is the event \<open>Rx_silence\<close>, and the timeouts
  in force are recorded, not measured. \<open>malloc\<close> and \<open>strdup\<close> have a script of failures of their own (Mb_Mapping).

  \<^bold>\<open>Theories, in the order of their imports.\<close>
  \<^item> Mb_Prelude: outcomes, arrays, loops (\<open>ofor\<close>), bytes and registers, and the lemmas about them.
  \<^item> Mb_System: the world and its calls.
  \<^item> Mb_Context: constants of the headers, the context, the accessors of modbus.c, \<open>modbus_strerror\<close>.
  \<^item> Mb_Crc: \<open>crc16\<close> with its tables, the bit-by-bit reference, their equivalence.
  \<^item> Mb_Data: modbus-data.c, the integer macros of modbus.h, \<open>strlcpy\<close>, and their round trips: the locales
    \<open>cell\<close> and \<open>placed_cell\<close> are the contract of a macro that stores a value in a part of a table and of the one
    that loads it back.
  \<^item> Mb_Mapping: \<open>modbus_mapping_new_start_address\<close>, \<open>modbus_mapping_free\<close> and leaks; \<open>start_fits\<close> and
    \<open>addressable\<close> name the start addresses whose range checks stay within \<open>int\<close>.
  \<^item> Mb_Rtu, Mb_Tcp: the frames of the two backends, the checks of a received message, the transmission
    with the RTS line, the flush and the loop around \<open>select\<close>.
  \<^item> Mb_Backend: the table of operations as functions \<open>be_op\<close>; the locale \<open>framing\<close> is the contract of
    a backend for building messages, and both backends are interpretations of it.
  \<^item> Mb_Send: \<open>send_msg\<close> and its recovery loop, raw requests.
  \<^item> Mb_Receive: \<open>_modbus_receive_msg\<close> and \<open>modbus_receive\<close>.
  \<^item> Mb_Confirm: \<open>check_confirmation\<close>.
  \<^item> Mb_Reply: the cases of \<open>modbus_reply\<close>, the helpers for bits and \<open>modbus_reply_exception\<close>.
  \<^item> Mb_Server, Mb_Answers: the specification \<open>serve_request\<close> of the protocol over the tables of the
    mapping, and the refinement: every handler sends the frame and leaves the mapping of the
    specification.
  \<^item> Mb_Client: the public read and write functions. Mb_Exchange and Mb_Calls: the frame each of them
    sends, and what it returns and never touches for any peer.
  \<^item> Mb_Session, Mb_Transfer: client and server composed over one line, call by call.
  \<^item> Mb_Wire: requests as a server receives them, the traffic of other slaves, raw frames.
  \<^item> Mb_Proxy: the gateway. Mb_Connect, Mb_Serial, Mb_New: connections, the serial line, constructors.
  \<^item> Mb_Windows: the RTU backend, sending and receiving on Windows. Mb_Winport: its reception computes
    what the POSIX reception computes, and what its port does otherwise.
  \<^item> Mb_Config: any sequence of configuration and connection calls. Mb_Loop: a server with one context,
    buffer and mapping as a step relation, with reachability and an invariant.
  \<^item> Mb_Link: the locale \<open>link\<close> is the contract of a line that is opened and closed; both platforms are
    interpretations, and no recovery, transmission or reception loses a descriptor. Mb_Life: every
    public function on one context, in any order, as reachable states with an invariant; the
    descriptors are conserved by every sequence that does not overwrite the one of the context.
  \<^item> Mb_Winsock: the sockets of Windows: they have the contract \<open>link\<close> too, listening and accepting lose
    no socket, and the flush computes what the other platforms compute.
    Mb_Winline: sending and receiving over them; on a line without errors the reception does exactly
    what the POSIX code does.
  \<^item> Mb_Examples: the concrete states at which the properties are instantiated.

  \<^bold>\<open>Loops.\<close> The loop of \<open>send_msg\<close> consumes a result of \<open>send\<close> at each turn, the loops around \<open>select\<close> an
  event, and the loop of \<open>_modbus_receive_msg\<close> lowers a measure of the step and the length to read:
  they are total functions, and a script that ends gives \<open>Pending\<close>. No fuel is used; the theorems that
  promise a result say \<open>Done\<close>.

  \<^bold>\<open>Not modelled.\<close> \<open>_error_print\<close> and the messages printed under \<open>ctx->debug\<close>, which have no effect on the state; the branches of platforms
  without \<open>TIOCSRS485\<close>, \<open>TIOCM_RTS\<close> or \<open>termios2\<close> (the choice of the speed without \<open>termios2\<close> is
  modelled); the tests, the documentation and the build files.
\<close>

section \<open>Properties\<close>

text \<open>
  C1: \<open>modbus_reply\<close> refines the protocol specification \<open>serve_request\<close>: for every request of any length
  with a header, every context, world and well-formed mapping, the mapping becomes the one of the
  specification and the frame of its answer (data, echo or exception) is what is sent, whatever the
  stack buffer held; a broadcast on a serial line changes the mapping and sends nothing. Two
  hypotheses bound the statement: over TCP the protocol identifier of the request is 0, since an echo
  repeats the one it got, and the start address of the addressed table is one that \<open>start_fits\<close>, which
  every start address below \<open>2 ^ 31\<close> does; the range check is an \<open>int\<close> sum that overflows for others.
\<close>

theorem reply_refines_protocol:
  assumes "wf_mapping m" and "length rsp = 260" and "header_length ctx + 1 \<le> n" "n \<le> length req"
    and "canonical_header ctx req" and "start_fits (served_start (uint (req ! header_length ctx)) m)"
  shows "modbus_reply (Some ctx) (Some req) (int n) (Some m) rsp w =
    (let ans = serve_request ctx req n m in
     if broadcast_silent ctx (uint (req ! (header_length ctx - 1)))
     then Done (0, Some ctx, Some (answer_mapping m ans), answer_world ctx ans w)
     else obind (send_frame ctx (answer_frame ctx req ans) (answer_world ctx ans w))
            (\<lambda>(rc, ctx, w). Done (rc, Some ctx, Some (answer_mapping m ans), w)))"
  by (rule modbus_reply_value [OF assms])

theorem reply_refines_protocol_witness:
  "\<exists>w'. modbus_reply (Some example_tcp) (Some [0, 7, 0, 0, 0, 6, 1, 3, 0, 16, 0, 2]) 12 (Some example_mapping)
     (replicate 260 0) (example_world [] [Tx_sent 100] []) =
       Done (13, Some example_tcp, Some example_mapping, w') \<and>
     w_sent w' = [[0, 7, 0, 0, 0, 7, 1, 3, 4, 0x12, 0x34, 0xFF, 0xFF]]"
  using reply_refines_protocol [of example_mapping "replicate 260 0" example_tcp 12 "[0, 7, 0, 0, 0, 6, 1, 3, 0, 16, 0, 2]"
      "example_world [] [Tx_sent 100] []"]
  by (simp add: example_run)

text \<open>
  C2: whatever the bytes of the request and its claimed length (negative, too short, truncated in the
  middle of a field), \<open>modbus_reply\<close> makes no access outside the request, its response buffer or the
  tables of a well-formed mapping, and no index or range check overflows, when the start addresses of
  the four tables fit. Start addresses from \<open>2 ^ 31\<close> on, which become very negative, do overflow
  (\<open>extreme_start_overflows\<close>); \<open>mapping_new_is_sound\<close> shows that all others fit.
\<close>

theorem reply_never_faults:
  assumes "wf_mapping m" and "addressable m" and "length rsp = 260" and "n \<le> int (length req)"
  shows "modbus_reply (Some ctx) (Some req) n (Some m) rsp w \<noteq> Fault"
  by (rule modbus_reply_not_Fault [OF assms])

theorem reply_never_faults_witness:
  "modbus_reply (Some example_rtu) (Some [1, 23, 0]) 3 (Some example_mapping) (replicate 260 0) (example_world [] [] []) \<noteq> Fault"
  using reply_never_faults [of example_mapping "replicate 260 0" 3 "[1, 23, 0]"] by simp

text \<open>
  C3: in every state that a server can reach by receiving, replying, sending exceptions, calling any
  function that configures, connects, closes or flushes its context and updating its tables, in any
  order and against any peer, the context keeps a valid configuration, the mapping is well formed, has
  the dimensions and start addresses it had and holds only 0 and 1 as bits, and no call leaves its
  arrays or overflows. The mapping the server starts with is well formed and its start addresses fit
  (\<open>server_ok\<close>).
\<close>

theorem server_always_safe:
  assumes "server_reach s s'" and "server_ok s" and "length rsp = 260"
  shows "wf_context (sv_ctx s') \<and> wf_mapping (sv_mapping s') \<and> addressable (sv_mapping s') \<and> bits_01 (sv_mapping s') \<and> same_dimensions (sv_mapping s) (sv_mapping s') \<and>
    modbus_receive (Some (sv_ctx s')) (sv_query s') (sv_world s') \<noteq> Fault \<and>
    modbus_reply (Some (sv_ctx s')) (Some (sv_query s')) (sv_len s') (Some (sv_mapping s')) rsp (sv_world s') \<noteq> Fault \<and>
    modbus_reply_exception (Some (sv_ctx s')) (Some (sv_query s')) code rsp (sv_world s') \<noteq> Fault"
  using server_reach_ok [OF assms(1,2)] server_calls_safe [OF _ assms(3)] by (simp add: server_ok_def)

theorem server_always_safe_witness:
  "let s = example_server\<lparr>sv_world := example_world [Rx_data [0, 7, 0, 0, 0, 6, 1, 6, 0, 18, 0xCA, 0xFE]] [Tx_sent 100] []\<rparr>
   in \<exists>s1 s2. server_step s s1 \<and> server_step s1 s2 \<and> sv_len s1 = 12 \<and>
        mp_tab_registers (sv_mapping s2) = [0x1234, 0xFFFF, 0xCAFE] \<and> wf_mapping (sv_mapping s2) \<and>
        modbus_reply (Some (sv_ctx s2)) (Some (sv_query s2)) (sv_len s2) (Some (sv_mapping s2)) (replicate 260 0) (sv_world s2) \<noteq> Fault"
proof -
  let ?w = "example_world [Rx_data [0, 7, 0, 0, 0, 6, 1, 6, 0, 18, 0xCA, 0xFE]] [Tx_sent 100] []" and ?b = "replicate 260 0 :: byte list"
  let ?s = "example_server\<lparr>sv_world := ?w\<rparr>"
  have "case obind (modbus_receive (Some example_tcp) ?b ?w) (\<lambda>(rc, c, q, w).
        obind (modbus_reply c (Some q) rc (Some example_mapping) ?b w) (\<lambda>(rc2, c2, m, w2).
          Done (rc, c, c2, map_option mp_tab_registers m))) of
      Done (rc, c, c2, tab) \<Rightarrow> rc = 12 \<and> c \<noteq> None \<and> c2 \<noteq> None \<and> tab = Some [0x1234, 0xFFFF, 0xCAFE]
    | _ \<Rightarrow> False" by code_simp
  then obtain c q w rc2 c2 m w2 where
      1: "modbus_receive (Some example_tcp) ?b ?w = Done (12, Some c, q, w)"
    and 2: "modbus_reply (Some c) (Some q) 12 (Some example_mapping) ?b w = Done (rc2, Some c2, Some m, w2)"
    and m: "mp_tab_registers m = [0x1234, 0xFFFF, 0xCAFE]"
    by (clarsimp split: outcome.splits elim!: obind_DoneE)
  let ?s1 = "?s\<lparr>sv_ctx := c, sv_query := q, sv_len := 12, sv_world := w\<rparr>" and ?s2 = "\<lparr>sv_ctx = c2, sv_query = q, sv_len = 12, sv_mapping = m, sv_world = w2\<rparr>"
  have step1: "server_step ?s ?s1" by (rule server_step.receive) (simp add: example_server_def 1)
  have "?s2 = ?s1\<lparr>sv_ctx := c2, sv_mapping := m, sv_world := w2\<rparr>" by (simp add: example_server_def)
  then have step2: "server_step ?s1 ?s2"
    using server_step.reply [of ?b ?s1 rc2 c2 m w2] 2 by (simp add: example_server_def)
  have ok: "server_ok ?s" using example_server_ok by (simp add: server_ok_def)
  from server_always_safe [OF server_reach.step [OF server_reach.step [OF server_reach.start step1] step2] ok, of ?b] step1 step2 m
  show ?thesis unfolding Let_def by (intro exI [of _ ?s1] exI [of _ ?s2]) simp
qed

text \<open>
  C4: end to end: when a server received the request frame of the client in any chunks with
  \<open>modbus_receive\<close> and answered it with \<open>modbus_reply\<close>, and the line carried its response in any
  chunks, \<open>modbus_read_registers\<close> (or \<open>modbus_read_input_registers\<close>) returns the count and exactly the
  slice of the holding (or input) registers of the server, leaves the rest of the array, has sent that
  one request, and the server has not changed its mapping; on a serial line and over TCP.
\<close>

theorem client_reads_server_registers:
  assumes "usable c" and "length req = 12" "length rsp = 260" and "wf_mapping m" and "is_rtu s = is_rtu c"
    and "1 \<le> nb" "nb \<le> 125" "nat nb \<le> length d" and "0 \<le> addr" "addr < 65536"
    and "f = (if inputs then 4 else 3)"
    and "start = (if inputs then mp_start_input_registers m else mp_start_registers m)"
    and "tab = (if inputs then mp_tab_input_registers m else mp_tab_registers m)"
    and "in_table start tab addr nb"
    and "served s m (request_frame c f (req4 addr nb)) fr m1"
    and "answered (request_ctx c) (request_frame c f (req4 addr nb)) fr w"
  shows "m1 = m \<and> (\<exists>w'. (if inputs then modbus_read_input_registers else modbus_read_registers) (Some c) addr nb (Some d) req rsp w =
      Done (nb, Some (request_ctx c), Some (slice start tab addr nb @ drop (nat nb) d), w') \<and>
      w_sent w' = w_sent w @ [request_frame c f (req4 addr nb)])"
proof -
  have "f = 3 \<and> start = mp_start_registers m \<and> tab = mp_tab_registers m \<or>
      f = 4 \<and> start = mp_start_input_registers m \<and> tab = mp_tab_input_registers m" using assms(11-13) by auto
  from read_registers_served [OF assms(1-10) this assms(14-16)] assms(6,7,11) show ?thesis
    by (auto simp: modbus_read_registers_def modbus_read_input_registers_def)
qed

theorem client_reads_server_registers_witness:
  "\<exists>w'. modbus_read_registers (Some example_tcp) 16 2 (Some [9, 9, 9]) (replicate 12 0) (replicate 260 0)
     (example_world [Rx_data [0, 7, 0], Rx_data [0, 0, 7, 1, 3, 4, 0x12, 0x34, 0xFF, 0xFF]] [Tx_sent 12] []) =
     Done (2, Some (request_ctx example_tcp), Some [0x1234, 0xFFFF, 9], w')"
  using client_reads_server_registers [where inputs = False, OF example_usable _ _ example_wf_mapping(1) refl _ _ _ _ _ _ refl refl _
      _ example_answered_registers, of "replicate 12 0" "replicate 260 0" "[9, 9, 9]"] example_served_registers
  by (auto simp: in_table_def slice_def)

text \<open>
  C5: \<open>_modbus_receive_msg\<close> stays in its buffer whatever arrives; when it returns a positive length the
  message of that length is exactly as long as its own function code and byte count announce, fits
  the backend and passes the integrity check; nothing is sent on the way.
\<close>

theorem receive_never_overruns:
  assumes "max_adu_length ctx \<le> length msg"
  shows "modbus_receive_msg ctx msg mt w \<noteq> Fault \<and>
    (\<forall>rc ctx' msg' w'. modbus_receive_msg ctx msg mt w = Done (rc, ctx', msg', w') \<longrightarrow>
       length msg' = length msg \<and> w_sent w' = w_sent w \<and> relinked ctx ctx' \<and> rc \<le> int (max_adu_length ctx) \<and>
       (0 < rc \<longrightarrow> complete ctx mt (take (nat rc) msg') \<and> be_check_integrity ctx msg' (nat rc) w' = Done (rc, w')))"
proof (intro conjI allI impI)
  show "modbus_receive_msg ctx msg mt w \<noteq> Fault" by (rule receive_msg_not_Fault [OF assms])
next
  fix rc ctx' msg' w'
  assume "modbus_receive_msg ctx msg mt w = Done (rc, ctx', msg', w')"
  note res = receive_msg_result [OF assms this]
  from res show "length msg' = length msg" "w_sent w' = w_sent w" "relinked ctx ctx'" by simp_all
  from res show "complete ctx mt (take (nat rc) msg')" "be_check_integrity ctx msg' (nat rc) w' = Done (rc, w')" if "0 < rc"
    using that by auto
  from res show "rc \<le> int (max_adu_length ctx)" by (auto simp: complete_def)
qed

theorem receive_never_overruns_witness:
  "modbus_receive_msg example_rtu (replicate 256 0) MSG_INDICATION (example_world [Rx_data (replicate 300 255), Rx_silence] [] []) \<noteq> Fault"
  using receive_never_overruns [of example_rtu "replicate 256 0"] by simp

text \<open>
  C6: a complete message is received as it is however it is cut into chunks: the buffer, the result and
  the input left unread do not depend on the cutting.
\<close>

theorem receive_ignores_fragmentation:
  assumes "complete ctx mt m" and "0 \<le> mb_s ctx" "mb_s ctx < FD_SETSIZE" and "max_adu_length ctx \<le> length msg"
    and "w_rx w = map Rx_data cs @ es" and "[] \<notin> set cs" and "concat cs = m"
  shows "\<exists>a. modbus_receive_msg ctx msg mt w =
    obind (be_check_integrity ctx (m @ drop (length m) msg) (length m) (armed_and_read a es w))
      (\<lambda>(rc, w). Done (rc, ctx, m @ drop (length m) msg, w))"
  by (rule receive_msg_chunks [OF assms])

theorem receive_ignores_fragmentation_witness:
  "\<exists>a. modbus_receive_msg example_tcp (replicate 260 0) MSG_INDICATION
       (example_world [Rx_data [0, 7, 0], Rx_data [0, 0], Rx_data [6, 1, 3, 0, 16, 0, 2], Rx_eof] [] []) =
     Done (12, example_tcp, [0, 7, 0, 0, 0, 6, 1, 3, 0, 16, 0, 2] @ replicate 248 0, armed_and_read a [Rx_eof]
       (example_world [Rx_data [0, 7, 0], Rx_data [0, 0], Rx_data [6, 1, 3, 0, 16, 0, 2], Rx_eof] [] []))"
  using receive_ignores_fragmentation [of example_tcp MSG_INDICATION "[0, 7, 0, 0, 0, 6, 1, 3, 0, 16, 0, 2]" "replicate 260 0"
      "example_world [Rx_data [0, 7, 0], Rx_data [0, 0], Rx_data [6, 1, 3, 0, 16, 0, 2], Rx_eof] [] []"
      "[[0, 7, 0], [0, 0], [6, 1, 3, 0, 16, 0, 2]]" "[Rx_eof]"]
  by (simp add: example_receive)

text \<open>
  C7: end to end: \<open>modbus_read_bits\<close> (or \<open>modbus_read_input_bits\<close>) against a turn of the server
  (\<open>modbus_receive\<close>, \<open>modbus_reply\<close>) returns exactly the slice of the coils (or discrete inputs) of the
  server, one array element of 0 or 1 per bit, packed and unpacked across byte boundaries on the way.
\<close>

theorem client_reads_server_bits:
  assumes "usable c" and "length req = 12" "length rsp = 260" and "wf_mapping m" "bits_01 m" and "is_rtu s = is_rtu c"
    and "1 \<le> nb" "nb \<le> 2000" "nat nb \<le> length d" and "0 \<le> addr" "addr < 65536"
    and "f = (if inputs then 2 else 1)"
    and "start = (if inputs then mp_start_input_bits m else mp_start_bits m)"
    and "tab = (if inputs then mp_tab_input_bits m else mp_tab_bits m)"
    and "in_table start tab addr nb"
    and "served s m (request_frame c f (req4 addr nb)) fr m1"
    and "answered (request_ctx c) (request_frame c f (req4 addr nb)) fr w"
  shows "m1 = m \<and> (\<exists>w'. (if inputs then modbus_read_input_bits else modbus_read_bits) (Some c) addr nb (Some d) req rsp w =
      Done (nb, Some (request_ctx c), Some (slice start tab addr nb @ drop (nat nb) d), w') \<and>
      w_sent w' = w_sent w @ [request_frame c f (req4 addr nb)])"
proof -
  have f: "f = 1 \<and> start = mp_start_bits m \<and> tab = mp_tab_bits m \<or>
      f = 2 \<and> start = mp_start_input_bits m \<and> tab = mp_tab_input_bits m" using assms(12-14) by auto
  have "set tab \<subseteq> {0, 1}" using assms(5,14) by (auto simp: bits_01_def list_all_iff)
  moreover have "(nb + 7) div 8 \<noteq> -1" using assms(7) by simp
  ultimately show ?thesis
    using read_bits_served [OF assms(1-4,6-11) f assms(15) _ assms(16,17)] assms(7,8,12)
    by (auto simp: modbus_read_bits_def modbus_read_input_bits_def)
qed

theorem client_reads_server_bits_witness:
  "\<exists>w'. modbus_read_bits (Some example_tcp) 0 3 (Some [9, 9, 9, 9]) (replicate 12 0) (replicate 260 0)
     (example_world [Rx_data [0, 7, 0, 0, 0, 4, 1], Rx_data [1, 1, 5]] [Tx_sent 12] []) =
     Done (3, Some (request_ctx example_tcp), Some [1, 0, 1, 9], w')"
  using client_reads_server_bits [where inputs = False, OF example_usable _ _ example_wf_mapping refl _ _ _ _ _ _ refl refl _
      _ example_answered_bits, of "replicate 12 0" "replicate 260 0" "[9, 9, 9, 9]"] example_served_bits
  by (auto simp: in_table_def slice_def)

text \<open>
  C8: end to end: \<open>modbus_write_registers\<close> against a turn of the server (\<open>modbus_receive\<close>, \<open>modbus_reply\<close>) returns the count, and the
  mapping of the server differs only in the written registers, which hold the values of the client's
  array in their order.
\<close>

theorem client_writes_server_registers:
  assumes "usable c" and "length req = 260" "length rsp = 260" and "wf_mapping m" and "is_rtu s = is_rtu c"
    and "1 \<le> nb" "nb \<le> 123" "nat nb \<le> length src" and "0 \<le> addr" "addr < 65536"
    and "in_table (mp_start_registers m) (mp_tab_registers m) addr nb"
    and "q = request_frame c 16 (req4 addr nb @ word_of_int (nb * 2) # bytes_of_regs (take (nat nb) src))"
    and "served s m q fr m1" and "answered (request_ctx c) q fr w"
  shows "m1 = m\<lparr>mp_tab_registers := overwrite (mp_start_registers m) (mp_tab_registers m) addr (take (nat nb) src)\<rparr> \<and>
    (\<exists>w'. modbus_write_registers (Some c) addr nb (Some src) req rsp w = Done (nb, Some (request_ctx c), w') \<and>
      w_sent w' = w_sent w @ [q])"
  using write_registers_served [OF assms] by blast

theorem client_writes_server_registers_witness:
  "\<exists>w'. modbus_write_registers (Some example_tcp) 17 1 (Some [0xBEEF]) (replicate 260 0) (replicate 260 0)
     (example_world [Rx_data [0, 7, 0, 0, 0, 6, 1, 16, 0, 17, 0, 1]] [Tx_sent 15] []) =
     Done (1, Some (request_ctx example_tcp), w')"
proof -
  have "1 \<le> (1 :: int)" "(1 :: int) \<le> 123" "nat 1 \<le> length [0xBEEF :: u16]" "0 \<le> (17 :: int)" "(17 :: int) < 65536"
    "in_table (mp_start_registers example_mapping) (mp_tab_registers example_mapping) 17 1" by (simp_all add: in_table_def)
  from client_writes_server_registers [OF example_usable example_sizes(1) example_sizes(1) example_wf_mapping(1) refl this
      example_write_request example_served_write example_answered_write] show ?thesis by blast
qed

text \<open>
  C9: end to end: \<open>modbus_write_bits\<close> against a turn of the server (\<open>modbus_receive\<close>, \<open>modbus_reply\<close>) returns the count, and the mapping
  of the server differs only in the written coils, which are 1 where the client's array is not 0.
\<close>

theorem client_writes_server_bits:
  assumes "usable c" and "length req = 260" "length rsp = 260" and "wf_mapping m" and "is_rtu s = is_rtu c"
    and "1 \<le> nb" "nb \<le> 1968" "nat nb \<le> length src" and "0 \<le> addr" "addr < 65536"
    and "in_table (mp_start_bits m) (mp_tab_bits m) addr nb"
    and "q = request_frame c 15 (req4 addr nb @ word_of_int ((nb + 7) div 8) # pack_bits (map as_bit (take (nat nb) src)))"
    and "served s m q fr m1" and "answered (request_ctx c) q fr w"
  shows "m1 = m\<lparr>mp_tab_bits := overwrite (mp_start_bits m) (mp_tab_bits m) addr (map as_bit (take (nat nb) src))\<rparr> \<and>
    (\<exists>w'. modbus_write_bits (Some c) addr nb (Some src) req rsp w = Done (nb, Some (request_ctx c), w') \<and>
      w_sent w' = w_sent w @ [q])"
  using write_bits_served [OF assms] by blast

theorem client_writes_server_bits_witness:
  "\<exists>w'. modbus_write_bits (Some example_tcp) 1 2 (Some [7, 0]) (replicate 260 0) (replicate 260 0)
     (example_world [Rx_data [0, 7, 0, 0, 0, 6, 1, 15, 0, 1, 0, 2]] [Tx_sent 14] []) =
     Done (2, Some (request_ctx example_tcp), w')"
proof -
  have "1 \<le> (2 :: int)" "(2 :: int) \<le> 1968" "nat 2 \<le> length [7, 0 :: byte]" "0 \<le> (1 :: int)" "(1 :: int) < 65536"
    "in_table (mp_start_bits example_mapping) (mp_tab_bits example_mapping) 1 2" by (simp_all add: in_table_def)
  from client_writes_server_bits [OF example_usable example_sizes(1) example_sizes(1) example_wf_mapping(1) refl this
      example_coils_request example_served_coils example_answered_coils] show ?thesis by blast
qed

text \<open>
  C10: whatever the peer and the line do, \<open>modbus_read_registers\<close> and \<open>modbus_read_input_registers\<close>
  access nothing outside the caller's array and their stack buffers, return -1, 0 or the count that
  was asked for, never write behind that count, and leave the array untouched when they return -1.
\<close>

theorem client_registers_safe:
  assumes "slave_set c" and "length req = 12" "length rsp = 260" and "1 \<le> nb" "nb \<le> 125" and "nat nb \<le> length d"
  shows "array_result c (\<lambda>rc. rc = nb) (nat nb) d (modbus_read_registers (Some c) addr nb (Some d) req rsp w) \<and>
    array_result c (\<lambda>rc. rc = nb) (nat nb) d (modbus_read_input_registers (Some c) addr nb (Some d) req rsp w)"
  using modbus_read_registers_result [OF assms] by blast

theorem client_registers_safe_witness:
  "modbus_read_registers (Some example_rtu) 0 2 (Some [9, 9]) (replicate 12 0) (replicate 260 0)
     (example_world [Rx_data [1, 3, 250], Rx_silence] [Tx_sent 8] []) \<noteq> Fault"
  using client_registers_safe [of example_rtu "replicate 12 0" "replicate 260 0" 2 "[9, 9]"]
  by (simp add: array_result_def slave_set_def)

text \<open>
  C11: end to end: \<open>modbus_write_and_read_registers\<close> against a turn of the server returns the count to
  read; the server has written first, so where the two ranges overlap the client reads the values it
  has just written, and the registers outside the written range are as they were.
\<close>

theorem client_exchanges_server_registers:
  fixes src :: "u16 list"
  assumes "usable c" and "length req = 260" "length rsp = 260" and "wf_mapping m" and "is_rtu s = is_rtu c"
    and "1 \<le> write_nb" "write_nb \<le> 121" "1 \<le> nb" "nb \<le> 125" "nat write_nb \<le> length src" "nat nb \<le> length d"
    and "0 \<le> addr" "addr < 65536" "0 \<le> write_addr" "write_addr < 65536"
    and "in_table (mp_start_registers m) (mp_tab_registers m) addr nb"
    and "in_table (mp_start_registers m) (mp_tab_registers m) write_addr write_nb"
    and "p = req4 addr nb @ req4 write_addr write_nb @ word_of_int (write_nb * 2) # bytes_of_regs (take (nat write_nb) src)"
    and "served s m (request_frame c 23 p) fr m1" and "answered (request_ctx c) (request_frame c 23 p) fr w"
    and "tab = overwrite (mp_start_registers m) (mp_tab_registers m) write_addr (take (nat write_nb) src)"
  shows "m1 = m\<lparr>mp_tab_registers := tab\<rparr> \<and>
    (\<exists>w'. modbus_write_and_read_registers (Some c) write_addr write_nb (Some src) addr nb (Some d) req rsp w =
      Done (nb, Some (request_ctx c), Some (slice (mp_start_registers m) tab addr nb @ drop (nat nb) d), w') \<and>
      w_sent w' = w_sent w @ [request_frame c 23 p])"
  using write_read_served [OF assms(1-17) assms(19,20) [unfolded assms(18)]] unfolding assms(18,21) by blast

theorem client_exchanges_server_registers_witness:
  "\<exists>w'. modbus_write_and_read_registers (Some example_tcp) 17 1 (Some [0xBEEF]) 16 2 (Some [9, 9, 9]) (replicate 260 0) (replicate 260 0)
     (example_world [Rx_data [0, 7, 0, 0, 0, 7, 1, 23, 4, 0x12, 0x34, 0xBE, 0xEF]] [Tx_sent 19] []) =
     Done (2, Some (request_ctx example_tcp), Some [0x1234, 0xBEEF, 9], w')"
proof -
  let ?p = "req4 16 2 @ req4 17 1 @ word_of_int (1 * 2) # bytes_of_regs (take (nat 1) [0xBEEF])"
  let ?fr = "[0, 7, 0, 0, 0, 7, 1, 23, 4, 0x12, 0x34, 0xBE, 0xEF] :: byte list" and ?tab = "[0x1234, 0xBEEF, 0] :: u16 list"
  have q: "request_frame example_tcp 23 ?p = [0, 7, 0, 0, 0, 13, 1, 23, 0, 16, 0, 2, 0, 17, 0, 1, 2, 0xBE, 0xEF]"
    by (simp add: request_frame_def example_sft example_run)
  have served: "served example_tcp example_mapping (request_frame example_tcp 23 ?p) ?fr (example_mapping\<lparr>mp_tab_registers := ?tab\<rparr>)"
    unfolding q by (rule example_served [where b = "[4, 0x12, 0x34, 0xBE, 0xEF]"])
       (simp_all add: example_run example_receive serve_write_read_def overwrite_def)
  have line: "answered (request_ctx example_tcp) (request_frame example_tcp 23 ?p) ?fr (example_world [Rx_data ?fr] [Tx_sent 19] [])"
    unfolding q using example_answered [of "[?fr]" _ 19] by simp
  have tab: "?tab = overwrite (mp_start_registers example_mapping) (mp_tab_registers example_mapping) 17 (take (nat 1) [0xBEEF])"
    by (simp add: overwrite_def)
  note run = client_exchanges_server_registers [OF example_usable example_sizes(1,1) example_wf_mapping(1) refl _ _ _ _ _ _ _ _ _ _ _ _ refl served line tab]
  have "slice (mp_start_registers example_mapping) ?tab 16 2 @ drop (nat 2) [9, 9, 9] = [0x1234, 0xBEEF, 9]" by (simp add: slice_def)
  then show ?thesis using run [THEN conjunct2, of "[9, 9, 9]"] by (simp add: in_table_def) blast
qed

text \<open>
  C12: whatever the peer and the line do, \<open>modbus_read_bits\<close> and \<open>modbus_read_input_bits\<close> access nothing
  outside the caller's array and their stack buffers, return -1 or the count that was asked for and
  nothing else, never write behind that count, and leave the array untouched when they return -1.
\<close>

theorem client_bits_safe:
  assumes "slave_set c" and "length req = 12" "length rsp = 260" and "1 \<le> nb" "nb \<le> 2000" and "nat nb \<le> length d"
  shows "array_result c (\<lambda>rc. rc = nb) (nat nb) d (modbus_read_bits (Some c) addr nb (Some d) req rsp w) \<and>
    array_result c (\<lambda>rc. rc = nb) (nat nb) d (modbus_read_input_bits (Some c) addr nb (Some d) req rsp w) \<and>
    (\<forall>rc c' d' w'. modbus_read_bits (Some c) addr nb (Some d) req rsp w = Done (rc, c', d', w') \<or>
       modbus_read_input_bits (Some c) addr nb (Some d) req rsp w = Done (rc, c', d', w') \<longrightarrow> rc = -1 \<or> rc = nb)"
proof (intro conjI modbus_read_bits_result [OF assms] allI impI)
  fix rc c' d' w'
  assume "modbus_read_bits (Some c) addr nb (Some d) req rsp w = Done (rc, c', d', w') \<or>
    modbus_read_input_bits (Some c) addr nb (Some d) req rsp w = Done (rc, c', d', w')"
  with assms(4,5) show "rc = -1 \<or> rc = nb"
    by (auto simp: modbus_read_bits_def modbus_read_input_bits_def elim!: obind_DoneE split: if_splits)
qed

theorem client_bits_safe_witness:
  "case modbus_read_input_bits (Some example_tcp) 0 9 (Some (replicate 9 7)) (replicate 12 0) (replicate 260 0)
     (example_world [Rx_data [0, 7, 0, 0, 0, 4, 1, 2, 250]] [Tx_sent 12] []) of
     Done (rc, c', d', w') \<Rightarrow> rc = -1 \<or> rc = 9 | r \<Rightarrow> r \<noteq> Fault"
  using client_bits_safe [of example_tcp "replicate 12 0" "replicate 260 0" 9 "replicate 9 7"]
  by (fastforce simp: array_result_def slave_set_def split: outcome.splits)

text \<open>
  C13: whatever the peer and the line do, \<open>modbus_write_bits\<close>, \<open>modbus_write_registers\<close>,
  \<open>modbus_mask_write_register\<close> and the single writes build their request inside their stack buffer and
  return -1, 0 or the number of what was written (1 for the last two).
\<close>

theorem client_writes_safe:
  assumes "slave_set c" and "length req = 260" "length rsp = 260" "length req12 = 12" "length req14 = 14"
    and "1 \<le> nb" "nb \<le> 123" and "nat nb \<le> length src" "1 \<le> nbits" "nbits \<le> 1968" "nat nbits \<le> length bits" and "f \<in> {5, 6}"
  shows "call_result c (\<lambda>rc. rc = nb) (modbus_write_registers (Some c) addr nb (Some src) req rsp w) \<and>
    call_result c (\<lambda>rc. rc = nbits) (modbus_write_bits (Some c) addr nbits (Some bits) req rsp w) \<and>
    call_result c (\<lambda>rc. rc = 1) (modbus_mask_write_register (Some c) addr and_mask or_mask req14 rsp w) \<and>
    call_result c (\<lambda>rc. rc = 1) (write_single (Some c) f addr v req12 rsp w)"
  using assms by (intro conjI write_registers_result write_bits_result mask_write_result write_single_result)

theorem client_writes_safe_witness:
  "modbus_mask_write_register (Some example_rtu) 1 0xF0 0x0F (replicate 14 0) (replicate 260 0) (example_world [] [] []) \<noteq> Fault"
  using client_writes_safe [of example_rtu "replicate 260 0" "replicate 260 0" "replicate 12 0" "replicate 14 0" 1 "[7]" 1 "[1]" 5]
  by (simp add: call_result_def slave_set_def)

text \<open>
  C14: whatever the peer and the line do, \<open>modbus_write_and_read_registers\<close> and
  \<open>modbus_report_slave_id\<close> stay in their arrays: the length of a slave id is chosen by the peer, yet at
  most \<open>max_dest\<close> bytes are stored and none is read behind the response.
\<close>

theorem client_write_read_and_id_safe:
  assumes "slave_set c" and "length req = 260" "length req12 = 12" "length rsp = 260"
    and "1 \<le> write_nb" "write_nb \<le> 121" "1 \<le> nb" "nb \<le> 125" and "nat write_nb \<le> length src" "nat nb \<le> length d"
    and "1 \<le> max_dest" "nat max_dest \<le> length d8"
  shows "array_result c (\<lambda>rc. rc = nb) (nat nb) d
      (modbus_write_and_read_registers (Some c) write_addr write_nb (Some src) addr nb (Some d) req rsp w) \<and>
    array_result c (\<lambda>rc. 0 \<le> rc \<and> rc \<le> 251) (nat max_dest) d8
      (modbus_report_slave_id (Some c) max_dest (Some d8) req12 rsp w)"
  using assms by (intro conjI modbus_write_and_read_registers_result modbus_report_slave_id_result)

theorem client_write_read_and_id_safe_witness:
  "modbus_report_slave_id (Some example_rtu) 2 (Some [0, 0]) (replicate 12 0) (replicate 260 0)
     (example_world [Rx_data [1, 17, 255]] [Tx_sent 4] []) \<noteq> Fault"
  using client_write_read_and_id_safe [of example_rtu "replicate 260 0" "replicate 12 0" "replicate 260 0" 1 1 "[0]" "[0]" 2 "[0, 0]"]
  by (simp add: array_result_def slave_set_def)

text \<open>
  C15: \<open>modbus_proxy\<close> is transparent: between any two framings, the function and data of the request of
  the frontend go to the backend in one frame of its own, and the function and data of its response,
  in whatever chunks they come, go to the frontend under the slave and transaction of its request.
\<close>

theorem proxy_is_transparent:
  assumes "\<forall>i :: nat. length (stk i) = 260" and "n \<le> int (length req)"
    and "k = n - int (header_length f) - int (checksum_length f)" and "1 \<le> k" "k \<le> 253"
    and "slave = uint (req ! (header_length f - 1))" and "p = take (nat k - 1) (drop (header_length f + 1) req)"
    and "modbus_set_slave slave (Some b) (errno_of wfe wbe) = (0, Some b1, errno_of wfe wbe)"
    and "0 \<le> mb_s b" "mb_s b < FD_SETSIZE"
    and "q = be_frame b \<lparr>sft_slave = slave, sft_function = uint (req ! header_length f), sft_t_id = 0\<rparr> p"
    and "be_send b1 q (errno_of wfe wbe) = Done (int (length q), w1)"
    and "w_rx wbe = map Rx_data cs @ es" "[] \<notin> set cs"
    and "concat cs = be_frame b \<lparr>sft_slave = slave, sft_function = fn, sft_t_id = 0\<rparr> body"
    and "complete b MSG_CONFIRMATION (concat cs)"
  shows "\<exists>wbe'. modbus_proxy (Some f) (Some b) (Some req) n stk wfe wbe =
      obind (send_frame f (be_frame f \<lparr>sft_slave = slave, sft_function = fn,
          sft_t_id = (if is_rtu f then 0 else be16 (req ! 0) (req ! 1))\<rparr> body) (errno_of wbe' wfe))
        (\<lambda>(rc, f, wfe). Done (rc, Some f, Some b1, wfe, wbe')) \<and>
      w_sent wbe' = w_sent wbe @ [q] \<and> w_rx wbe' = es"
  using proxy_transparent [of stk n req f p b wfe wbe b1 q w1 cs es fn body] assms by simp

theorem proxy_is_transparent_witness:
  "\<exists>wbe'. modbus_proxy (Some example_tcp) (Some example_tcp) (Some [1, 44, 0, 0, 0, 6, 1, 3, 0, 16, 0, 1]) 12 (\<lambda>i. replicate 260 0)
     (example_world [] [Tx_sent 99] []) (example_world [Rx_data [0, 0, 0, 0], Rx_data [0, 5, 1, 3, 2, 7, 8]] [Tx_sent 99] []) =
     Done (11, Some example_tcp, Some example_tcp, (errno_of wbe' (example_world [] [] []))\<lparr>w_sent := [[1, 44, 0, 0, 0, 5, 1, 3, 2, 7, 8]]\<rparr>, wbe') \<and>
     w_sent wbe' = [[0, 0, 0, 0, 0, 6, 1, 3, 0, 16, 0, 1]]"
proof -
  let ?wfe = "example_world [] [Tx_sent 99] []" and ?wbe = "example_world [Rx_data [0, 0, 0, 0], Rx_data [0, 5, 1, 3, 2, 7, 8]] [Tx_sent 99] []"
  let ?q = "[0, 0, 0, 0, 0, 6, 1, 3, 0, 16, 0, 1] :: byte list"
  have same: "errno_of ?wfe ?wbe = ?wbe" by (simp add: example_world_def)
  have set: "modbus_set_slave 1 (Some example_tcp) (errno_of ?wfe ?wbe) = (0, Some example_tcp, errno_of ?wfe ?wbe)"
    by (simp add: modbus_set_slave_def be_set_slave_def modbus_tcp_set_slave_def example_tcp_def example_ctx_def is_rtu_def)
  let ?req = "[1, 44, 0, 0, 0, 6, 1, 3, 0, 16, 0, 1] :: byte list"
  let ?cs = "[[0, 0, 0, 0], [0, 5, 1, 3, 2, 7, 8]] :: byte list list"
  have sizes: "\<forall>i :: nat. length ((\<lambda>i. replicate 260 (0 :: byte)) i) = 260" "(12 :: int) \<le> int (length ?req)"
    "(5 :: int) = 12 - int (header_length example_tcp) - int (checksum_length example_tcp)" "(1 :: int) \<le> 5" "(5 :: int) \<le> 253"
    "1 = uint (?req ! (header_length example_tcp - 1))" "[0, 16, 0, 1] = take (nat 5 - 1) (drop (header_length example_tcp + 1) ?req)"
    by simp_all
  have link: "0 \<le> mb_s example_tcp" "mb_s example_tcp < FD_SETSIZE" by simp_all
  have q: "?q = be_frame example_tcp \<lparr>sft_slave = 1, sft_function = uint (?req ! header_length example_tcp), sft_t_id = 0\<rparr> [0, 16, 0, 1]"
    by (simp add: example_run)
  have send: "be_send example_tcp ?q (errno_of ?wfe ?wbe) =
      Done (int (length ?q), (example_world (map Rx_data ?cs) [] [])\<lparr>w_sent := [?q]\<rparr>)"
    unfolding same by (simp add: example_be_send)
  have rx: "w_rx ?wbe = map Rx_data ?cs @ []" "[] \<notin> set ?cs" by simp_all
  have frame: "concat ?cs = be_frame example_tcp \<lparr>sft_slave = 1, sft_function = 3, sft_t_id = 0\<rparr> [2, 7, 8]"
    by (simp add: example_run)
  have whole: "complete example_tcp MSG_CONFIRMATION (concat ?cs)" by (simp add: example_receive)
  from proxy_is_transparent [where stk = "\<lambda>i. replicate 260 0" and n = 12 and req = ?req and k = 5 and f = example_tcp and b = example_tcp
      and slave = 1 and p = "[0, 16, 0, 1]" and wfe = ?wfe and wbe = ?wbe and q = ?q and cs = ?cs and es = "[]" and fn = 3 and body = "[2, 7, 8]",
      OF sizes set link q send rx frame whole] obtain wbe' where
    run: "modbus_proxy (Some example_tcp) (Some example_tcp) (Some ?req) 12 (\<lambda>i. replicate 260 0) ?wfe ?wbe =
      obind (send_frame example_tcp (be_frame example_tcp \<lparr>sft_slave = 1, sft_function = 3,
          sft_t_id = (if is_rtu example_tcp then 0 else be16 (?req ! 0) (?req ! 1))\<rparr> [2, 7, 8]) (errno_of wbe' ?wfe))
        (\<lambda>(rc, f, wfe). Done (rc, Some f, Some example_tcp, wfe, wbe'))"
    and sent: "w_sent wbe' = w_sent ?wbe @ [?q]" by blast
  have rsp: "be_frame example_tcp \<lparr>sft_slave = 1, sft_function = 3,
      sft_t_id = (if is_rtu example_tcp then 0 else be16 (?req ! 0) (?req ! 1))\<rparr> [2, 7, 8] = [1, 44, 0, 0, 0, 5, 1, 3, 2, 7, 8]"
    by (simp add: example_run)
  have tx: "w_tx (errno_of wbe' ?wfe) = [Tx_sent 99]" by simp
  have "send_frame example_tcp [1, 44, 0, 0, 0, 5, 1, 3, 2, 7, 8] (errno_of wbe' ?wfe) = Done (11, example_tcp,
      (errno_of wbe' (example_world [] [] []))\<lparr>w_sent := [[1, 44, 0, 0, 0, 5, 1, 3, 2, 7, 8]]\<rparr>)"
    using example_send_frame [OF tx, of "[1, 44, 0, 0, 0, 5, 1, 3, 2, 7, 8]"] by (simp add: example_world_def)
  with run sent show ?thesis unfolding rsp by simp
qed

text \<open>
  C16: whatever the request and its claimed length, whatever the backend answers and whatever the two
  lines do, \<open>modbus_proxy\<close> makes no access outside the request and its stack buffers.
\<close>

theorem proxy_never_faults:
  assumes "\<forall>i :: nat. length (stk i) = 260" and "n \<le> int (length req)"
  shows "modbus_proxy (Some f) (Some b) (Some req) n stk wfe wbe \<noteq> Fault"
  by (rule modbus_proxy_not_Fault [OF assms])

theorem proxy_never_faults_witness:
  "modbus_proxy (Some example_tcp) (Some example_rtu) (Some [1, 44, 0, 0, 0, 6, 1, 3]) 8 (\<lambda>i. replicate 260 0)
     (example_world [] [Tx_sent 99] []) (example_world [Rx_data (replicate 300 255), Rx_silence] [Tx_sent 99] []) \<noteq> Fault"
  using proxy_never_faults [of "\<lambda>i. replicate 260 0" 8 "[1, 44, 0, 0, 0, 6, 1, 3]"] by simp

text \<open>
  C17: the frame of every request of the protocol reaches the server it addresses: \<open>modbus_receive\<close>
  returns its length and its bytes at the front of the buffer, however the line cuts it, answers
  nothing on its own, and leaves what follows the frame in the input.
\<close>

theorem request_is_received_whole:
  assumes "q = be_frame c sft p" and "is_rtu s = is_rtu c" and "whole_request (sft_function sft) p" "length p \<le> 252"
    and "0 \<le> mb_s s" "mb_s s < FD_SETSIZE" and "length query = 260"
    and "is_rtu s \<Longrightarrow> uint (word_of_int (sft_slave sft) :: byte) = mb_slave s \<or> sft_slave sft mod 256 = MODBUS_BROADCAST_ADDRESS"
    and "\<forall>r. mb_backend s = Rtu r \<longrightarrow> \<not> rtu_confirmation_to_ignore r"
    and "w_rx w = map Rx_data cs @ es" "[] \<notin> set cs" "concat cs = q"
  shows "\<exists>w'. modbus_receive (Some s) query w = Done (int (length q), Some s, q @ drop (length q) query, w') \<and>
    w_sent w' = w_sent w \<and> w_tx w' = w_tx w \<and> w_rx w' = es"
  using request_received [OF assms(2-4) refl assms(5-11)] assms(1,12) by simp

theorem request_is_received_whole_witness:
  "\<exists>w'. modbus_receive (Some example_rtu) (replicate 260 0)
     (example_world [Rx_data [1, 3, 0], Rx_data [16, 0, 2, 197, 206], Rx_eof] [] []) =
     Done (8, Some example_rtu, [1, 3, 0, 16, 0, 2, 197, 206] @ replicate 252 0, w') \<and> w_rx w' = [Rx_eof]"
proof -
  have q: "[1, 3, 0, 16, 0, 2, 197, 206] = be_frame example_rtu \<lparr>sft_slave = 1, sft_function = 3, sft_t_id = 0\<rparr> [0, 16, 0, 2]"
    by (simp add: example_rtu_frames)
  from request_is_received_whole [OF q refl, of "replicate 260 0"
      "example_world [Rx_data [1, 3, 0], Rx_data [16, 0, 2, 197, 206], Rx_eof] [] []" "[[1, 3, 0], [16, 0, 2, 197, 206]]" "[Rx_eof]"]
  show ?thesis by (auto simp: whole_request_def example_rtu_data_def)
qed

text \<open>
  C18: on a shared serial line a server ignores the request for another slave, then the confirmation of
  that slave, whatever the chunks: two calls of \<open>modbus_receive\<close> return 0, send nothing, consume
  exactly the two frames and bring the context back to where it was.
\<close>

theorem other_slaves_are_ignored:
  assumes "mb_backend s = Rtu r" "\<not> rtu_confirmation_to_ignore r" and "0 \<le> mb_s s" "mb_s s < FD_SETSIZE" and "length query = 260"
    and "uint (word_of_int (sft_slave sft) :: byte) \<noteq> mb_slave s" "sft_slave sft mod 256 \<noteq> MODBUS_BROADCAST_ADDRESS"
    and "complete s MSG_INDICATION (be_frame s sft p)" and "complete s MSG_CONFIRMATION (be_frame s sft b)"
    and "w_rx w = map Rx_data cs @ map Rx_data ds @ es" "[] \<notin> set cs" "[] \<notin> set ds"
      "concat cs = be_frame s sft p" "concat ds = be_frame s sft b"
  shows "\<exists>query1 w1 query2 w2.
    modbus_receive (Some s) query w = Done (0, Some (ignoring True r s), query1, w1) \<and>
    modbus_receive (Some (ignoring True r s)) query1 w1 = Done (0, Some s, query2, w2) \<and>
    w_sent w2 = w_sent w \<and> w_tx w2 = w_tx w \<and> w_rx w2 = es"
  by (rule other_slave_ignored [OF assms])

theorem other_slaves_are_ignored_witness:
  "\<exists>query1 w1. modbus_receive (Some example_rtu) (replicate 260 0)
     (example_world [Rx_data [2, 3, 0, 16, 0, 1, 133, 252], Rx_data [2, 3, 2, 7, 8, 255, 178]] [] []) =
     Done (0, Some (ignoring True example_rtu_data example_rtu), query1, w1)"
proof -
  let ?sft = "\<lparr>sft_slave = 2, sft_function = 3, sft_t_id = 0\<rparr>"
  from other_slaves_are_ignored [of example_rtu example_rtu_data "replicate 260 0" ?sft "[0, 16, 0, 1]" "[2, 7, 8]"
      "example_world [Rx_data [2, 3, 0, 16, 0, 1, 133, 252], Rx_data [2, 3, 2, 7, 8, 255, 178]] [] []"
      "[[2, 3, 0, 16, 0, 1, 133, 252]]" "[[2, 3, 2, 7, 8, 255, 178]]" "[]", unfolded example_rtu_frames]
  show ?thesis by (auto simp: example_rtu_data_def example_receive)
qed

text \<open>
  C19: a message that is cut short is never taken for one: when only a proper part of a message came and
  then the line fell silent, was closed or failed, \<open>_modbus_receive_msg\<close> returns -1 with \<open>ETIMEDOUT\<close>,
  \<open>ECONNRESET\<close> or the error of the line, with the part in the buffer and nothing sent. What link
  recovery does on the way is fixed as well: it reconnects when the error is one of a broken
  connection (\<open>reopens\<close>), flushes after a silence (\<open>flushes\<close>), and gives back the \<open>errno\<close> of the failure,
  whatever the calls it made set; in all other cases the context is as it was.
\<close>

theorem truncated_message_fails:
  assumes "complete ctx mt m" and "0 \<le> mb_s ctx" "mb_s ctx < FD_SETSIZE" and "max_adu_length ctx \<le> length msg"
    and "w_rx w = map Rx_data cs @ ev # es" "[] \<notin> set cs" and "concat cs = take k m" "k < length m"
    and "line_failure ev = Some e" and "ev = Rx_silence \<Longrightarrow> first_timeout ctx mt \<noteq> None"
  shows "\<exists>w0. w_errno w0 = e \<and> w_sent w0 = w_sent w \<and> w_rx w0 = (if ev = Rx_eof then ev # es else es) \<and>
    modbus_receive_msg ctx msg mt w =
      (if reopens ctx ev e
       then obind (reconnect ctx w0) (\<lambda>(ctx', w'). Done (-1, ctx', take k m @ drop k msg, set_errno e w'))
       else Done (-1, ctx, take k m @ drop k msg,
         if flushes ctx ev e then set_errno e (snd (be_flush ctx (sleep_response_timeout ctx w0))) else w0)) \<and>
    modbus_receive_msg ctx msg mt w \<noteq> Fault \<and>
    (\<forall>rc ctx' msg' w'. modbus_receive_msg ctx msg mt w = Done (rc, ctx', msg', w') \<longrightarrow>
       rc = -1 \<and> msg' = take k m @ drop k msg \<and> w_errno w' = e \<and> w_sent w' = w_sent w \<and> relinked ctx ctx')"
proof -
  from receive_msg_cut [OF assms] obtain w0 where
    w0: "w_errno w0 = e" "w_sent w0 = w_sent w" "w_rx w0 = (if ev = Rx_eof then ev # es else es)"
    and r: "modbus_receive_msg ctx msg mt w =
      obind (failed_receive ctx ev e w0) (\<lambda>(ctx, w). Done (-1, ctx, take k m @ drop k msg, w))" by blast
  have "rc = -1 \<and> msg' = take k m @ drop k msg \<and> w_errno w' = e \<and> w_sent w' = w_sent w \<and> relinked ctx ctx'"
    if "modbus_receive_msg ctx msg mt w = Done (rc, ctx', msg', w')" for rc ctx' msg' w'
    using that failed_receive_result [of ctx ev e w0 ctx' w'] w0 unfolding r by (auto elim!: obind_DoneE)
  moreover have "modbus_receive_msg ctx msg mt w \<noteq> Fault" unfolding r by (auto simp: outcome_iff)
  ultimately show ?thesis
    using w0 by (intro exI [of _ w0]) (auto simp: r failed_receive_def obind_assoc case_prod_unfold)
qed

theorem truncated_message_fails_witness:
  "let c = example_tcp\<lparr>mb_error_recovery := 2\<rparr>;
       w = example_world [Rx_data [0, 7, 0], Rx_data [0, 0, 5, 1, 3], Rx_eof] []
         [(0, ENone), (6, ENone), (0, ENone), (0, ENone), (1, ENone), (-1, EINPROGRESS), (1, ENone), (0, ENone), (0, ENone)]
   in \<exists>c' w'. modbus_receive_msg c (replicate 260 0) MSG_CONFIRMATION w =
        Done (-1, c', [0, 7, 0, 0, 0, 5, 1, 3] @ replicate 252 0, w') \<and> mb_s c' = 6 \<and> w_errno w' = ECONNRESET"
proof -
  let ?c = "example_tcp\<lparr>mb_error_recovery := 2\<rparr>" and ?m = "[0, 7, 0, 0, 0, 5, 1, 3, 2, 1, 2] :: byte list"
    and ?w = "example_world [Rx_data [0, 7, 0], Rx_data [0, 0, 5, 1, 3], Rx_eof] []
         [(0, ENone), (6, ENone), (0, ENone), (0, ENone), (1, ENone), (-1, EINPROGRESS), (1, ENone), (0, ENone), (0, ENone)]"
  have "case modbus_receive_msg ?c (replicate 260 0) MSG_CONFIRMATION ?w of
      Done (rc, c', msg', w') \<Rightarrow> mb_s c' = 6 | _ \<Rightarrow> False" by code_simp
  then obtain rc c' msg' w' where run: "modbus_receive_msg ?c (replicate 260 0) MSG_CONFIRMATION ?w = Done (rc, c', msg', w')"
    and s: "mb_s c' = 6" by (auto split: outcome.splits)
  have cpl: "complete ?c MSG_CONFIRMATION ?m"
    by (simp add: complete_def meta_length_def message_length_def data_length_def compute_meta_length_after_function_def
      header_length_def checksum_length_def max_adu_length_def is_rtu_def example_defs Let_def)
  have fd: "0 \<le> mb_s ?c" "mb_s ?c < FD_SETSIZE" and room: "max_adu_length ?c \<le> length (replicate 260 (0 :: byte))"
    by (simp_all add: max_adu_length_def)
  have rx: "w_rx ?w = map Rx_data [[0, 7, 0], [0, 0, 5, 1, 3]] @ Rx_eof # []" "[] \<notin> set [[0, 7, 0], [0, 0, 5, 1, 3 :: byte]]"
    and cut: "concat [[0, 7, 0], [0, 0, 5, 1, 3]] = take 8 ?m" "8 < length ?m" "line_failure Rx_eof = Some ECONNRESET" by simp_all
  from truncated_message_fails [OF cpl fd room rx cut] run
  have "rc = -1 \<and> msg' = take 8 ?m @ drop 8 (replicate 260 0) \<and> w_errno w' = ECONNRESET \<and> relinked ?c c'" by blast
  with run s show ?thesis by simp
qed

text \<open>
  C20: end to end: \<open>modbus_write_register\<close> against a turn of the server returns 1 and the mapping of the
  server differs in that one register only; \<open>modbus_write_bit\<close> does the same for a coil, which becomes
  1 for every status that is not 0.
\<close>

theorem client_writes_single_values:
  assumes "usable c" and "length req = 12" "length rsp = 260" and "wf_mapping m" and "is_rtu s = is_rtu c" and "0 \<le> addr" "addr < 65536"
    and "f = 6 \<and> v = uint value \<and> in_table (mp_start_registers m) (mp_tab_registers m) addr 1 \<or>
         f = 5 \<and> v = (if status \<noteq> 0 then 0xFF00 else 0) \<and> in_table (mp_start_bits m) (mp_tab_bits m) addr 1"
    and "served s m (request_frame c f (req4 addr v)) fr m1" and "answered (request_ctx c) (request_frame c f (req4 addr v)) fr w"
  shows "m1 = (if f = 6 then m\<lparr>mp_tab_registers := overwrite (mp_start_registers m) (mp_tab_registers m) addr [value]\<rparr>
           else m\<lparr>mp_tab_bits := overwrite (mp_start_bits m) (mp_tab_bits m) addr [if status \<noteq> 0 then 1 else 0]\<rparr>) \<and>
    (\<exists>w'. (if f = 6 then modbus_write_register (Some c) addr value req rsp w else modbus_write_bit (Some c) addr status req rsp w) =
       Done (1, Some (request_ctx c), w'))"
  using assms(8)
proof
  assume f: "f = 6 \<and> v = uint value \<and> in_table (mp_start_registers m) (mp_tab_registers m) addr 1"
  with write_register_served [OF assms(1-7), of "value" fr m1 w] assms(9,10) show ?thesis by auto
next
  assume f: "f = 5 \<and> v = (if status \<noteq> 0 then 0xFF00 else 0) \<and> in_table (mp_start_bits m) (mp_tab_bits m) addr 1"
  have "uint (if status \<noteq> 0 then 0xFF00 else 0 :: u16) = (if status \<noteq> 0 then 0xFF00 else 0)" by simp
  with write_bit_served [OF assms(1-7), of status fr m1 w] assms(9,10) f show ?thesis by auto
qed

theorem client_writes_single_values_witness:
  "\<exists>w'. modbus_write_register (Some example_tcp) 18 0xCAFE (replicate 12 0) (replicate 260 0)
     (example_world [Rx_data [0, 7, 0, 0, 0, 6, 1, 6, 0, 18, 0xCA, 0xFE]] [Tx_sent 12] []) =
     Done (1, Some (request_ctx example_tcp), w')"
proof -
  let ?q = "[0, 7, 0, 0, 0, 6, 1, 6, 0, 18, 0xCA, 0xFE] :: byte list" and ?v = "0xCAFE :: int"
  have q: "request_frame example_tcp 6 (req4 18 ?v) = ?q" by (simp add: request_frame_def example_sft example_run)
  have "served example_tcp example_mapping ?q ?q (example_mapping\<lparr>mp_tab_registers := [0x1234, 0xFFFF, 0xCAFE]\<rparr>)"
    by (rule example_served [where b = "[0, 18, 0xCA, 0xFE]"])
       (simp_all add: example_run example_receive serve_write_register_def overwrite_def echo_length_def)
  moreover have "answered (request_ctx example_tcp) ?q ?q (example_world [Rx_data ?q] [Tx_sent 12] [])"
    using example_answered [of "[?q]" ?q 12] by simp
  moreover have "in_table (mp_start_registers example_mapping) (mp_tab_registers example_mapping) 18 1" by (simp add: in_table_def)
  ultimately show ?thesis
    using client_writes_single_values [OF example_usable example_sizes(2,1) example_wf_mapping(1) refl, of 18 6 ?v "0xCAFE"]
    by (auto simp: q)
qed

text \<open>
  C21: end to end: \<open>modbus_mask_write_register\<close> against a turn of the server returns 1, and the register
  of the server keeps its bits under the AND mask and takes the others from the OR mask; nothing else
  of the mapping changes.
\<close>

theorem client_masks_server_register:
  fixes and_mask or_mask :: u16
  assumes "usable c" and "length req = 14" "length rsp = 260" and "wf_mapping m" and "is_rtu s = is_rtu c" and "0 \<le> addr" "addr < 65536"
    and "in_table (mp_start_registers m) (mp_tab_registers m) addr 1"
    and "served s m (request_frame c 22 (req4 addr (uint and_mask) @ [hi8 or_mask, lo8 or_mask])) fr m1"
    and "answered (request_ctx c) (request_frame c 22 (req4 addr (uint and_mask) @ [hi8 or_mask, lo8 or_mask])) fr w"
  shows "m1 = m\<lparr>mp_tab_registers := overwrite (mp_start_registers m) (mp_tab_registers m) addr
      [masked (mp_tab_registers m ! nat (addr - mp_start_registers m)) and_mask or_mask]\<rparr> \<and>
    (\<exists>w'. modbus_mask_write_register (Some c) addr and_mask or_mask req rsp w = Done (1, Some (request_ctx c), w'))"
  using mask_write_served [OF assms] by blast

theorem client_masks_server_register_witness:
  "\<exists>w'. modbus_mask_write_register (Some example_tcp) 16 0xF0F0 0x0205 (replicate 14 0) (replicate 260 0)
     (example_world [Rx_data [0, 7, 0, 0, 0, 8, 1, 22, 0, 16, 0xF0, 0xF0, 2, 5]] [Tx_sent 14] []) =
     Done (1, Some (request_ctx example_tcp), w')"
proof -
  let ?q = "[0, 7, 0, 0, 0, 8, 1, 22, 0, 16, 0xF0, 0xF0, 2, 5] :: byte list"
  let ?r = "request_frame example_tcp 22 (req4 16 (uint (0xF0F0 :: u16)) @ [hi8 0x0205, lo8 0x0205])"
  have q: "?r = ?q" by (simp add: request_frame_def example_sft example_run)
  have served: "served example_tcp example_mapping ?r ?q (example_mapping\<lparr>mp_tab_registers := [0x1235, 0xFFFF, 0]\<rparr>)"
    unfolding q by (rule example_served [where b = "[0, 16, 0xF0, 0xF0, 2, 5]"])
       (simp_all add: example_run example_receive serve_mask_write_def overwrite_def echo_length_def)
  have line: "answered (request_ctx example_tcp) ?r ?q (example_world [Rx_data ?q] [Tx_sent 14] [])"
    unfolding q using example_answered [of "[?q]" ?q 14] by simp
  have "in_table (mp_start_registers example_mapping) (mp_tab_registers example_mapping) 16 1" by (simp add: in_table_def)
  moreover have "length (replicate 14 (0 :: byte)) = 14" by simp
  ultimately show ?thesis
    by (intro client_masks_server_register [THEN conjunct2, OF example_usable _ example_sizes(1) example_wf_mapping(1) refl _ _ _ served line]) simp_all
qed

text \<open>
  C22: the table-driven \<open>crc16\<close> computes, on every prefix of every buffer, the CRC-16 of the Modbus
  serial line defined bit by bit (reflected polynomial 0xA001, initial value 0xFFFF), and never
  reads outside its tables.
\<close>

theorem crc16_matches_reference:
  assumes "n \<le> length buf" and "n < 65536"
  shows "crc16 buf n = Done (crc_ref (take n buf))"
  using assms by (rule crc16_eq_ref)

theorem crc16_matches_reference_witness: "crc16 [0x11, 0x03, 0x00] 2 = Done (crc_ref [0x11, 0x03])"
  using crc16_matches_reference [of 2 "[0x11, 0x03, 0x00]"] by simp

text \<open>
  C23: a RTU frame in which exactly one byte has been changed on the line, whichever byte and
  whatever its new value, fails the integrity check: the result is -1 with \<open>EMBBADCRC\<close>.
\<close>

theorem crc_detects_changed_byte:
  assumes "i < length (rtu_frame sft body)" and "b \<noteq> rtu_frame sft body ! i" and "length body < 65000"
  shows "\<exists>w'. modbus_rtu_check_integrity ctx ((rtu_frame sft body)[i := b]) (length body + 4) w =
    Done (-1, set_errno EMBBADCRC w')"
proof -
  have "length (rtu_frame sft body) = length body + 4" by (simp add: rtu_frame_def Let_def)
  with assms rtu_frame_changed [OF assms(1,2)] show ?thesis
    by (simp only: rtu_check_integrity_value length_list_update) auto
qed

theorem crc_detects_changed_byte_witness:
  "\<exists>w'. modbus_rtu_check_integrity example_rtu ((rtu_frame \<lparr>sft_slave = 1, sft_function = 3, sft_t_id = 0\<rparr> [2, 0, 7])[3 := 1]) 7
     (example_world [] [] []) = Done (-1, set_errno EMBBADCRC w')"
  using crc_detects_changed_byte [of 3 "\<lparr>sft_slave = 1, sft_function = 3, sft_t_id = 0\<rparr>" "[2, 0, 7]" 1 example_rtu "example_world [] [] []"]
  by (simp add: rtu_frame_def Let_def)



text \<open>
  C25: \<open>modbus_reply_exception\<close> sends one exception frame under the identity of the request, with the
  function code of the request plus 128 and the code; a code from \<open>MODBUS_EXCEPTION_MAX\<close> = 12 on is
  refused with \<open>EINVAL\<close> and nothing is sent. The code is unsigned, so that is every code but 0 to 11.
\<close>

theorem exception_replies_are_checked:
  assumes "length rsp = 260" and "header_length c + 1 \<le> length req"
  shows "modbus_reply_exception (Some c) (Some req) code rsp w =
    (if uint code < 12 then
       obind (send_frame c (be_frame c \<lparr>sft_slave = uint (req ! (header_length c - 1)), sft_function = uint (req ! header_length c) + 128,
           sft_t_id = (if is_rtu c then 0 else be16 (req ! 0) (req ! 1))\<rparr> [ucast code]) w) (\<lambda>(rc, c, w). Done (rc, Some c, w))
     else Done (-1, Some c, set_errno EINVAL w))"
  using reply_exception_value [OF assms, of code w] reply_exception_refused [OF assms, of code w]
  by (simp add: exception_sft_def sft_of_def)

theorem exception_replies_are_checked_witness:
  "modbus_reply_exception (Some example_tcp) (Some [0, 7, 0, 0, 0, 6, 1, 3, 0, 16, 0, 2]) 4294967295 (replicate 260 0) (example_world [] [] []) =
     Done (-1, Some example_tcp, set_errno EINVAL (example_world [] [] [])) \<and>
   modbus_reply_exception (Some example_tcp) (Some [0, 7, 0, 0, 0, 6, 1, 3, 0, 16, 0, 2]) 2 (replicate 260 0) (example_world [] [Tx_sent 99] []) =
     Done (9, Some example_tcp, (example_world [] [] [])\<lparr>w_sent := [[0, 7, 0, 0, 0, 3, 1, 131, 2]]\<rparr>)"
  using exception_replies_are_checked [of "replicate 260 0" example_tcp "[0, 7, 0, 0, 0, 6, 1, 3, 0, 16, 0, 2]" 2 "example_world [] [Tx_sent 99] []"]
    exception_replies_are_checked [of "replicate 260 0" example_tcp "[0, 7, 0, 0, 0, 6, 1, 3, 0, 16, 0, 2]" 4294967295 "example_world [] [] []"]
  by (simp add: example_run)

text \<open>
  C26: \<open>modbus_send_raw_request_tid\<close> wraps the slave, function and data of the caller in the framing of the
  backend and sends the result once; whatever the line does, what was sent is that frame, a proper
  part of it that is reported as \<open>EMBBADDATA\<close>, or nothing. Without a context or a request, and for a
  length that is not from 2 to 254, it returns -1 with \<open>EINVAL\<close> and does nothing else.
\<close>

theorem raw_request_sends_one_frame:
  assumes "length req = MAX_MESSAGE_LENGTH"
  shows "(ctx = None \<or> raw = None \<or> n < 2 \<or> 254 < n \<longrightarrow>
      modbus_send_raw_request_tid ctx raw n tid req w = Done (-1, ctx, set_errno EINVAL w)) \<and>
    (\<forall>c bs f. ctx = Some c \<and> raw = Some bs \<and> 2 \<le> n \<and> n \<le> 254 \<and> n \<le> int (length bs) \<and>
       f = be_frame c \<lparr>sft_slave = uint (bs ! 0), sft_function = uint (bs ! 1), sft_t_id = tid\<rparr> (drop 2 (take (nat n) bs)) \<longrightarrow>
       modbus_send_raw_request_tid ctx raw n tid req w \<noteq> Fault \<and>
       (\<forall>rc c' w'. modbus_send_raw_request_tid ctx raw n tid req w = Done (rc, c', w') \<longrightarrow>
          rc = int (length f) \<and> w_sent w' = w_sent w @ [f] \<or>
          rc = -1 \<and> (\<exists>k. 0 < k \<and> k < length f \<and> w_errno w' = EMBBADDATA \<and> w_sent w' = w_sent w @ [take k f]) \<or>
          rc = -1 \<and> w_sent w' = w_sent w \<or> rc = 0 \<and> w_sent w' = w_sent w @ [[]]))"
proof (intro conjI allI impI)
  show "modbus_send_raw_request_tid ctx raw n tid req w = Done (-1, ctx, set_errno EINVAL w)"
    if "ctx = None \<or> raw = None \<or> n < 2 \<or> 254 < n"
    using that by (auto simp: modbus_send_raw_request_tid_def split: option.splits)
next
  fix c bs f
  assume a: "ctx = Some c \<and> raw = Some bs \<and> 2 \<le> n \<and> n \<le> 254 \<and> n \<le> int (length bs) \<and>
    f = be_frame c \<lparr>sft_slave = uint (bs ! 0), sft_function = uint (bs ! 1), sft_t_id = tid\<rparr> (drop 2 (take (nat n) bs))"
  then have r: "modbus_send_raw_request_tid ctx raw n tid req w = obind (send_frame c f w) (\<lambda>(rc, c, w). Done (rc, Some c, w))"
    using assms by (simp add: send_raw_request_tid_eq)
  then show "modbus_send_raw_request_tid ctx raw n tid req w \<noteq> Fault" by (auto simp: outcome_iff)
  fix rc c' w'
  assume "modbus_send_raw_request_tid ctx raw n tid req w = Done (rc, c', w')"
  then obtain c1 where "send_frame c f w = Done (rc, c1, w')" unfolding r by (auto elim!: obind_DoneE)
  from send_frame_result [OF this]
  show "rc = int (length f) \<and> w_sent w' = w_sent w @ [f] \<or>
      rc = -1 \<and> (\<exists>k. 0 < k \<and> k < length f \<and> w_errno w' = EMBBADDATA \<and> w_sent w' = w_sent w @ [take k f]) \<or>
      rc = -1 \<and> w_sent w' = w_sent w \<or> rc = 0 \<and> w_sent w' = w_sent w @ [[]]" by blast
qed

theorem raw_request_sends_one_frame_witness:
  "(\<exists>w'. modbus_send_raw_request_tid (Some example_tcp) (Some [1, 3, 0, 16, 0, 2]) 6 5 (replicate 260 0) (example_world [] [Tx_sent 99] []) =
     Done (12, Some example_tcp, w') \<and> w_sent w' = [[0, 5, 0, 0, 0, 6, 1, 3, 0, 16, 0, 2]]) \<and>
   modbus_send_raw_request_tid (Some example_tcp) (Some [1, 3, 0, 16, 0, 2]) 255 5 (replicate 260 0) (example_world [] [Tx_sent 99] []) =
     Done (-1, Some example_tcp, set_errno EINVAL (example_world [] [Tx_sent 99] []))"
proof -
  have len: "length (replicate 260 0 :: byte list) = MAX_MESSAGE_LENGTH" by (simp add: MAX_MESSAGE_LENGTH_def)
  have run: "modbus_send_raw_request_tid (Some example_tcp) (Some [1, 3, 0, 16, 0, 2]) 6 5 (replicate 260 0) (example_world [] [Tx_sent 99] []) =
      Done (12, Some example_tcp, (example_world [] [] [])\<lparr>w_sent := [[0, 5, 0, 0, 0, 6, 1, 3, 0, 16, 0, 2]]\<rparr>)"
    by (simp add: send_raw_request_tid_eq example_run)
  let ?f = "be_frame example_tcp \<lparr>sft_slave = uint (1 :: byte), sft_function = uint (3 :: byte), sft_t_id = 5\<rparr> [0, 16, 0, 2]"
  note one = raw_request_sends_one_frame [OF len, of "Some example_tcp" "Some [1, 3, 0, 16, 0, 2]"]
  from one [of 6 5 "example_world [] [Tx_sent 99] []", THEN conjunct2, rule_format, of example_tcp "[1, 3, 0, 16, 0, 2]" ?f]
  have "\<forall>rc c' w'. modbus_send_raw_request_tid (Some example_tcp) (Some [1, 3, 0, 16, 0, 2]) 6 5 (replicate 260 0) (example_world [] [Tx_sent 99] []) =
      Done (rc, c', w') \<longrightarrow> rc = int (length ?f) \<and> w_sent w' = [?f] \<or> rc = -1 \<or> rc = 0" by fastforce
  with run have "w_sent ((example_world [] [] [])\<lparr>w_sent := [[0, 5, 0, 0, 0, 6, 1, 3, 0, 16, 0, 2]]\<rparr>) = [?f]" by fastforce
  with run one [of 255 5 "example_world [] [Tx_sent 99] []"] show ?thesis by (auto simp: example_run)
qed

text \<open>
  C27: the four outcomes of \<open>check_confirmation\<close> on any two buffers: another slave or transaction, an
  exception of the server (its code as \<open>errno\<close>, \<open>EMBBADEXC\<close> when it is malformed), a confirmation
  that matches the request (its count), and anything else (\<open>EMBBADDATA\<close>).
\<close>

theorem confirmation_is_decided:
  assumes "header_length ctx + 5 \<le> length req" and "header_length ctx + 5 \<le> length rsp"
    and "compute_response_length_from_request ctx req = Done expected"
  shows "check_confirmation ctx req rsp n w =
    (let h = header_length ctx; f = rsp ! h in
     if \<not> pre_check_ok ctx req rsp then
       Done (-1, protocol_flush ctx (set_errno (if is_rtu ctx then EMBBADSLAVE else EMBBADDATA) w))
     else if uint f \<ge> 128 then
       Done (fail_errno (if n = int (h + 2 + checksum_length ctx) \<and> uint (req ! h) = uint f - 128 \<and> uint (rsp ! (h + 1)) < 12
                         then EMB (uint (rsp ! (h + 1))) else EMBBADEXC) w)
     else if (expected = None \<or> expected = Some n) \<and> f = req ! h \<and> confirmation_ok ctx req rsp
     then Done (confirmation_count ctx rsp, w)
     else Done (fail_errno EMBBADDATA (protocol_flush ctx w)))"
  by (rule check_confirmation_cases [OF assms])

theorem confirmation_is_decided_witness:
  "\<exists>w'. check_confirmation example_tcp [0, 7, 0, 0, 0, 6, 1, 3, 0, 16, 0, 2] [0, 7, 0, 0, 0, 3, 1, 131, 2, 0, 0, 0] 9 (example_world [] [] []) =
     Done (-1, w') \<and> w_errno w' = EMBXILADD"
  using confirmation_is_decided [of example_tcp "[0, 7, 0, 0, 0, 6, 1, 3, 0, 16, 0, 2]" "[0, 7, 0, 0, 0, 3, 1, 131, 2, 0, 0, 0]" "Some 13" 9 "example_world [] [] []"]
  by (simp add: compute_response_length_from_request_def pre_check_ok_def be16_eq)

text \<open>
  C28: whatever a constructor was given and whatever sequence of the API's configuration, connect, close
  and flush calls follows, with any arguments and any results of the system, the context keeps a
  response timeout that is not zero, microseconds below a second, a slave that fits its byte, a valid
  use of the serial line, and its backend.
\<close>

theorem configuration_stays_valid:
  assumes "modbus_new_rtu device baud parity data_bit stop_bit junk tios st = (Some c, st') \<or>
      modbus_new_tcp ip port junk junk_ip st = Done (Some c, st') \<or> modbus_new_tcp_pi node service junk_port junk st = (Some c, st')"
  shows "run_calls calls (Some c) w \<noteq> Fault \<and>
    (\<forall>c' w'. run_calls calls (Some c) w = Done (c', w') \<longrightarrow> (\<exists>c2. c' = Some c2 \<and> wf_context c2 \<and> is_rtu c2 = is_rtu c))"
proof -
  have "wf_context c" using assms by (auto dest: new_rtu_wf new_tcp_wf new_tcp_pi_wf)
  with run_calls_wf show ?thesis by simp
qed

theorem configuration_stays_valid_witness:
  "case modbus_new_rtu (Some ''/dev/ttyS0'') 9600 (CHR ''N'') 8 1 example_tcp no_tios (\<lparr>hp_oom = [], hp_live = []\<rparr>, example_world [] [] []) of
     (Some c, st') \<Rightarrow> run_calls [Set_slave 300, Set_response_timeout 0 0, Set_rts 7, Connect] (Some c) (example_world [] [] []) \<noteq> Fault
   | _ \<Rightarrow> False"
proof -
  let ?st = "(\<lparr>hp_oom = [], hp_live = []\<rparr>, example_world [] [] [])"
  obtain c st' where "modbus_new_rtu (Some ''/dev/ttyS0'') 9600 (CHR ''N'') 8 1 example_tcp no_tios ?st = (Some c, st')"
    by (simp add: modbus_new_rtu_def malloc_def Let_def)
  with configuration_stays_valid [OF disjI1, OF this] show ?thesis by (simp del: run_calls.simps)
qed

text \<open>
  C29: whatever allocation fails, \<open>modbus_mapping_new_start_address\<close> leaves no block behind when it
  returns NULL, which it does for a dimension above 65536 (with \<open>EINVAL\<close>) and never when every
  allocation succeeds. When it succeeds all four tables hold zeros only and have the dimensions and
  start addresses of the arguments, the mapping is well formed, and \<open>modbus_mapping_free\<close> gives back
  exactly the blocks it took. Start addresses below \<open>2 ^ 31\<close> are such that no range check overflows.
\<close>

theorem mapping_new_is_sound:
  assumes "modbus_mapping_new_start_address sb nb si ni sr nr sir nir st = (r, st')"
  shows "(nb > 65536 \<or> ni > 65536 \<or> nr > 65536 \<or> nir > 65536 \<longrightarrow> r = None \<and> w_errno (snd st') = EINVAL) \<and>
    (hp_oom (fst st) = [] \<and> nb \<le> 65536 \<and> ni \<le> 65536 \<and> nr \<le> 65536 \<and> nir \<le> 65536 \<longrightarrow> r \<noteq> None) \<and>
    (case r of
      None \<Rightarrow> hp_live (fst st') = hp_live (fst st)
    | Some m \<Rightarrow> wf_mapping m \<and> bits_01 m \<and>
        mp_tab_bits m = replicate (unat nb) 0 \<and> mp_tab_input_bits m = replicate (unat ni) 0 \<and>
        mp_tab_registers m = replicate (unat nr) 0 \<and> mp_tab_input_registers m = replicate (unat nir) 0 \<and>
        mp_start_bits m = sint sb \<and> mp_start_input_bits m = sint si \<and>
        mp_start_registers m = sint sr \<and> mp_start_input_registers m = sint sir \<and>
        (sb < 2 ^ 31 \<and> si < 2 ^ 31 \<and> sr < 2 ^ 31 \<and> sir < 2 ^ 31 \<longrightarrow> addressable m) \<and>
        hp_live (fst (modbus_mapping_free (Some m) st')) = hp_live (fst st))"
proof (intro conjI impI)
  show "r = None" "w_errno (snd st') = EINVAL" if "nb > 65536 \<or> ni > 65536 \<or> nr > 65536 \<or> nir > 65536"
    using that assms by (auto simp: modbus_mapping_new_start_address_def)
  show "r \<noteq> None" if "hp_oom (fst st) = [] \<and> nb \<le> 65536 \<and> ni \<le> 65536 \<and> nr \<le> 65536 \<and> nir \<le> 65536"
    using mapping_new_succeeds [of st nb ni nr nir sb si sr sir] that assms by auto
  show "case r of
      None \<Rightarrow> hp_live (fst st') = hp_live (fst st)
    | Some m \<Rightarrow> wf_mapping m \<and> bits_01 m \<and>
        mp_tab_bits m = replicate (unat nb) 0 \<and> mp_tab_input_bits m = replicate (unat ni) 0 \<and>
        mp_tab_registers m = replicate (unat nr) 0 \<and> mp_tab_input_registers m = replicate (unat nir) 0 \<and>
        mp_start_bits m = sint sb \<and> mp_start_input_bits m = sint si \<and>
        mp_start_registers m = sint sr \<and> mp_start_input_registers m = sint sir \<and>
        (sb < 2 ^ 31 \<and> si < 2 ^ 31 \<and> sr < 2 ^ 31 \<and> sir < 2 ^ 31 \<longrightarrow> addressable m) \<and>
        hp_live (fst (modbus_mapping_free (Some m) st')) = hp_live (fst st)"
  proof (cases r)
    case None
    with mapping_new_cases [OF assms] show ?thesis by simp
  next
    case (Some m)
    with assms have new: "modbus_mapping_new_start_address sb nb si ni sr nr sir nir st = (Some m, st')" by simp
    from mapping_new_addressable [OF new] mapping_new_wf [OF new] mapping_new_cases [OF new] Some show ?thesis
      by (auto simp: modbus_mapping_free_def unat_eq_zero)
  qed
qed

theorem mapping_new_is_sound_witness:
  "(case modbus_mapping_new_start_address 0 2 0 0 16 3 0 1 (\<lparr>hp_oom = [False, False, False, True], hp_live = []\<rparr>, example_world [] [] [])
     of (r, st') \<Rightarrow> r = None \<and> hp_live (fst st') = []) \<and>
   (case modbus_mapping_new_start_address 0 2 0 0 16 3 100 1 (\<lparr>hp_oom = [], hp_live = []\<rparr>, example_world [] [] [])
     of (r, st') \<Rightarrow> \<exists>m. r = Some m \<and> addressable m \<and> mp_start_input_registers m = 100 \<and> mp_tab_input_registers m = [0])"
proof
  show "case modbus_mapping_new_start_address 0 2 0 0 16 3 0 1 (\<lparr>hp_oom = [False, False, False, True], hp_live = []\<rparr>, example_world [] [] [])
     of (r, st') \<Rightarrow> r = None \<and> hp_live (fst st') = []"
    using mapping_new_is_sound [of 0 2 0 0 16 3 0 1 "(\<lparr>hp_oom = [False, False, False, True], hp_live = []\<rparr>, example_world [] [] [])"]
    by (simp add: modbus_mapping_new_start_address_def new_table_def malloc_def free_table_def free_def)
  show "case modbus_mapping_new_start_address 0 2 0 0 16 3 100 1 (\<lparr>hp_oom = [], hp_live = []\<rparr>, example_world [] [] [])
     of (r, st') \<Rightarrow> \<exists>m. r = Some m \<and> addressable m \<and> mp_start_input_registers m = 100 \<and> mp_tab_input_registers m = [0]"
    using mapping_new_is_sound [of 0 2 0 0 16 3 100 1 "(\<lparr>hp_oom = [], hp_live = []\<rparr>, example_world [] [] [])"]
    by (auto split: prod.splits option.splits)
qed

text \<open>
  C30: whatever calls of \<open>lib_call\<close> an application makes on one context in use, in any order, with any
  arguments and arrays of the documented sizes (\<open>any_call\<close>; the getters change nothing, and the
  constructors, \<open>modbus_free\<close>, the listening functions and \<open>modbus_proxy\<close> have properties of their own), whatever the peer and the system do between and
  during the calls, and whatever link recovery closes and opens on the way: the next call, of any
  function, does not leave its arrays, and the context has a valid configuration and a slave. When the
  calls follow the discipline of \<open>may_call\<close>, which leaves out those that overwrite the descriptor of the
  context, no descriptor was lost or closed twice: the open ones are those of the rest of the process
  and the one of the context.
\<close>

theorem library_never_faults_or_leaks:
  assumes "in_use c"
  shows "(\<forall>c' w' call. lib_reach any_call c w c' w' \<and> sized call \<longrightarrow>
       run_lib call c' w' \<noteq> Fault \<and> in_use c' \<and> is_rtu c' = is_rtu c) \<and>
    (\<forall>c' w' others. lib_reach may_call c w c' w' \<and> owns others c w \<longrightarrow> owns others c' w')"
proof (intro conjI allI impI; elim conjE)
  fix c' w' call
  assume r: "lib_reach any_call c w c' w'" and "sized call"
  with lib_reach_use [OF r assms] run_lib_stays [of c' call w'] show "run_lib call c' w' \<noteq> Fault" "in_use c'" "is_rtu c' = is_rtu c"
    by (simp_all add: stays_def)
next
  fix c' w' others
  assume r: "lib_reach may_call c w c' w'" and "owns others c w"
  with lib_reach_lossless [OF r assms] show "owns others c' w'" by (simp add: lossless_iff)
qed

theorem library_never_faults_or_leaks_witness:
  "let c = example_tcp\<lparr>mb_error_recovery := 2\<rparr>;
       w = example_world [] [Tx_err EPIPE, Tx_sent 0]
         [(0, ENone), (6, ENone), (0, ENone), (0, ENone), (1, ENone), (-1, EINPROGRESS), (1, ENone), (0, ENone), (0, ENone)]
   in \<exists>c' w'. run_lib (Write_register 16 7 (replicate 12 0) (replicate 260 0)) c w = Done (0, Some c', w') \<and>
        owns {#} c' w' \<and> w_fds w' = [6] \<and>
        run_lib (Receive (replicate 260 0)) (c'\<lparr>mb_s := 5000\<rparr>) w' \<noteq> Fault"
proof -
  let ?c = "example_tcp\<lparr>mb_error_recovery := 2\<rparr>"
    and ?call = "Write_register 16 7 (replicate 12 0) (replicate 260 0)"
    and ?w = "example_world [] [Tx_err EPIPE, Tx_sent 0]
         [(0, ENone), (6, ENone), (0, ENone), (0, ENone), (1, ENone), (-1, EINPROGRESS), (1, ENone), (0, ENone), (0, ENone)]"
  have use: "in_use ?c" by (simp add: in_use_def slave_set_def wf_context_defs wf_timeval_def example_defs)
  have own: "owns {#} ?c ?w" by (simp add: owns_def)
  have "case run_lib ?call ?c ?w of Done (rc, Some c', w') \<Rightarrow> rc = 0 \<and> w_fds w' = [6] | _ \<Rightarrow> False" by code_simp
  then obtain c' w' where run: "run_lib ?call ?c ?w = Done (0, Some c', w')" "w_fds w' = [6]"
    by (auto split: outcome.splits option.splits)
  have reach: "lib_reach may_call ?c ?w c' w'" by (rule lib_reach.call [OF lib_reach.start _ run(1)]) (simp add: frames_def)
  have "run_lib (Api (Set_socket 5000)) c' w' = Done (0, Some (c'\<lparr>mb_s := 5000\<rparr>), w')"
    by (simp add: run_call_def modbus_set_socket_def)
  from lib_reach.call [OF lib_reach_any [OF reach] _ this] have "lib_reach any_call ?c ?w (c'\<lparr>mb_s := 5000\<rparr>) w'"
    by (simp add: any_call_def)
  with library_never_faults_or_leaks [OF use] have "run_lib (Receive (replicate 260 0)) (c'\<lparr>mb_s := 5000\<rparr>) w' \<noteq> Fault"
    by (metis length_replicate order_refl sized.simps(3))
  moreover from library_never_faults_or_leaks [OF use] reach own have "owns {#} c' w'" by blast
  ultimately show ?thesis using run by (simp add: Let_def)
qed

text \<open>
  C31: whatever allocation fails, the three constructors return NULL and leave no block behind, or a
  context with the default configuration (\<open>default_config\<close>: every field that \<open>_modbus_init_common\<close> sets)
  and no descriptor whose release gives back every block; a serial context has the settings it was
  given, all of them in range, the time of a byte they make, no RTS and the library's own driver, and a
  TCP address was not truncated.
\<close>

theorem constructors_check_arguments:
  assumes "\<forall>s. ip = Some s \<longrightarrow> CHR 0x00 \<notin> set s" and "length junk_ip = 16"
  shows "constructed (\<lambda>c. mb_slave c = -1 \<and> (\<exists>r. mb_backend c = Rtu r \<and> Some (rtu_device r) = device \<and> rtu_device r \<noteq> [] \<and>
      rtu_baud r = baud \<and> 0 < baud \<and> uint (rtu_data_bit r) = data_bit \<and> 5 \<le> data_bit \<and> data_bit \<le> 8 \<and>
      uint (rtu_stop_bit r) = stop_bit \<and> stop_bit \<in> {1, 2} \<and> rtu_parity r = parity \<and> parity \<in> {CHR ''N'', CHR ''E'', CHR ''O''} \<and>
      rtu_onebyte_time r = 1000000 * (1 + data_bit + (if parity = CHR ''N'' then 0 else 1) + stop_bit) div baud \<and>
      0 \<le> rtu_onebyte_time r \<and> rtu_onebyte_time r \<le> 12000000 \<and> rtu_rts_delay r = rtu_onebyte_time r \<and>
      rtu_rts r = MODBUS_RTU_RTS_NONE \<and> rtu_set_rts r = Rtu_ioctl_rts \<and> rtu_serial_mode r = MODBUS_RTU_RS232 \<and>
      \<not> rtu_confirmation_to_ignore r))
    st (modbus_new_rtu device baud parity data_bit stop_bit junk tios st) \<and>
    (\<exists>r. modbus_new_tcp ip port junk junk_ip st = Done r \<and>
       constructed (\<lambda>c. mb_slave c = 255 \<and> (\<exists>t. mb_backend c = Tcp t \<and> tcp_t_id t = 0 \<and> tcp_port t = port \<and>
         tcp_ip t = (case ip of Some s \<Rightarrow> s | None \<Rightarrow> ''0'') \<and> tcp_ip t \<noteq> [] \<and> length (tcp_ip t) < 16)) st r) \<and>
    constructed (\<lambda>c. mb_slave c = 255 \<and> (\<exists>t. mb_backend c = TcpPi t \<and> pi_t_id t = 0 \<and> pi_service t \<noteq> [] \<and>
        pi_node t = (case node of Some n \<Rightarrow> n | None \<Rightarrow> '''') \<and> (service = None \<or> service = Some [] \<longrightarrow> pi_service t = ''502'')))
      st (modbus_new_tcp_pi node service junk_port junk st)"
  by (intro conjI modbus_new_rtu_result modbus_new_tcp_result [OF assms] modbus_new_tcp_pi_result)

theorem constructors_check_arguments_witness:
  "\<exists>c st'. modbus_new_tcp None 502 (example_tcp\<lparr>mb_debug := 7\<rparr>) (replicate 16 0) (\<lparr>hp_oom = [], hp_live = []\<rparr>, example_world [] [] []) = Done (Some c, st') \<and>
     mb_debug c = 0 \<and> mb_response_timeout c = \<lparr>tv_sec = 0, tv_usec = 500000\<rparr> \<and> mb_s c = -1"
proof -
  let ?st = "(\<lparr>hp_oom = [], hp_live = []\<rparr>, example_world [] [] [])" and ?j = "example_tcp\<lparr>mb_debug := 7\<rparr>"
  have none: "\<forall>s. None = Some s \<longrightarrow> CHR 0x00 \<notin> set s" "length (replicate 16 (0 :: byte)) = 16" by simp_all
  obtain c st' where new: "modbus_new_tcp None 502 ?j (replicate 16 0) ?st = Done (Some c, st')"
    by (simp add: modbus_new_tcp_def malloc_def)
  with constructors_check_arguments [OF none, THEN conjunct2, THEN conjunct1, of 502 ?j ?st] show ?thesis
    by (auto simp: constructed_def default_config_def)
qed

text \<open>
  C32: build and check are inverse: the frame that \<open>build_response_basis\<close>, the bytes of the body and
  \<open>send_msg_pre\<close> put in a buffer passes the integrity check of the slave it is for with its exact
  length, on a serial line and over TCP, and its slave and function are read back from it.
\<close>

theorem own_frames_are_accepted:
  assumes "header_length ctx + 1 + length body + checksum_length ctx \<le> length rsp" and "length body \<le> 252"
    and "is_rtu peer = is_rtu ctx" and "0 \<le> slave" "slave \<le> 255" "0 \<le> f" "f \<le> 255" and "is_rtu peer \<Longrightarrow> mb_slave peer = slave"
  shows "\<exists>n m. obind (be_build_response_basis ctx \<lparr>sft_slave = slave, sft_function = f, sft_t_id = tid\<rparr> rsp) (\<lambda>(n, rsp).
        obind (push_all rsp n body) (\<lambda>(n, rsp). be_send_msg_pre ctx rsp n)) = Done (n, m) \<and>
      be_check_integrity peer m n w = Done (int n, w) \<and>
      uint (m ! (header_length ctx - 1)) = slave \<and> uint (m ! header_length ctx) = f \<and>
      take (length body) (drop (header_length ctx + 1) m) = body"
proof -
  let ?sft = "\<lparr>sft_slave = slave, sft_function = f, sft_t_id = tid\<rparr>" and ?h = "header_length ctx"
  let ?n = "?h + 1 + length body + checksum_length ctx"
  have small: "?h + 1 + length body < 65536" using assms(2) header_checksum_bounds(2) [of ctx] by linarith
  from be.built_frame [OF assms(1) small, of ?sft] obtain m where
    m: "obind (be_build_response_basis ctx ?sft rsp) (\<lambda>(n, rsp). obind (push_all rsp n body) (\<lambda>(n, rsp). be_send_msg_pre ctx rsp n)) = Done (?n, m)"
      "take ?n m = be_frame ctx ?sft body" "length m = length rsp" by blast
  have same: "header_length peer = ?h" "checksum_length peer = checksum_length ctx" "be_frame peer = be_frame ctx"
    using assms(3) by (simp_all add: header_length_def checksum_length_def be_frame_def fun_eq_iff)
  have n: "?n = header_length peer + 1 + length body + checksum_length peer" unfolding same ..
  have lt: "?n < 65536" using assms(2) header_checksum_bounds(4) [of ctx] by linarith
  have frame: "take ?n m = be_frame peer ?sft body" unfolding same m(2) ..
  have "be_check_integrity peer m ?n w = Done (int ?n, w)"
    by (rule be_check_integrity_frame [OF frame n lt]) (use assms(4,5,8) in \<open>simp add: uint_word_of_int\<close>)
  moreover have nth: "m ! i = be_frame ctx ?sft body ! i" if "i < ?n" for i
    unfolding m(2) [symmetric] using that by simp
  have "m ! (?h - 1) = word_of_int slave" "m ! ?h = word_of_int f"
    using nth [of "?h - 1"] nth [of ?h] be.frame_slave [of ctx ?sft body] be.frame_function [of ctx ?sft body] by simp_all
  moreover have "take (length body) (drop (?h + 1) m) = take (length body) (drop (?h + 1) (take ?n m))"
    by (simp add: drop_take)
  moreover have "\<dots> = body" unfolding m(2) by (rule be.frame_body)
  ultimately show ?thesis using m(1) assms(4-7) by (intro exI [of _ ?n] exI [of _ m]) (simp add: uint_word_of_int)
qed

theorem own_frames_are_accepted_witness:
  "\<exists>n m. obind (be_build_response_basis example_rtu \<lparr>sft_slave = 1, sft_function = 3, sft_t_id = 0\<rparr> (replicate 260 0)) (\<lambda>(n, rsp).
        obind (push_all rsp n [2, 7, 8]) (\<lambda>(n, rsp). be_send_msg_pre example_rtu rsp n)) = Done (n, m) \<and>
      be_check_integrity example_rtu m n (example_world [] [] []) = Done (int n, example_world [] [] [])"
  using own_frames_are_accepted [of example_rtu "[2, 7, 8]" "replicate 260 0" example_rtu 1 3 0 "example_world [] [] []"] by fastforce

text \<open>
  C33: \<open>modbus_tcp_listen\<close> and \<open>modbus_tcp_pi_listen\<close> return an open descriptor or -1 with every
  descriptor they opened closed again, whatever system call fails; \<open>modbus_tcp_accept\<close> puts the
  context on the new descriptor, which fits \<open>select\<close>, or on none. The code for Windows keeps the
  same promises, and through its connection, transmission and reception, with every recovery on the way, the
  open sockets stay those of the rest of the process and the one of the context.
\<close>

theorem servers_listen_without_leaks:
  assumes "posix_results w"
  shows "(\<forall>t s w'. mb_backend c = Tcp t \<and> modbus_tcp_listen (Some c) nb w = Done (s, w') \<longrightarrow> s = -1 \<and> quiet w w' \<or> 0 \<le> s \<and> opened s w w') \<and>
    (\<forall>t s w'. mb_backend c = TcpPi t \<and> modbus_tcp_pi_listen (Some c) nb w = Done (s, w') \<longrightarrow> s = -1 \<and> quiet w w' \<or> 0 \<le> s \<and> opened s w w') \<and>
    (\<forall>s c' w'. modbus_tcp_accept (Some c) w = Done (s, c', w') \<or> modbus_tcp_pi_accept (Some c) w = Done (s, c', w') \<longrightarrow>
       (\<exists>k. c' = Some (c\<lparr>mb_s := k\<rparr>) \<and> (s = -1 \<and> k < 0 \<and> quiet w w' \<or> s = k \<and> 0 \<le> k \<and> k < FD_SETSIZE \<and> opened k w w'))) \<and>
    (\<forall>t s w'. mb_backend c = Tcp t \<and> win_tcp_listen (Some c) nb w = Done (s, w') \<longrightarrow> s = -1 \<and> quiet w w' \<or> 0 \<le> s \<and> opened s w w') \<and>
    (\<forall>t s w'. mb_backend c = TcpPi t \<and> win_tcp_pi_listen (Some c) nb w = Done (s, w') \<longrightarrow> s = -1 \<and> quiet w w' \<or> 0 \<le> s \<and> opened s w w') \<and>
    (\<forall>s c' w'. win_tcp_accept (Some c) w = Done (s, c', w') \<longrightarrow>
       (\<exists>k. c' = Some (c\<lparr>mb_s := k\<rparr>) \<and> (s = -1 \<and> k < 0 \<and> quiet w w' \<or> s = k \<and> 0 \<le> k \<and> k < WIN_FD_SETSIZE \<and> opened k w w'))) \<and>
    (\<forall>others rc c' msg' w'. win_line_connect c w = Done (rc, c', w') \<or> winsock_send_msg c msg n w = Done (rc, c', msg', w') \<or>
       winsock_receive_msg c msg mt w = Done (rc, c', msg', w') \<longrightarrow> owns others c w \<longrightarrow> owns others c' w')"
proof (intro conjI allI impI, goal_cases)
  case 1 then show ?case by (elim conjE) (rule tcp_listen_result [OF _ assms])
next
  case 2 then show ?case by (elim conjE) (rule tcp_pi_listen_result)
next
  case 3 then show ?case using tcp_accept_result by blast
next
  case 4 then show ?case by (elim conjE) (rule win_tcp_listen_result [OF _ assms])
next
  case 5 then show ?case by (elim conjE) (rule win_tcp_pi_listen_result)
next
  case 6 then show ?case by (rule win_tcp_accept_result)
next
  case (7 others rc c' msg' w')
  from 7(1) have "win_line_connect c w = Done (rc, c', w') \<or> lossless c w c' w'"
    using winsock_send_msg_lossless winsock_receive_msg_lossless by blast
  with 7(2) show ?case
    using win_connected_owns [OF win_line_connect_result] by (auto simp: lossless_iff)
qed

theorem servers_listen_without_leaks_witness:
  "\<exists>w'. modbus_tcp_listen (Some example_tcp) 1 (example_world [] [] [(7, ENone), (0, ENone), (1, ENone), (-1, EINVAL)]) = Done (-1, w') \<and>
     w_fds w' = [5]"
proof -
  let ?w = "example_world [] [] [(7, ENone), (0, ENone), (1, ENone), (-1, EINVAL)]"
  have "\<exists>w'. modbus_tcp_listen (Some example_tcp) 1 ?w = Done (-1, w')"
    by (simp add: modbus_tcp_listen_def sys_open_def sys_call_def)
  then obtain w' where r: "modbus_tcp_listen (Some example_tcp) 1 ?w = Done (-1, w')" by blast
  have "posix_results ?w" by (simp add: posix_results_def)
  from servers_listen_without_leaks [OF this, of example_tcp 1] r have "quiet ?w w'" by auto
  with r show ?thesis by (auto simp: quiet_def)
qed

text \<open>
  C34: a connected serial line has the settings of its context: the character size, stop bits, parity and
  speed that the context was given can be read back from the flags written to the device, the receiver
  is on, and line editing and output processing are off.
\<close>

theorem serial_settings_match:
  assumes "modbus_rtu_connect c r w = Done (0, c', w')" and "mb_backend c = Rtu r"
  shows "c_cflag (w_tios w') AND CSIZE = (if rtu_data_bit r = 5 then CS5 else if rtu_data_bit r = 6 then CS6 else if rtu_data_bit r = 7 then CS7 else CS8) \<and>
    c_cflag (w_tios w') AND CSTOPB = (if rtu_stop_bit r = 1 then 0 else CSTOPB) \<and>
    c_cflag (w_tios w') AND PARENB = (if rtu_parity r = CHR ''N'' then 0 else PARENB) \<and>
    (rtu_parity r \<noteq> CHR ''N'' \<longrightarrow> c_cflag (w_tios w') AND PARODD = (if rtu_parity r = CHR ''E'' then 0 else PARODD)) \<and>
    c_cflag (w_tios w') AND (CREAD OR CLOCAL) = CREAD OR CLOCAL \<and>
    c_lflag (w_tios w') = 0 \<and> c_oflag (w_tios w') = 0 \<and> c_ispeed (w_tios w') = rtu_baud r \<and> c_ospeed (w_tios w') = rtu_baud r"
proof -
  have "w_tios w' = rtu_tios r" using rtu_connect_result [OF assms] by auto
  with rtu_tios_decodes [of r] show ?thesis by simp
qed

theorem serial_settings_match_witness:
  "\<exists>c' w'. modbus_rtu_connect example_rtu example_rtu_data (example_world [] [] [(6, ENone), (0, ENone), (0, ENone)]) = Done (0, c', w') \<and>
     c_cflag (w_tios w') AND CSIZE = CS8"
proof -
  let ?w = "example_world [] [] [(6, ENone), (0, ENone), (0, ENone)]"
  have "\<exists>c' w'. modbus_rtu_connect example_rtu example_rtu_data ?w = Done (0, c', w')"
    by (simp add: modbus_rtu_connect_def sys_open_def sys_call_def Let_def)
  then obtain c' w' where r: "modbus_rtu_connect example_rtu example_rtu_data ?w = Done (0, c', w')" by blast
  from serial_settings_match [OF r] have "c_cflag (w_tios w') AND CSIZE = CS8" by (simp add: example_rtu_data_def)
  with r show ?thesis by blast
qed





text \<open>
  C37: on Windows a connection of a serial context fills the handle of the port and not the descriptor
  \<open>ctx->s\<close>, which the constructor has set to -1; the guard on this descriptor in
  \<open>_modbus_receive_msg\<close>, meant for \<open>select\<close>, then ends every reception with -1 and \<open>EINVAL\<close>, whatever
  arrives.
\<close>

theorem windows_serial_receives_nothing:
  assumes "modbus_new_rtu device baud parity data_bit stop_bit junk tios st = (Some ctx, st')"
    and "win_rtu_connect r port w = Done (0, port', w')"
  shows "win_receive_msg ctx r port' msg mt w' = Done (-1, port', msg, win_errno EINVAL w')"
  by (rule win_nothing_received [OF new_rtu_socket [OF assms(1)] assms(2)])

theorem windows_serial_receives_nothing_witness:
  "\<exists>ctx r port w. is_rtu ctx \<and> ws_fd (wp_ser port) = Some 7 \<and> w_rx (wn_world w) = [Rx_data [1, 3, 0, 16, 0, 2, 197, 206]] \<and>
     win_receive_msg ctx r port (replicate 260 0) MSG_INDICATION w = Done (-1, port, replicate 260 0, win_errno EINVAL w)"
proof -
  let ?d = "\<lparr>dcb_BaudRate = 0, dcb_ByteSize = 8, dcb_StopBits = 0, dcb_Parity = 0, dcb_fParity = False, dcb_fTXContinueOnXoff = False,
    dcb_fOutX = False, dcb_fInX = False, dcb_fBinary = True, dcb_fAbortOnError = False, dcb_others = 0\<rparr>"
  let ?w = "\<lparr>wn_world = example_world [Rx_data [1, 3, 0, 16, 0, 2, 197, 206]] [] [(7, ENone), (1, ENone), (1, ENone)], wn_dcb = ?d, wn_timeouts = []\<rparr>"
  let ?st = "(\<lparr>hp_oom = [], hp_live = []\<rparr>, wn_world ?w)"
  obtain ctx st' where new: "modbus_new_rtu (Some ''COM1'') 9600 (CHR ''N'') 8 1 example_tcp no_tios ?st = (Some ctx, st')" and rtu: "is_rtu ctx"
    by (simp add: modbus_new_rtu_def malloc_def common_ctx_def is_rtu_def)
  obtain port w where con: "win_rtu_connect example_rtu_data \<lparr>wp_ser = win32_ser_init, wp_old_dcb = ?d\<rparr> ?w = Done (0, port, w)"
    and "ws_fd (wp_ser port) = Some 7" "w_rx (wn_world w) = [Rx_data [1, 3, 0, 16, 0, 2, 197, 206]]"
    by (simp add: win_rtu_connect_def create_file_def win_call_def Let_def example_world_def)
  with windows_serial_receives_nothing [OF new con] rtu show ?thesis by blast
qed

text \<open>
  C38: \<open>modbus_flush\<close> of a TCP context ends on every input and sends nothing. With \<open>n\<close> for the number of bytes
  it took from the socket, its result is \<open>n\<close> when \<open>n\<close> is below 65536, and -1 with \<open>EOVERFLOW\<close> exactly when it
  is not: the 16-bit counter never wraps. A read that fails or finds the end of the connection ends
  the flush with the count so far and not with -1. When bytes wait in the socket and nothing else
  comes, all of them are taken. The flush of Windows, which asks \<open>select\<close> before each read, returns the
  same and leaves the same input on a socket with a number below 64 whose \<open>select\<close> does not fail.
\<close>

theorem flush_counts_what_it_discards:
  assumes "\<not> is_rtu c"
  shows "\<exists>rc w' n. modbus_flush (Some c) w = (rc, w') \<and> w_sent w' = w_sent w \<and> w_fds w' = w_fds w \<and>
    int (rx_bytes (w_rx w)) = n + int (rx_bytes (w_rx w')) \<and>
    (if n \<le> 65535 then rc = n \<and> 0 \<le> n else rc = -1 \<and> w_errno w' = EOVERFLOW) \<and>
    (\<forall>bs. 0 \<le> mb_s c \<and> w_rx w = [Rx_data bs] \<and> bs \<noteq> [] \<and> length bs \<le> 65535 \<longrightarrow> rc = int (length bs) \<and> w_rx w' = []) \<and>
    (0 \<le> mb_s c \<and> mb_s c < WIN_FD_SETSIZE \<and> selectable (w_rx w) \<longrightarrow>
       (\<exists>v. win_tcp_flush c w = (rc, v) \<and> w_rx v = w_rx w' \<and> w_sent v = w_sent w' \<and> w_fds v = w_fds w'))"
proof -
  obtain rc w' where f: "modbus_flush (Some c) w = (rc, w')" by (cases "modbus_flush (Some c) w")
  with assms have t: "tcp_flush_loop (mb_s c) 0 w = (rc, w')" by (simp add: modbus_flush_def be_flush_def modbus_tcp_flush_def)
  define n where "n = int (rx_bytes (w_rx w)) - int (rx_bytes (w_rx w'))"
  show ?thesis
  proof (intro exI conjI)
    show "modbus_flush (Some c) w = (rc, w')" by (rule f)
    show "w_sent w' = w_sent w" "w_fds w' = w_fds w" using tcp_flush_loop_frame [OF t] by simp_all
    show "int (rx_bytes (w_rx w)) = n + int (rx_bytes (w_rx w'))" by (simp add: n_def)
    show "if n \<le> 65535 then rc = n \<and> 0 \<le> n else rc = -1 \<and> w_errno w' = EOVERFLOW"
      using tcp_flush_loop_counts [OF t] tcp_flush_loop_frame [OF t] by (auto simp: n_def)
    show "\<forall>bs. 0 \<le> mb_s c \<and> w_rx w = [Rx_data bs] \<and> bs \<noteq> [] \<and> length bs \<le> 65535 \<longrightarrow> rc = int (length bs) \<and> w_rx w' = []"
    proof (intro allI impI)
      fix bs
      assume "0 \<le> mb_s c \<and> w_rx w = [Rx_data bs] \<and> bs \<noteq> [] \<and> length bs \<le> 65535"
      with tcp_flush_loop_waiting [of "mb_s c" w bs 0] t show "rc = int (length bs) \<and> w_rx w' = []" by simp
    qed
    show "0 \<le> mb_s c \<and> mb_s c < WIN_FD_SETSIZE \<and> selectable (w_rx w) \<longrightarrow>
        (\<exists>v. win_tcp_flush c w = (rc, v) \<and> w_rx v = w_rx w' \<and> w_sent v = w_sent w' \<and> w_fds v = w_fds w')"
      using win_flush_agrees [of c w] t by (cases "win_tcp_flush c w") (simp add: modbus_tcp_flush_def same_line_def)
  qed
qed

theorem flush_counts_what_it_discards_witness:
  "\<exists>w'. modbus_flush (Some example_tcp) (example_world [Rx_data (replicate 300 7)] [] []) = (300, w') \<and> w_rx w' = []"
  using flush_counts_what_it_discards [of example_tcp "example_world [Rx_data (replicate 300 7)] [] []"] by auto

text \<open>
  C39: a float stored in two registers in any of the four byte orders is read back bit by bit, NaN
  payloads included, and storing what was read restores the registers.
\<close>

theorem float_conversions_roundtrip:
  assumes "2 \<le> length regs"
  shows "obind (modbus_set_float_abcd f regs) modbus_get_float_abcd = Done f \<and>
    obind (modbus_set_float_dcba f regs) modbus_get_float_dcba = Done f \<and>
    obind (modbus_set_float_badc f regs) modbus_get_float_badc = Done f \<and>
    obind (modbus_set_float_cdab f regs) modbus_get_float_cdab = Done f \<and>
    obind (modbus_set_float f regs) modbus_get_float = Done f \<and>
    obind (modbus_get_float_abcd regs) (\<lambda>f. modbus_set_float_abcd f regs) = Done regs \<and>
    obind (modbus_get_float_dcba regs) (\<lambda>f. modbus_set_float_dcba f regs) = Done regs \<and>
    obind (modbus_get_float_badc regs) (\<lambda>f. modbus_set_float_badc f regs) = Done regs \<and>
    obind (modbus_get_float_cdab regs) (\<lambda>f. modbus_set_float_cdab f regs) = Done regs"
  using float_roundtrips [OF assms] float_registers_roundtrips [OF assms] by simp

theorem float_conversions_roundtrip_witness:
  "obind (modbus_set_float_badc 0x7FC00001 [1, 2, 3]) modbus_get_float_badc = Done 0x7FC00001"
  using float_conversions_roundtrip [of "[1, 2, 3]" "0x7FC00001"] by (simp del: One_nat_def)

text \<open>
  C40: \<open>modbus_set_bits_from_bytes\<close> stores one array element, 0 or 1, for each of the \<open>n\<close> requested bits,
  where \<open>n\<close> need not be a multiple of 8, leaves the elements before and behind them alone, and
  \<open>modbus_get_byte_from_bits\<close> reads every byte back: the last one, of which only some bits were
  written, as the value of these bits.
\<close>

theorem bits_of_bytes_roundtrip:
  assumes "k + n \<le> length dest" and "length dest < 2 ^ 32" and "n \<le> 8 * length bs"
  shows "\<exists>dest'. modbus_set_bits_from_bytes dest (int k) n bs = Done dest' \<and>
    length dest' = length dest \<and> take k dest' = take k dest \<and> drop (k + n) dest' = drop (k + n) dest \<and>
    (\<forall>i < n. dest' ! (k + i) = (if bit (bs ! (i div 8)) (i mod 8) then 1 else 0)) \<and>
    (\<forall>j. 8 * j < n \<longrightarrow>
       modbus_get_byte_from_bits dest' (int (k + 8 * j)) (n - 8 * j) = Done (take_bit (min 8 (n - 8 * j)) (bs ! j)))"
proof -
  let ?d = "take k dest @ unpack_bits n bs @ drop (k + n) dest"
  have len: "length ?d = length dest" using assms(1) by simp
  have nth: "?d ! (k + i) = (if bit (bs ! (i div 8)) (i mod 8) then 1 else 0)" if "i < n" for i
    using that assms(1) by (simp add: nth_append unpack_bits_def bit_byte_def)
  have "modbus_get_byte_from_bits ?d (int (k + 8 * j)) (n - 8 * j) = Done (take_bit (min 8 (n - 8 * j)) (bs ! j))"
    if j: "8 * j < n" for j
  proof -
    have "take (min (n - 8 * j) 8) (drop (k + 8 * j) ?d) = take 8 (drop (8 * j) (unpack_bits n bs))"
      using assms(1) j by (simp add: min.commute flip: take_take)
    then show ?thesis
      using get_byte_from_bits_value [of "k + 8 * j" "n - 8 * j" ?d] assms len j byte_of_unpacked [OF j, of bs] by simp
  qed
  with assms len nth show ?thesis
    by (intro exI [of _ ?d]) (simp add: set_bits_from_bytes_value)
qed

theorem bits_of_bytes_roundtrip_witness:
  "\<exists>dest'. modbus_set_bits_from_bytes (replicate 20 7) 2 11 [0xA5, 0xFF] = Done dest' \<and>
     modbus_get_byte_from_bits dest' 10 3 = Done 7 \<and> drop 13 dest' = replicate 7 7"
  using bits_of_bytes_roundtrip [of 2 11 "replicate 20 7" "[0xA5, 0xFF]"]
  by (auto dest!: spec [of _ 1] simp del: One_nat_def simp: take_bit_eq_mod)

end
